(* ===== verification/FRG_Prelude.thy ===== *)
theory FRG_Prelude
  imports Main "HOL-Library.Word" "HOL-Library.List_Lexorder" "HOL-Library.Code_Target_Nat"
begin

text \<open>
  Shared vocabulary of the FRG development: the machine types of the Go code, big-endian byte
  encodings (\<^verbatim>\<open>encoding/binary\<close> and \<^verbatim>\<open>math/big\<close>), Go slices and array copies, results with
  errors, and the buckets of the bbolt store.  Two interfaces are stated as locales:
  \<open>prefix_codec\<close> (a fixed-width field that is written and read back at the front of a byte
  string) and \<open>kv_bucket\<close> (the key/value operations every component uses on the store).
\<close>

section \<open>Types and collections\<close>

type_synonym byte = "8 word"
type_synonym bytes = "8 word list"
type_synonym u8 = "8 word"
type_synonym u16 = "16 word"
type_synonym u32 = "32 word"
type_synonym u64 = "64 word"

text \<open>
  A Go array \<^verbatim>\<open>[32]byte\<close> is the 256-bit word with those big-endian bytes and \<^verbatim>\<open>[64]byte\<close> the
  512-bit word: equality, the zero array and \<^verbatim>\<open>bytes.Compare\<close> are equality, \<open>0\<close> and \<open><\<close> on the
  words.
\<close>

type_synonym bytes32 = "256 word"
type_synonym bytes64 = "512 word"

named_theorems codec_simps \<open>reading back fixed-width fields\<close>
named_theorems res_simps \<open>inversion of results that may carry an error\<close>
named_theorems bucket_simps \<open>reading a bucket after an update\<close>


section \<open>Results\<close>

text \<open>
  A Go function that returns \<^verbatim>\<open>(T, error)\<close> gives a value of \<open>'e + 'a\<close>: \<open>Inl\<close> is the error (or the
  panic), \<open>Inr\<close> the result.  \<open>rbind\<close> is the \<^verbatim>\<open>if err != nil { return err }\<close> idiom.
\<close>

definition rbind :: "'e + 'a \<Rightarrow> ('a \<Rightarrow> 'e + 'b) \<Rightarrow> 'e + 'b" where
  "rbind m f = (case m of Inl e \<Rightarrow> Inl e | Inr x \<Rightarrow> f x)"

definition rguard :: "bool \<Rightarrow> 'e \<Rightarrow> 'e + 'b \<Rightarrow> 'e + 'b" where
  "rguard fails e k = (if fails then Inl e else k)"

lemma rbind_simps [simp]: "rbind (Inl e) f = Inl e" "rbind (Inr x) f = f x"
  by (simp_all add: rbind_def)

lemma rguard_simps [simp]: "rguard True e k = Inl e" "rguard False e k = k"
  by (simp_all add: rguard_def)

lemma rbind_Inr_iff [res_simps]: "rbind m f = Inr y \<longleftrightarrow> (\<exists>x. m = Inr x \<and> f x = Inr y)"
  by (auto simp: rbind_def split: sum.splits)

lemma rbind_Inl_iff [res_simps]:
  "rbind m f = Inl e \<longleftrightarrow> m = Inl e \<or> (\<exists>x. m = Inr x \<and> f x = Inl e)"
  by (auto simp: rbind_def split: sum.splits)

lemma rguard_Inr_iff [res_simps]: "rguard b e k = Inr y \<longleftrightarrow> \<not> b \<and> k = Inr y"
  by (simp add: rguard_def)

lemma rguard_Inl_iff [res_simps]: "rguard b e k = Inl e' \<longleftrightarrow> b \<and> e' = e \<or> \<not> b \<and> k = Inl e'"
  by (auto simp: rguard_def)

lemma rbind_cong [fundef_cong]:
  "m = m' \<Longrightarrow> (\<And>x. m' = Inr x \<Longrightarrow> f x = f' x) \<Longrightarrow> rbind m f = rbind m' f'"
  by (auto simp: rbind_def split: sum.splits)

lemma rbind_assoc: "rbind (rbind m f) g = rbind m (\<lambda>x. rbind (f x) g)"
  by (simp add: rbind_def split: sum.splits)

text \<open>A \<^verbatim>\<open>for\<close> loop that threads a state and returns at the first error.\<close>

fun rfold :: "('a \<Rightarrow> 's \<Rightarrow> 'e + 's) \<Rightarrow> 'a list \<Rightarrow> 's \<Rightarrow> 'e + 's" where
  "rfold f [] s = Inr s"
| "rfold f (x # xs) s = rbind (f x s) (rfold f xs)"

text \<open>A \<^verbatim>\<open>for\<close> loop that collects one result per element.\<close>

fun rmap :: "('a \<Rightarrow> 'e + 'b) \<Rightarrow> 'a list \<Rightarrow> 'e + 'b list" where
  "rmap f [] = Inr []"
| "rmap f (x # xs) = rbind (f x) (\<lambda>y. rbind (rmap f xs) (\<lambda>ys. Inr (y # ys)))"

lemma rfold_append: "rfold f (xs @ ys) s = rbind (rfold f xs s) (rfold f ys)"
  by (induction xs arbitrary: s) (simp_all add: rbind_def split: sum.splits)

lemma rfold_invariant:
  assumes "rfold f xs s = Inr t" and "I s"
    and "\<And>x s t. x \<in> set xs \<Longrightarrow> I s \<Longrightarrow> f x s = Inr t \<Longrightarrow> I t"
  shows "I t"
  using assms
proof (induction xs arbitrary: s)
  case Nil
  then show ?case by simp
next
  case (Cons x xs)
  from Cons.prems(1) obtain s' where s': "f x s = Inr s'" and rest: "rfold f xs s' = Inr t"
    by (auto simp: res_simps)
  have "I s'" using Cons.prems(3)[OF _ Cons.prems(2) s'] by simp
  with rest show ?case
    by (rule Cons.IH) (use Cons.prems(3) in auto)
qed

lemma rmap_Inr_iff:
  "rmap f xs = Inr ys \<longleftrightarrow>
     length ys = length xs \<and> (\<forall>i<length xs. f (xs ! i) = Inr (ys ! i))"
proof (induction xs arbitrary: ys)
  case Nil
  then show ?case by auto
next
  case (Cons x xs)
  show ?case
    by (cases ys) (auto simp: res_simps Cons.IH nth_Cons split: nat.splits)
qed

lemma rmap_length: "rmap f xs = Inr ys \<Longrightarrow> length ys = length xs"
  by (simp add: rmap_Inr_iff)

lemma rmap_update:
  assumes "rmap f xs = Inr ys" "i < length xs" "f x = Inr y"
  shows "rmap f (xs[i := x]) = Inr (ys[i := y])"
  using assms by (auto simp: rmap_Inr_iff nth_list_update)

lemma rmap_append:
  "rmap f (xs @ ys) = rbind (rmap f xs) (\<lambda>as. rbind (rmap f ys) (\<lambda>bs. Inr (as @ bs)))"
  by (induction xs) (simp_all add: rbind_def split: sum.splits)


section \<open>Big-endian integers\<close>

text \<open>\<open>be_bytes n v\<close> is the low \<open>n\<close> bytes of \<open>v\<close>, most significant first; \<open>be_val\<close> is
  \<^verbatim>\<open>big.Int.SetBytes\<close>.\<close>

fun be_bytes :: "nat \<Rightarrow> int \<Rightarrow> bytes" where
  "be_bytes 0 v = []"
| "be_bytes (Suc n) v = be_bytes n (v div 256) @ [word_of_int v]"

definition be_val :: "bytes \<Rightarrow> int" where
  "be_val bs = foldl (\<lambda>a b. 256 * a + uint b) 0 bs"

lemma length_be_bytes [simp]: "length (be_bytes n v) = n"
  by (induction n arbitrary: v) simp_all

lemma be_val_Nil [simp]: "be_val [] = 0"
  by (simp add: be_val_def)

lemma be_val_snoc [simp]: "be_val (bs @ [b]) = 256 * be_val bs + uint b"
  by (simp add: be_val_def)

lemma be_val_nonneg [simp]: "0 \<le> be_val bs"
  by (induction bs rule: rev_induct) simp_all

lemma uint_byte_lt [simp]: "uint (b :: byte) < 256"
  using uint_lt2p[of b] by simp

lemma be_val_less: "be_val bs < 256 ^ length bs"
proof (induction bs rule: rev_induct)
  case Nil
  then show ?case by simp
next
  case (snoc b bs)
  have "uint b < 256" by simp
  with snoc.IH have "256 * be_val bs + uint b < 256 * 256 ^ length bs" by linarith
  then show ?case by simp
qed

lemma be_val_be_bytes: "be_val (be_bytes n v) = v mod 256 ^ n"
proof (induction n arbitrary: v)
  case 0
  then show ?case by simp
next
  case (Suc n)
  have "be_val (be_bytes (Suc n) v) = 256 * (v div 256 mod 256 ^ n) + v mod 256"
    by (simp add: Suc.IH uint_word_of_int)
  also have "\<dots> = v mod (256 * 256 ^ n)"
    by (simp add: zmod_zmult2_eq)
  finally show ?case by simp
qed

lemma be_val_be_bytes_id: "0 \<le> v \<Longrightarrow> v < 256 ^ n \<Longrightarrow> be_val (be_bytes n v) = v"
  by (simp add: be_val_be_bytes)

lemma be_bytes_be_val: "length bs = n \<Longrightarrow> be_bytes n (be_val bs) = bs"
proof (induction bs arbitrary: n rule: rev_induct)
  case Nil
  then show ?case by simp
next
  case (snoc b bs)
  have "(256 * be_val bs + uint b) div 256 = be_val bs" by simp
  moreover have "(word_of_int (256 * be_val bs + uint b) :: byte) = b"
    by (rule word_uint_eqI) (simp only: uint_word_of_int, simp)
  ultimately show ?case using snoc by auto
qed

lemma be_bytes_inj:
  assumes "be_bytes n v = be_bytes n w" "0 \<le> v" "v < 256 ^ n" "0 \<le> w" "w < 256 ^ n"
  shows "v = w"
  using assms be_val_be_bytes_id by metis

text \<open>\<^verbatim>\<open>big.Int.Bytes\<close>: the absolute value without leading zero bytes.\<close>

function nat_bytes :: "int \<Rightarrow> bytes" where
  "nat_bytes v = (if v \<le> 0 then [] else nat_bytes (v div 256) @ [word_of_int v])"
  by pat_completeness auto
termination
  by (relation "measure nat") auto

declare nat_bytes.simps [simp del]

lemma nat_bytes_le_0 [simp]: "v \<le> 0 \<Longrightarrow> nat_bytes v = []"
  by (simp add: nat_bytes.simps)

lemma be_val_nat_bytes [simp]: "0 \<le> v \<Longrightarrow> be_val (nat_bytes v) = v"
proof (induction v rule: nat_bytes.induct)
  case (1 v)
  show ?case
  proof (cases "v \<le> 0")
    case True
    with 1 show ?thesis by simp
  next
    case False
    with 1 show ?thesis by (simp add: nat_bytes.simps[of v] uint_word_of_int)
  qed
qed

text \<open>A value below \<open>256 ^ n\<close> fits in \<open>n\<close> bytes, and left-padding its bytes with zeros gives the
  fixed-width encoding: the \<^verbatim>\<open>copy(buf[32-len(b):], b)\<close> idiom of the code.\<close>

lemma length_nat_bytes_le: "0 \<le> v \<Longrightarrow> v < 256 ^ n \<Longrightarrow> length (nat_bytes v) \<le> n"
proof (induction v arbitrary: n rule: nat_bytes.induct)
  case (1 v)
  show ?case
  proof (cases "v \<le> 0")
    case True
    then show ?thesis by simp
  next
    case False
    with 1(3) obtain m where n: "n = Suc m" by (cases n) auto
    have "v div 256 < 256 ^ m"
      using 1(3) by (simp add: n div_less_iff_less_mult mult.commute) 
    then have "length (nat_bytes (v div 256)) \<le> m"
      using 1(1)[OF False] 1(2) by simp
    with False show ?thesis by (simp add: nat_bytes.simps[of v] n)
  qed
qed

lemma be_bytes_0 [simp]: "be_bytes n 0 = replicate n 0"
  by (induction n) (simp_all add: replicate_append_same)

lemma pad_nat_bytes:
  "0 \<le> v \<Longrightarrow> v < 256 ^ n \<Longrightarrow> replicate (n - length (nat_bytes v)) 0 @ nat_bytes v = be_bytes n v"
proof (induction v arbitrary: n rule: nat_bytes.induct)
  case (1 v)
  show ?case
  proof (cases "v \<le> 0")
    case True
    with 1 have "v = 0" by simp
    then show ?thesis by simp
  next
    case False
    with 1(3) obtain m where n: "n = Suc m" by (cases n) auto
    have "v div 256 < 256 ^ m"
      using 1(3) by (simp add: n div_less_iff_less_mult mult.commute)
    then have "replicate (m - length (nat_bytes (v div 256))) 0 @ nat_bytes (v div 256)
        = be_bytes m (v div 256)"
      using 1(1)[OF False] 1(2) by simp
    with False show ?thesis by (simp add: nat_bytes.simps[of v] n)
  qed
qed


section \<open>Fixed-width fields\<close>

text \<open>Go slices \<^verbatim>\<open>data[a:b]\<close>; out-of-range bounds panic and are guarded where they can occur.\<close>

definition go_slice :: "nat \<Rightarrow> nat \<Rightarrow> 'a list \<Rightarrow> 'a list" where
  "go_slice a b xs = take (b - a) (drop a xs)"

text \<open>\<open>go_copy off src dst\<close> is \<^verbatim>\<open>copy(dst[off:], src)\<close>.\<close>

definition go_copy :: "nat \<Rightarrow> 'a list \<Rightarrow> 'a list \<Rightarrow> 'a list" where
  "go_copy off src dst = take off dst @ take (length dst - off) src @ drop (off + length src) dst"

lemma length_go_copy [simp]: "off \<le> length dst \<Longrightarrow> length (go_copy off src dst) = length dst"
  by (simp add: go_copy_def)

lemma drop_next: "drop n d = xs @ ys \<Longrightarrow> length xs = k \<Longrightarrow> drop (n + k) d = ys"
  by (metis append_eq_conv_conj drop_drop add.commute)

definition PutUint16 :: "u16 \<Rightarrow> bytes" where "PutUint16 w = be_bytes 2 (uint w)"
definition PutUint32 :: "u32 \<Rightarrow> bytes" where "PutUint32 w = be_bytes 4 (uint w)"
definition PutUint64 :: "u64 \<Rightarrow> bytes" where "PutUint64 w = be_bytes 8 (uint w)"
definition Uint16 :: "bytes \<Rightarrow> u16" where "Uint16 bs = word_of_int (be_val (take 2 bs))"
definition Uint32 :: "bytes \<Rightarrow> u32" where "Uint32 bs = word_of_int (be_val (take 4 bs))"
definition Uint64 :: "bytes \<Rightarrow> u64" where "Uint64 bs = word_of_int (be_val (take 8 bs))"

text \<open>\<open>arr32 a\<close> is \<^verbatim>\<open>a[:]\<close>; \<open>to32 b\<close> is \<^verbatim>\<open>copy(a[:], b)\<close> into a zeroed array.\<close>

definition arr32 :: "bytes32 \<Rightarrow> bytes" where "arr32 w = be_bytes 32 (uint w)"
definition arr64 :: "bytes64 \<Rightarrow> bytes" where "arr64 w = be_bytes 64 (uint w)"
definition to32 :: "bytes \<Rightarrow> bytes32" where
  "to32 bs = word_of_int (be_val (take 32 (bs @ replicate 32 0)))"
definition to64 :: "bytes \<Rightarrow> bytes64" where
  "to64 bs = word_of_int (be_val (take 64 (bs @ replicate 64 0)))"

text \<open>Go string constants are byte strings.\<close>

definition str :: "string \<Rightarrow> bytes" where
  "str s = map of_char s"

locale prefix_codec =
  fixes enc :: "'a \<Rightarrow> bytes" and dec :: "bytes \<Rightarrow> 'a" and width :: nat
  assumes enc_length: "length (enc x) = width"
    and dec_enc: "dec (enc x @ rest) = x"
begin

lemma dec_enc_exact: "dec (enc x) = x"
  using dec_enc[of x "[]"] by simp

lemma enc_inject: "enc x = enc y \<longleftrightarrow> x = y"
  by (metis dec_enc_exact)

lemma enc_append_inject: "enc x @ r = enc y @ s \<longleftrightarrow> x = y \<and> r = s"
  by (metis append_eq_append_conv dec_enc enc_length)

lemma drop_enc: "drop width (enc x @ r) = r"
  by (simp add: enc_length)

lemma take_enc: "take width (enc x @ r) = enc x"
  by (simp add: enc_length)

lemma concat_length: "length (concat (map enc xs)) = width * length xs"
  by (induction xs) (simp_all add: enc_length)

lemma concat_inject:
  "length xs = length ys \<Longrightarrow> concat (map enc xs) = concat (map enc ys) \<longleftrightarrow> xs = ys"
  by (induction xs ys rule: list_induct2) (simp_all add: enc_append_inject)

end

lemma uint_less_256_power: "LENGTH('a::len) = 8 * n \<Longrightarrow> uint (w :: 'a word) < 256 ^ n"
  using uint_lt2p[of w] by (simp add: power_mult)

lemma word_of_be_bytes:
  assumes "LENGTH('a::len) = 8 * n"
  shows "(word_of_int (be_val (be_bytes n (uint (w :: 'a word)))) :: 'a word) = w"
  using uint_less_256_power[OF assms] by (simp add: be_val_be_bytes_id)

interpretation U16: prefix_codec PutUint16 Uint16 2
  by unfold_locales (simp_all add: PutUint16_def Uint16_def word_of_be_bytes)

interpretation U32: prefix_codec PutUint32 Uint32 4
  by unfold_locales (simp_all add: PutUint32_def Uint32_def word_of_be_bytes)

interpretation U64: prefix_codec PutUint64 Uint64 8
  by unfold_locales (simp_all add: PutUint64_def Uint64_def word_of_be_bytes)

interpretation A32: prefix_codec arr32 to32 32
  by unfold_locales (simp_all add: arr32_def to32_def word_of_be_bytes)

interpretation A64: prefix_codec arr64 to64 64
  by unfold_locales (simp_all add: arr64_def to64_def word_of_be_bytes)

lemmas [codec_simps] =
  U16.dec_enc U32.dec_enc U64.dec_enc A32.dec_enc A64.dec_enc
  U16.dec_enc_exact U32.dec_enc_exact U64.dec_enc_exact A32.dec_enc_exact A64.dec_enc_exact
lemmas codec_lengths [simp] =
  U16.enc_length U32.enc_length U64.enc_length A32.enc_length A64.enc_length
lemmas codec_inject [simp] =
  U16.enc_inject U32.enc_inject U64.enc_inject A32.enc_inject A64.enc_inject
  U16.enc_append_inject U32.enc_append_inject U64.enc_append_inject
  A32.enc_append_inject A64.enc_append_inject

text \<open>The other direction: a field of the right length is the encoding of what is read from it.\<close>

lemma PutUint16_Uint16: "2 \<le> length bs \<Longrightarrow> PutUint16 (Uint16 bs) = take 2 bs"
  using be_val_less[of "take 2 bs"]
  by (simp add: PutUint16_def Uint16_def uint_word_of_int be_bytes_be_val)

lemma PutUint32_Uint32: "4 \<le> length bs \<Longrightarrow> PutUint32 (Uint32 bs) = take 4 bs"
  using be_val_less[of "take 4 bs"]
  by (simp add: PutUint32_def Uint32_def uint_word_of_int be_bytes_be_val)

lemma PutUint64_Uint64: "8 \<le> length bs \<Longrightarrow> PutUint64 (Uint64 bs) = take 8 bs"
  using be_val_less[of "take 8 bs"]
  by (simp add: PutUint64_def Uint64_def uint_word_of_int be_bytes_be_val)

lemma arr32_to32: "32 \<le> length bs \<Longrightarrow> arr32 (to32 bs) = take 32 bs"
  using be_val_less[of "take 32 bs"]
  by (simp add: arr32_def to32_def uint_word_of_int be_bytes_be_val)

lemma arr64_to64: "64 \<le> length bs \<Longrightarrow> arr64 (to64 bs) = take 64 bs"
  using be_val_less[of "take 64 bs"]
  by (simp add: arr64_def to64_def uint_word_of_int be_bytes_be_val)


section \<open>Buckets\<close>

text \<open>
  A bbolt bucket holds finitely many key/value pairs and iterates over them in key order.  It is
  represented by the list of its pairs in that order.  Keys of type \<^verbatim>\<open>[32]byte\<close> are compared as
  256-bit words, which is the byte order of their encodings.
\<close>

type_synonym ('k, 'v) bucket = "('k \<times> 'v) list"

definition bget :: "('k, 'v) bucket \<Rightarrow> 'k \<Rightarrow> 'v option" where
  "bget b k = map_of b k"

fun bput :: "('k::linorder, 'v) bucket \<Rightarrow> 'k \<Rightarrow> 'v \<Rightarrow> ('k, 'v) bucket" where
  "bput [] k v = [(k, v)]"
| "bput ((k', v') # b) k v =
     (if k = k' then (k, v) # b
      else if k < k' then (k, v) # (k', v') # b
      else (k', v') # bput b k v)"

definition bdel :: "('k, 'v) bucket \<Rightarrow> 'k \<Rightarrow> ('k, 'v) bucket" where
  "bdel b k = filter (\<lambda>p. fst p \<noteq> k) b"

definition bucket_ok :: "('k::linorder, 'v) bucket \<Rightarrow> bool" where
  "bucket_ok b \<longleftrightarrow> sorted_wrt (<) (map fst b)"

locale kv_bucket =
  fixes get :: "'b \<Rightarrow> 'k \<Rightarrow> 'v option"
    and put :: "'b \<Rightarrow> 'k \<Rightarrow> 'v \<Rightarrow> 'b"
    and del :: "'b \<Rightarrow> 'k \<Rightarrow> 'b"
  assumes get_put: "get (put b k v) k' = (if k' = k then Some v else get b k')"
    and get_del: "get (del b k) k' = (if k' = k then None else get b k')"
    and finite_keys: "finite {k. get b k \<noteq> None}"
begin

lemma get_put_same: "get (put b k v) k = Some v"
  by (simp add: get_put)

lemma get_put_other: "k' \<noteq> k \<Longrightarrow> get (put b k v) k' = get b k'"
  by (simp add: get_put)

text \<open>How a sum of a weight over the stored entries changes with an update.\<close>

lemma sum_split:
  fixes f :: "'k \<Rightarrow> 'v \<Rightarrow> int"
  shows "(\<Sum>j | get b j \<noteq> None. f j (the (get b j)))
     = (\<Sum>j\<in>{j. get b j \<noteq> None} - {k}. f j (the (get b j)))
       + (case get b k of None \<Rightarrow> 0 | Some w \<Rightarrow> f k w)"
proof (cases "get b k")
  case None
  then have "{j. get b j \<noteq> None} - {k} = {j. get b j \<noteq> None}" by auto
  with None show ?thesis by simp
next
  case (Some w)
  then have "k \<in> {j. get b j \<noteq> None}" by simp
  from sum.remove[OF finite_keys this, of "\<lambda>j. f j (the (get b j))"] Some
  show ?thesis by simp
qed

lemma sum_put:
  fixes f :: "'k \<Rightarrow> 'v \<Rightarrow> int"
  shows "(\<Sum>j | get (put b k v) j \<noteq> None. f j (the (get (put b k v) j)))
     = (\<Sum>j | get b j \<noteq> None. f j (the (get b j)))
       - (case get b k of None \<Rightarrow> 0 | Some w \<Rightarrow> f k w) + f k v"
proof -
  define D where "D = {j. get b j \<noteq> None}"
  have fin: "finite D" using finite_keys[of b] by (simp only: D_def)
  have dom: "{j. get (put b k v) j \<noteq> None} = insert k (D - {k})"
    by (auto simp: get_put D_def)
  have "(\<Sum>j | get (put b k v) j \<noteq> None. f j (the (get (put b k v) j)))
      = f k v + (\<Sum>j\<in>D - {k}. f j (the (get (put b k v) j)))"
    unfolding dom using fin by (subst sum.insert) (simp_all add: get_put)
  also have "(\<Sum>j\<in>D - {k}. f j (the (get (put b k v) j))) = (\<Sum>j\<in>D - {k}. f j (the (get b j)))"
    by (rule sum.cong) (simp_all add: get_put)
  finally show ?thesis
    using sum_split[where f = f and b = b and k = k] by (simp add: D_def)
qed

lemma sum_del:
  fixes f :: "'k \<Rightarrow> 'v \<Rightarrow> int"
  shows "(\<Sum>j | get (del b k) j \<noteq> None. f j (the (get (del b k) j)))
     = (\<Sum>j | get b j \<noteq> None. f j (the (get b j)))
       - (case get b k of None \<Rightarrow> 0 | Some w \<Rightarrow> f k w)"
proof -
  define D where "D = {j. get b j \<noteq> None}"
  have dom: "{j. get (del b k) j \<noteq> None} = D - {k}"
    by (auto simp: get_del D_def)
  have "(\<Sum>j\<in>D - {k}. f j (the (get (del b k) j))) = (\<Sum>j\<in>D - {k}. f j (the (get b j)))"
    by (rule sum.cong) (simp_all add: get_del)
  then show ?thesis
    unfolding dom using sum_split[where f = f and b = b and k = k] by (simp add: D_def)
qed

end

lemma bget_bput: "bget (bput b k v) k' = (if k' = k then Some v else bget b k')"
  by (induction b k v rule: bput.induct) (auto simp: bget_def)

lemma bget_bdel: "bget (bdel b k) k' = (if k' = k then None else bget b k')"
  by (induction b) (auto simp: bget_def bdel_def)

lemma bget_finite: "finite {k. bget b k \<noteq> None}"
  using finite_dom_map_of[of b] by (simp add: bget_def dom_def)

interpretation bolt: kv_bucket bget bput bdel
  by unfold_locales (simp_all only: bget_bput bget_bdel bget_finite)

lemmas [bucket_simps] = bget_bput bget_bdel

lemma bget_Nil [simp]: "bget [] k = None"
  by (simp add: bget_def)

lemma set_keys_bput: "fst ` set (bput b k v) = insert k (fst ` set b)"
  by (induction b k v rule: bput.induct) auto

lemma bucket_ok_bput: "bucket_ok b \<Longrightarrow> bucket_ok (bput b k v)"
  unfolding bucket_ok_def
proof (induction b k v rule: bput.induct)
  case (2 k' v' b k v)
  then show ?case using set_keys_bput[of b k v] by (auto simp: image_iff)
qed simp

lemma bucket_ok_bdel: "bucket_ok b \<Longrightarrow> bucket_ok (bdel b k)"
  by (simp add: bucket_ok_def bdel_def sorted_wrt_map sorted_wrt_filter)

lemma bucket_ok_distinct: "bucket_ok b \<Longrightarrow> distinct (map fst b)"
  unfolding bucket_ok_def by (metis strict_sorted_iff)

lemma bucket_ok_mem_iff: "bucket_ok b \<Longrightarrow> (k, v) \<in> set b \<longleftrightarrow> bget b k = Some v"
  by (simp add: bget_def bucket_ok_distinct)


section \<open>Evaluation of words\<close>

text \<open>Code equations that truncate an integer to the widths of the model by comparison with a literal
  power of two, so that ground terms over 256-bit and 512-bit words evaluate quickly.  \<open>trunc\<close> is split on the
  constructors of the integers, so that open terms are left alone.\<close>

definition pow2 :: "nat \<Rightarrow> int" where
  "pow2 n = 2 ^ n"

lemma pow2_code [code]:
  "pow2 n = (if n = 8 then 0x100 else if n = 16 then 0x10000 else if n = 32 then 0x100000000
     else if n = 64 then 0x10000000000000000
     else if n = 256 then 0x10000000000000000000000000000000000000000000000000000000000000000
     else if n = 512 then 0x100000000000000000000000000000000000000000000000000000000000000000000000000000000000000000000000000000000000000000000000000000000
     else 2 ^ n)"
  by (simp add: pow2_def)

definition trunc :: "int \<Rightarrow> int \<Rightarrow> int" where
  "trunc m k = k mod m"

lemma trunc_code [code]:
  "trunc m 0 = 0"
  "trunc m (Int.Pos p) = (if Int.Pos p < m then Int.Pos p else Int.Pos p mod m)"
  "trunc m (Int.Neg p) = Int.Neg p mod m"
  by (simp_all add: trunc_def)

lemma take_bit_int_code [code]: "take_bit n (k :: int) = trunc (pow2 n) k"
  by (simp add: take_bit_eq_mod trunc_def pow2_def)

end
