(* ===== verification/FRG_Base.thy ===== *)
theory FRG_Base
  imports FRG_Prelude
begin

text \<open>
  The packages every other package uses: \<^verbatim>\<open>core/errors\<close> (the protocol error codes),
  \<^verbatim>\<open>core/hash\<close> (domain prefixes, the uint256 bound, valid tree scales) and \<^verbatim>\<open>core/keys\<close>
  (Ed25519 key pairs).  The primitives they wrap (SHA-256, Ed25519, Unicode NFC) are the fields of
  the record \<open>crypto\<close>, an argument of every definition that uses them; what the code relies on is
  stated by \<open>ed25519_correct\<close> and \<open>nfc_documented\<close>.
\<close>

section \<open>core/errors\<close>

datatype ErrorCode =
    ErrArithmeticOverflow
  | ErrInvalidChildArity
  | ErrScaleDomainFault
  | ErrHashBoundaryMismatch
  | ErrMaskOutOfBounds
  | ErrPaddingSubstitutionFraud
  | ErrSignatureMisrepresentation
  | ErrNamespaceEscapeFault
  | ErrCanonicalEncodingDistortion
  | ErrDosSizeExceeded
  | ErrRootMismatch
  | ErrInvalidSignature
  | ErrInsufficientFunds
  | ErrAlreadyBonded
  | ErrNotBonded
  | ErrUnbondingPending
  | ErrBondBelowMinimum
  | ErrSequenceFault
  | ErrInvalidTxType
  | ErrEmptyValidatorSet
  | ErrBlockHeightSequenceFault
  | ErrContractBytecodeTooLarge
  | ErrContractOutOfGas
  | ErrContractTrap
  | ErrContractNonDeterministic
  | ErrContractNotFound
  | ErrContractStateInvalid

text \<open>
  An error value of the code: a protocol error (its message is diagnostic text and is left out),
  the sentinel \<^verbatim>\<open>contract.ErrFunctionNotFound\<close>, any other \<^verbatim>\<open>fmt.Errorf\<close>/\<^verbatim>\<open>errors.New\<close> error with its
  constant text, or a run-time panic (index out of range, nil dereference), which no caller in the
  modelled code recovers from.
\<close>

datatype goerr =
    RGError ErrorCode
  | ErrFunctionNotFound
  | GoError string
  | Panic

type_synonym 'a res = "goerr + 'a"


section \<open>core/hash\<close>

definition DomainTx :: bytes where
  "DomainTx = [0x54, 0x58, 0x5F, 0x56, 0x31, 0x00]"

definition DomainTxBatch :: bytes where
  "DomainTxBatch = [0x54, 0x58, 0x5F, 0x42, 0x41, 0x54, 0x43, 0x48, 0x5F, 0x56, 0x31, 0x00]"

definition DomainRGNode :: bytes where
  "DomainRGNode = [0x52, 0x47, 0x5F, 0x4E, 0x4F, 0x44, 0x45, 0x5F, 0x56, 0x31, 0x00]"

definition DomainNullPad :: bytes where
  "DomainNullPad = [0x4E, 0x55, 0x4C, 0x4C, 0x5F, 0x50, 0x41, 0x44, 0x5F, 0x56, 0x31, 0x00]"

definition DomainEmptyBlock :: bytes where
  "DomainEmptyBlock =
     [0x45, 0x4D, 0x50, 0x54, 0x59, 0x5F, 0x42, 0x4C, 0x4F, 0x43, 0x4B, 0x5F, 0x56, 0x31, 0x00]"

definition DomainContractDeploy :: bytes where
  "DomainContractDeploy =
     [0x43, 0x4F, 0x4E, 0x54, 0x52, 0x41, 0x43, 0x54, 0x5F, 0x44, 0x45, 0x50, 0x4C, 0x4F, 0x59,
      0x5F, 0x56, 0x31, 0x00]"

definition DomainContractState :: bytes where
  "DomainContractState =
     [0x43, 0x4F, 0x4E, 0x54, 0x52, 0x41, 0x43, 0x54, 0x5F, 0x53, 0x54, 0x41, 0x54, 0x45, 0x5F,
      0x56, 0x31, 0x00]"

lemma length_domains [simp]:
  "length DomainTx = 6" "length DomainTxBatch = 12" "length DomainRGNode = 11"
  by (simp_all add: DomainTx_def DomainTxBatch_def DomainRGNode_def)

definition UINT256_MAX :: int where
  "UINT256_MAX = 2 ^ 256 - 1"

lemma UINT256_MAX_bytes: "v \<le> UINT256_MAX \<longleftrightarrow> v < 256 ^ 32"
  unfolding UINT256_MAX_def zle_diff1_eq by simp

definition validScales :: "u32 list" where
  "validScales = [1, 4, 16, 64, 256, 1024, 4096, 16384, 65536]"

definition ValidScale :: "u32 \<Rightarrow> bool" where
  "ValidScale lambda \<longleftrightarrow> lambda \<in> set validScales"


section \<open>Cryptographic primitives and core/keys\<close>

record crypto =
  sha256 :: "bytes \<Rightarrow> bytes32"
  ed_verify :: "bytes32 \<Rightarrow> bytes \<Rightarrow> bytes64 \<Rightarrow> bool"
  ed_sign :: "bytes64 \<Rightarrow> bytes \<Rightarrow> bytes64"
  ed_public :: "bytes64 \<Rightarrow> bytes32"
  ed_from_seed :: "bytes32 \<Rightarrow> bytes64"
  nfc :: "bytes \<Rightarrow> bytes"

definition Hash :: "crypto \<Rightarrow> bytes \<Rightarrow> bytes32" where
  "Hash C data = sha256 C data"

record Keypair =
  PublicKey :: bytes32
  PrivateKey :: bytes64

definition Sign :: "crypto \<Rightarrow> Keypair \<Rightarrow> bytes \<Rightarrow> bytes64" where
  "Sign C k msg = ed_sign C (PrivateKey k) msg"

definition NewKeypairFromPrivateKey :: "crypto \<Rightarrow> bytes64 \<Rightarrow> Keypair" where
  "NewKeypairFromPrivateKey C privKey = \<lparr>PublicKey = ed_public C privKey, PrivateKey = privKey\<rparr>"

definition NewKeypairFromSeed :: "crypto \<Rightarrow> bytes32 \<Rightarrow> Keypair" where
  "NewKeypairFromSeed C seed =
     (let priv = ed_from_seed C seed in \<lparr>PublicKey = ed_public C priv, PrivateKey = priv\<rparr>)"

definition Verify :: "crypto \<Rightarrow> bytes32 \<Rightarrow> bytes \<Rightarrow> bytes64 \<Rightarrow> bool" where
  "Verify C pubKey msg sig = ed_verify C pubKey msg sig"

text \<open>The documented contract of \<^verbatim>\<open>crypto/ed25519\<close>: a signature verifies under the public key of
  the private key that made it.\<close>

definition ed25519_correct :: "crypto \<Rightarrow> bool" where
  "ed25519_correct C \<longleftrightarrow> (\<forall>sk m. ed_verify C (ed_public C sk) m (ed_sign C sk m))"

definition keypair_ok :: "crypto \<Rightarrow> Keypair \<Rightarrow> bool" where
  "keypair_ok C k \<longleftrightarrow> PublicKey k = ed_public C (PrivateKey k)"

lemma keypair_ok_new [simp]:
  "keypair_ok C (NewKeypairFromPrivateKey C sk)" "keypair_ok C (NewKeypairFromSeed C seed)"
  by (simp_all add: keypair_ok_def NewKeypairFromPrivateKey_def NewKeypairFromSeed_def Let_def)

lemma Verify_Sign: "ed25519_correct C \<Longrightarrow> keypair_ok C k \<Longrightarrow> Verify C (PublicKey k) m (Sign C k m)"
  by (simp add: ed25519_correct_def keypair_ok_def Verify_def Sign_def)


section \<open>UTF-8 validity and normalisation\<close>

text \<open>\<^verbatim>\<open>unicode/utf8.ValidString\<close>, by the byte ranges of the UTF-8 table.\<close>

definition utf8_cont :: "byte \<Rightarrow> bool" where
  "utf8_cont b \<longleftrightarrow> 0x80 \<le> b \<and> b \<le> 0xBF"

fun ValidString :: "bytes \<Rightarrow> bool" where
  "ValidString [] = True"
| "ValidString (b0 # bs) =
     (if b0 < 0x80 then ValidString bs
      else if 0xC2 \<le> b0 \<and> b0 \<le> 0xDF then
        (case bs of b1 # r \<Rightarrow> utf8_cont b1 \<and> ValidString r | _ \<Rightarrow> False)
      else if 0xE0 \<le> b0 \<and> b0 \<le> 0xEF then
        (case bs of b1 # b2 # r \<Rightarrow>
           (if b0 = 0xE0 then 0xA0 \<le> b1 \<and> b1 \<le> 0xBF
            else if b0 = 0xED then 0x80 \<le> b1 \<and> b1 \<le> 0x9F
            else utf8_cont b1) \<and> utf8_cont b2 \<and> ValidString r
         | _ \<Rightarrow> False)
      else if 0xF0 \<le> b0 \<and> b0 \<le> 0xF4 then
        (case bs of b1 # b2 # b3 # r \<Rightarrow>
           (if b0 = 0xF0 then 0x90 \<le> b1 \<and> b1 \<le> 0xBF
            else if b0 = 0xF4 then 0x80 \<le> b1 \<and> b1 \<le> 0x8F
            else utf8_cont b1) \<and> utf8_cont b2 \<and> utf8_cont b3 \<and> ValidString r
         | _ \<Rightarrow> False)
      else False)"

text \<open>The documented contract of \<^verbatim>\<open>golang.org/x/text/unicode/norm\<close>'s NFC form: normalising valid
  UTF-8 gives valid UTF-8, and a normalised string is unchanged.\<close>

definition nfc_documented :: "crypto \<Rightarrow> bool" where
  "nfc_documented C \<longleftrightarrow>
     (\<forall>s. ValidString s \<longrightarrow> ValidString (nfc C s)) \<and>
     (\<forall>s. ValidString s \<longrightarrow> nfc C (nfc C s) = nfc C s)"

text \<open>A concrete instance of the primitives for evaluation on examples: a 256-bit checksum, keys
  that are their own public half, and text that is already normalised.\<close>

definition sample_sha256 :: "bytes \<Rightarrow> bytes32" where
  "sample_sha256 bs = word_of_int (foldl (\<lambda>a b. (257 * a + uint b + 1) mod 65521) 7 bs)"

definition sample_verify :: "bytes32 \<Rightarrow> bytes \<Rightarrow> bytes64 \<Rightarrow> bool" where
  "sample_verify pk m s \<longleftrightarrow> s = word_of_int (uint pk + be_val m)"

definition sample_public :: "bytes64 \<Rightarrow> bytes32" where
  "sample_public sk = word_of_int (uint sk)"

definition sample_sign :: "bytes64 \<Rightarrow> bytes \<Rightarrow> bytes64" where
  "sample_sign sk m = word_of_int (uint (sample_public sk) + be_val m)"

definition sample_from_seed :: "bytes32 \<Rightarrow> bytes64" where
  "sample_from_seed seed = word_of_int (uint seed)"

definition sample_nfc :: "bytes \<Rightarrow> bytes" where
  "sample_nfc s = s"

definition sample_crypto :: crypto where
  "sample_crypto = \<lparr>sha256 = sample_sha256, ed_verify = sample_verify, ed_sign = sample_sign,
     ed_public = sample_public, ed_from_seed = sample_from_seed, nfc = sample_nfc\<rparr>"

lemmas sample_crypto_defs = sample_crypto_def sample_sha256_def sample_verify_def sample_public_def
  sample_sign_def sample_from_seed_def sample_nfc_def

lemma sample_crypto_ok: "ed25519_correct sample_crypto" "nfc_documented sample_crypto"
  by (simp_all add: ed25519_correct_def nfc_documented_def sample_crypto_defs)

end
