(* ===== verification/FRG_Tx.thy ===== *)
theory FRG_Tx
  imports FRG_Base
begin

text \<open>
  Package \<^verbatim>\<open>core/tx\<close> (\<^verbatim>\<open>tx.go\<close>): the transaction, its canonical byte encoding and the parser that
  inverts it, the identifiers and signatures computed from the encoding, and the batch format that
  gossip, proposals and stored blocks share.  Run-time panics of the parser are values
  (\<open>Inl Panic\<close>).
\<close>

section \<open>Transactions\<close>

abbreviation (input) maxTxBytes :: nat where "maxTxBytes \<equiv> 70000"
abbreviation (input) maxBatchTxs :: nat where "maxBatchTxs \<equiv> 65536"
abbreviation (input) maxBatchBytes :: nat where "maxBatchBytes \<equiv> 33554432"
abbreviation (input) maxWasmBytes :: nat where "maxWasmBytes \<equiv> 1048576"

abbreviation (input) TxTypeTransfer :: u8 where "TxTypeTransfer \<equiv> 1"
abbreviation (input) TxTypeMissEvidence :: u8 where "TxTypeMissEvidence \<equiv> 2"
abbreviation (input) TxTypeContractDeploy :: u8 where "TxTypeContractDeploy \<equiv> 3"
abbreviation (input) TxTypeContractCall :: u8 where "TxTypeContractCall \<equiv> 4"
abbreviation (input) TxTypeBond :: u8 where "TxTypeBond \<equiv> 5"
abbreviation (input) TxTypeUnbond :: u8 where "TxTypeUnbond \<equiv> 6"
abbreviation (input) TxTypeFinalizeUnbond :: u8 where "TxTypeFinalizeUnbond \<equiv> 7"
abbreviation (input) TxTypeClaimRewards :: u8 where "TxTypeClaimRewards \<equiv> 8"
abbreviation (input) TxTypeEquivEvidence :: u8 where "TxTypeEquivEvidence \<equiv> 9"

definition DefaultChainID :: bytes where
  "DefaultChainID = str ''frg-mainnet-1''"

text \<open>\<^verbatim>\<open>Value *big.Int\<close> may be nil, hence the option.\<close>

record Tx =
  Type :: u8
  Sender :: bytes
  Receiver :: bytes
  Value :: "int option"
  Nonce :: u64
  SenderPubKey :: bytes32
  ReceiverPubKey :: bytes32
  SenderSig :: bytes64
  ReceiverSig :: bytes64
  MissedHeight :: u64
  MissedProposer :: bytes32
  SkipIndex :: u32
  WasmBytes :: bytes
  InitArgs :: bytes
  CallData :: bytes
  EvidenceA :: bytes
  EvidenceB :: bytes

abbreviation (input) canonErr :: goerr where "canonErr \<equiv> RGError ErrCanonicalEncodingDistortion"
abbreviation (input) dosErr :: goerr where "dosErr \<equiv> RGError ErrDosSizeExceeded"
abbreviation (input) overflowErr :: goerr where "overflowErr \<equiv> RGError ErrArithmeticOverflow"

text \<open>The extension after the fixed fields: the \<^verbatim>\<open>switch t.Type\<close> at the end of
  \<^verbatim>\<open>serializeUnsigned\<close>.\<close>

definition serializeExt :: "Tx \<Rightarrow> bytes \<Rightarrow> bytes res" where
  "serializeExt t buf =
     (if Type t = TxTypeContractDeploy then
        rguard (length (WasmBytes t) > maxWasmBytes) (RGError ErrContractBytecodeTooLarge)
          (Inr (buf @ PutUint32 (of_nat (length (WasmBytes t))) @ WasmBytes t))
      else if Type t = TxTypeContractCall then
        rguard (length (CallData t) > 0xFFFF) dosErr
          (Inr (buf @ PutUint16 (of_nat (length (CallData t))) @ CallData t))
      else if Type t = TxTypeEquivEvidence then
        rguard (length (EvidenceA t) > 0xFFFF \<or> length (EvidenceB t) > 0xFFFF) dosErr
          (Inr (buf @ PutUint16 (of_nat (length (EvidenceA t))) @ EvidenceA t
                    @ PutUint16 (of_nat (length (EvidenceB t))) @ EvidenceB t))
      else Inr buf)"

definition serializeUnsigned :: "crypto \<Rightarrow> Tx \<Rightarrow> bytes res" where
  "serializeUnsigned C t =
     rguard (\<not> ValidString (Sender t) \<or> \<not> ValidString (Receiver t)) canonErr
      (let sender = nfc C (Sender t); receiver = nfc C (Receiver t) in
       case Value t of None \<Rightarrow> Inl overflowErr
       | Some v \<Rightarrow>
          rguard (v < 0 \<or> v > UINT256_MAX) overflowErr
          (rguard (length sender > 0xFFFF \<or> length receiver > 0xFFFF) canonErr
           (let valueBytes = nat_bytes v in
            rguard (length valueBytes > 32) overflowErr
             (serializeExt t
               (DomainTx @ [Type t]
                 @ PutUint16 (of_nat (length sender)) @ sender
                 @ PutUint16 (of_nat (length receiver)) @ receiver
                 @ replicate (32 - length valueBytes) 0 @ valueBytes
                 @ PutUint64 (Nonce t) @ PutUint64 (MissedHeight t)
                 @ arr32 (MissedProposer t) @ PutUint32 (SkipIndex t))))))"

definition Serialize :: "crypto \<Rightarrow> Tx \<Rightarrow> bytes res" where
  "Serialize C t =
     rbind (serializeUnsigned C t) (\<lambda>unsigned.
      rguard (length unsigned + 192 > maxTxBytes) dosErr
       (Inr (unsigned @ arr32 (SenderPubKey t) @ arr32 (ReceiverPubKey t)
                      @ arr64 (SenderSig t) @ arr64 (ReceiverSig t))))"

definition ID :: "crypto \<Rightarrow> Tx \<Rightarrow> bytes32 res" where
  "ID C t = rbind (serializeUnsigned C t) (\<lambda>b. Inr (Hash C b))"


section \<open>Parsing\<close>

text \<open>The contract-specific extensions of \<^verbatim>\<open>Deserialize\<close>: the four payloads and the position
  after them.\<close>

definition deserializeExt :: "u8 \<Rightarrow> bytes \<Rightarrow> nat \<Rightarrow> (bytes \<times> bytes \<times> bytes \<times> bytes \<times> nat) res" where
  "deserializeExt txType data pos =
     (let lim = length data - 192 in
      if txType = TxTypeContractDeploy then
        rguard (pos + 4 > lim) canonErr
        (let wasmLen = unat (Uint32 (drop pos data)); pos = pos + 4 in
         rguard (wasmLen > maxWasmBytes) (RGError ErrContractBytecodeTooLarge)
         (rguard (pos + wasmLen > lim) canonErr
          (Inr (go_slice pos (pos + wasmLen) data, [], [], [], pos + wasmLen))))
      else if txType = TxTypeContractCall then
        rguard (pos + 2 > lim) canonErr
        (let callDataLen = unat (Uint16 (drop pos data)); pos = pos + 2 in
         rguard (pos + callDataLen > lim) canonErr
          (Inr ([], go_slice pos (pos + callDataLen) data, [], [], pos + callDataLen)))
      else if txType = TxTypeEquivEvidence then
        rguard (pos + 2 > lim) canonErr
        (let evidenceALen = unat (Uint16 (drop pos data)); pos = pos + 2 in
         rguard (pos + evidenceALen > lim) canonErr
         (let evidenceA = go_slice pos (pos + evidenceALen) data; pos = pos + evidenceALen in
          rguard (pos + 2 > lim) canonErr
          (let evidenceBLen = unat (Uint16 (drop pos data)); pos = pos + 2 in
           rguard (pos + evidenceBLen > lim) canonErr
            (Inr ([], [], evidenceA, go_slice pos (pos + evidenceBLen) data, pos + evidenceBLen)))))
      else Inr ([], [], [], [], pos))"

text \<open>
  Only the length of the sender field is checked before the two length bytes of the receiver are
  read, so \<^verbatim>\<open>binary.BigEndian.Uint16(data[pos:])\<close> panics when fewer than two bytes are left.  The
  later reads are guarded.
\<close>

definition Deserialize :: "crypto \<Rightarrow> bytes \<Rightarrow> Tx res" where
  "Deserialize C data =
     rguard (length data > maxTxBytes) dosErr
     (rguard (length data < 6 + 1 + 2 + 2 + 32 + 8 + 8 + 32 + 4 + 192) canonErr
     (rguard (go_slice 0 6 data \<noteq> DomainTx) canonErr
     (let txType = data ! 6;
          senderLen = unat (Uint16 (drop 7 data)); pos = 9 in
      rguard (pos + senderLen > length data) canonErr
      (let sender = go_slice pos (pos + senderLen) data; pos = pos + senderLen in
       rguard (pos + 2 > length data) Panic
       (let receiverLen = unat (Uint16 (drop pos data)); pos = pos + 2 in
        rguard (pos + receiverLen > length data) canonErr
        (let receiver = go_slice pos (pos + receiverLen) data; pos = pos + receiverLen in
         rguard (pos + 32 > length data) canonErr
         (let value = be_val (go_slice pos (pos + 32) data); pos = pos + 32 in
          rguard (pos + 8 > length data) canonErr
          (let nonce = Uint64 (drop pos data); pos = pos + 8 in
           rguard (pos + 8 > length data) canonErr
           (let missedHeight = Uint64 (drop pos data); pos = pos + 8 in
            rguard (pos + 32 > length data) canonErr
            (let missedProposer = to32 (go_slice pos (pos + 32) data); pos = pos + 32 in
             rguard (pos + 4 > length data) canonErr
             (let skipIndex = Uint32 (drop pos data); pos = pos + 4 in
              rbind (deserializeExt txType data pos) (\<lambda>(wasmBytes, callData, evidenceA, evidenceB, pos).
              rguard (pos \<noteq> length data - 192) canonErr
              (let pos = length data - 192;
                   parsed = \<lparr>Type = txType, Sender = sender, Receiver = receiver,
                     Value = Some value, Nonce = nonce,
                     SenderPubKey = to32 (go_slice pos (pos + 32) data),
                     ReceiverPubKey = to32 (go_slice (pos + 32) (pos + 64) data),
                     SenderSig = to64 (go_slice (pos + 64) (pos + 128) data),
                     ReceiverSig = to64 (go_slice (pos + 128) (pos + 192) data),
                     MissedHeight = missedHeight, MissedProposer = missedProposer,
                     SkipIndex = skipIndex, WasmBytes = wasmBytes, InitArgs = [],
                     CallData = callData, EvidenceA = evidenceA, EvidenceB = evidenceB\<rparr> in
               rbind (Serialize C parsed) (\<lambda>canonical.
               rguard (canonical \<noteq> data) canonErr (Inr parsed)))))))))))))))"


section \<open>Signatures\<close>

definition chainDomainBytes :: "bytes \<Rightarrow> bytes \<Rightarrow> bytes" where
  "chainDomainBytes chainID payload =
     (let chainID = (if chainID = [] then DefaultChainID else chainID) in
      str ''FRG_CHAIN_V1'' @ [0] @ PutUint16 (of_nat (length chainID)) @ chainID @ payload)"

definition UnsignedHashForChain :: "crypto \<Rightarrow> bytes \<Rightarrow> Tx \<Rightarrow> bytes32 res" where
  "UnsignedHashForChain C chainID t =
     rbind (serializeUnsigned C t) (\<lambda>b. Inr (Hash C (chainDomainBytes chainID b)))"

definition knownTxType :: "u8 \<Rightarrow> bool" where
  "knownTxType ty \<longleftrightarrow> ty \<in> {TxTypeTransfer, TxTypeMissEvidence, TxTypeContractDeploy,
     TxTypeContractCall, TxTypeBond, TxTypeUnbond, TxTypeFinalizeUnbond, TxTypeClaimRewards,
     TxTypeEquivEvidence}"

definition VerifySigsForChain :: "crypto \<Rightarrow> bytes \<Rightarrow> Tx \<Rightarrow> unit res" where
  "VerifySigsForChain C chainID t =
     rbind (UnsignedHashForChain C chainID t) (\<lambda>msg.
      rguard (\<not> knownTxType (Type t)) (RGError ErrInvalidTxType)
      (rguard (\<not> Verify C (SenderPubKey t) (arr32 msg) (SenderSig t)) (RGError ErrInvalidSignature)
        (Inr ())))"

definition VerifySigs :: "crypto \<Rightarrow> Tx \<Rightarrow> unit res" where
  "VerifySigs C t = VerifySigsForChain C DefaultChainID t"

definition SignSenderForChain :: "crypto \<Rightarrow> Keypair \<Rightarrow> bytes \<Rightarrow> Tx \<Rightarrow> bytes64 res" where
  "SignSenderForChain C kp chainID t =
     rbind (UnsignedHashForChain C chainID t) (\<lambda>msg. Inr (Sign C kp (arr32 msg)))"

definition SignSender :: "crypto \<Rightarrow> Keypair \<Rightarrow> Tx \<Rightarrow> bytes64 res" where
  "SignSender C kp t = SignSenderForChain C kp DefaultChainID t"

definition SignReceiverForChain :: "crypto \<Rightarrow> Keypair \<Rightarrow> bytes \<Rightarrow> Tx \<Rightarrow> bytes64 res" where
  "SignReceiverForChain C kp chainID t =
     rbind (UnsignedHashForChain C chainID t) (\<lambda>msg. Inr (Sign C kp (arr32 msg)))"

definition SignReceiver :: "crypto \<Rightarrow> Keypair \<Rightarrow> Tx \<Rightarrow> bytes64 res" where
  "SignReceiver C kp t = SignReceiverForChain C kp DefaultChainID t"

definition UnsignedHash :: "crypto \<Rightarrow> Tx \<Rightarrow> bytes32 res" where
  "UnsignedHash C t = UnsignedHashForChain C DefaultChainID t"


section \<open>Batches\<close>

text \<open>The loop of \<^verbatim>\<open>SerializeBatch\<close>: each transaction is appended with a 16-bit length.\<close>

definition appendBatchTx :: "crypto \<Rightarrow> Tx \<Rightarrow> bytes \<Rightarrow> bytes res" where
  "appendBatchTx C t buf =
     rbind (Serialize C t) (\<lambda>b.
      rguard (length b > 0xFFFF) dosErr
      (let buf' = buf @ PutUint16 (of_nat (length b)) @ b in
       rguard (length buf' > maxBatchBytes) dosErr (Inr buf')))"

definition SerializeBatch :: "crypto \<Rightarrow> Tx list \<Rightarrow> bytes res" where
  "SerializeBatch C txs =
     rguard (txs = []) canonErr
     (rguard (length txs > maxBatchTxs) dosErr
       (rfold (appendBatchTx C) txs (DomainTxBatch @ PutUint16 (of_nat (length txs)))))"

text \<open>The loop of \<^verbatim>\<open>DeserializeBatch\<close>: \<open>n\<close> transactions are left to read from \<open>rest\<close>.\<close>

fun readBatch :: "crypto \<Rightarrow> nat \<Rightarrow> bytes \<Rightarrow> Tx list res" where
  "readBatch C 0 rest = rguard (rest \<noteq> []) canonErr (Inr [])"
| "readBatch C (Suc n) rest =
     rguard (length rest < 2) canonErr
     (let txLen = unat (Uint16 rest); rest = drop 2 rest in
      rguard (length rest < txLen) canonErr
      (rbind (Deserialize C (take txLen rest)) (\<lambda>t.
       rbind (readBatch C n (drop txLen rest)) (\<lambda>ts. Inr (t # ts)))))"

definition DeserializeBatch :: "crypto \<Rightarrow> bytes \<Rightarrow> Tx list res" where
  "DeserializeBatch C data =
     rguard (length data > maxBatchBytes) dosErr
     (rguard (length data < 12 + 2) canonErr
     (rguard (go_slice 0 12 data \<noteq> DomainTxBatch) canonErr
     (let count = unat (Uint16 (go_slice 12 14 data)) in
      rguard (count > maxBatchTxs) dosErr (readBatch C count (drop 14 data)))))"


section \<open>Shape of the encoding\<close>

definition unsignedFixed :: "crypto \<Rightarrow> Tx \<Rightarrow> int \<Rightarrow> bytes" where
  "unsignedFixed C t v =
     DomainTx @ [Type t]
       @ PutUint16 (of_nat (length (nfc C (Sender t)))) @ nfc C (Sender t)
       @ PutUint16 (of_nat (length (nfc C (Receiver t)))) @ nfc C (Receiver t)
       @ be_bytes 32 v
       @ PutUint64 (Nonce t) @ PutUint64 (MissedHeight t)
       @ arr32 (MissedProposer t) @ PutUint32 (SkipIndex t)"

lemma serializeExt_append:
  "serializeExt t buf = rbind (serializeExt t []) (\<lambda>e. Inr (buf @ e))"
  by (simp add: serializeExt_def rguard_def)

lemma serializeUnsigned_Inr_iff:
  "serializeUnsigned C t = Inr b \<longleftrightarrow>
     ValidString (Sender t) \<and> ValidString (Receiver t) \<and>
     length (nfc C (Sender t)) \<le> 0xFFFF \<and> length (nfc C (Receiver t)) \<le> 0xFFFF \<and>
     (\<exists>v e. Value t = Some v \<and> 0 \<le> v \<and> v \<le> UINT256_MAX \<and> serializeExt t [] = Inr e \<and>
       b = unsignedFixed C t v @ e)"
proof -
  have pad: "replicate (32 - length (nat_bytes v)) 0 @ nat_bytes v @ r = be_bytes 32 v @ r"
    if "0 \<le> v" "v \<le> UINT256_MAX" for v r
    using pad_nat_bytes[of v 32] that by (simp add: UINT256_MAX_bytes flip: append_assoc)
  have len: "length (nat_bytes v) \<le> 32" if "0 \<le> v" "v \<le> UINT256_MAX" for v
    using length_nat_bytes_le[of v 32] that by (simp add: UINT256_MAX_bytes)
  show ?thesis
    by (cases "Value t")
      (auto simp: serializeUnsigned_def res_simps Let_def unsignedFixed_def pad len not_less
        serializeExt_append[of t "_ # _"] serializeExt_append[of t "_ @ _"])
qed

lemma length_unsignedFixed:
  "length (unsignedFixed C t v) = 95 + length (nfc C (Sender t)) + length (nfc C (Receiver t))"
  by (simp add: unsignedFixed_def)

definition sigTail :: "Tx \<Rightarrow> bytes" where
  "sigTail t = arr32 (SenderPubKey t) @ arr32 (ReceiverPubKey t) @ arr64 (SenderSig t) @ arr64 (ReceiverSig t)"

lemma length_sigTail [simp]: "length (sigTail t) = 192"
  by (simp add: sigTail_def)

lemma Serialize_Inr_iff:
  "Serialize C t = Inr d \<longleftrightarrow>
     (\<exists>u. serializeUnsigned C t = Inr u \<and> length u + 192 \<le> maxTxBytes \<and> d = u @ sigTail t)"
  by (auto simp: Serialize_def res_simps sigTail_def not_less)

lemma unat_of_nat_u16: "n \<le> 0xFFFF \<Longrightarrow> unat (of_nat n :: u16) = n"
  by (simp add: unat_of_nat)

lemma unat_of_nat_u32: "n < 2 ^ 32 \<Longrightarrow> unat (of_nat n :: u32) = n"
  by (simp add: unat_of_nat)

lemma deserializeExt_serializeExt:
  assumes e: "serializeExt t [] = Inr e" and tail: "length tail = 192"
  shows "deserializeExt (Type t) (pre @ e @ tail) (length pre) =
    Inr (if Type t = TxTypeContractDeploy then WasmBytes t else [],
         if Type t = TxTypeContractCall then CallData t else [],
         if Type t = TxTypeEquivEvidence then EvidenceA t else [],
         if Type t = TxTypeEquivEvidence then EvidenceB t else [],
         length pre + length e)"
proof -
  consider (d) "Type t = TxTypeContractDeploy" | (c) "Type t = TxTypeContractCall"
    | (q) "Type t = TxTypeEquivEvidence"
    | (o) "Type t \<notin> {TxTypeContractDeploy, TxTypeContractCall, TxTypeEquivEvidence}" by auto
  then show ?thesis
  proof cases
    case d
    with e tail show ?thesis
      by (auto simp: serializeExt_def deserializeExt_def res_simps rguard_def Let_def go_slice_def
          codec_simps unat_of_nat_u32 split: if_splits)
  next
    case c
    with e tail show ?thesis
      by (auto simp: serializeExt_def deserializeExt_def res_simps rguard_def Let_def go_slice_def
          codec_simps unat_of_nat_u16 split: if_splits)
  next
    case q
    with e tail show ?thesis
      by (auto simp: serializeExt_def deserializeExt_def res_simps rguard_def Let_def go_slice_def
          codec_simps unat_of_nat_u16 split: if_splits)
  next
    case o
    with e show ?thesis by (auto simp: serializeExt_def deserializeExt_def)
  qed
qed


definition canonicalTx :: "crypto \<Rightarrow> Tx \<Rightarrow> Tx" where
  "canonicalTx C t = t\<lparr>Sender := nfc C (Sender t), Receiver := nfc C (Receiver t),
     WasmBytes := (if Type t = TxTypeContractDeploy then WasmBytes t else []),
     InitArgs := [],
     CallData := (if Type t = TxTypeContractCall then CallData t else []),
     EvidenceA := (if Type t = TxTypeEquivEvidence then EvidenceA t else []),
     EvidenceB := (if Type t = TxTypeEquivEvidence then EvidenceB t else [])\<rparr>"

lemma serializeUnsigned_canonicalTx:
  assumes "nfc_documented C" "serializeUnsigned C t = Inr b"
  shows "serializeUnsigned C (canonicalTx C t) = Inr b"
  using assms
  by (auto simp: serializeUnsigned_Inr_iff canonicalTx_def unsignedFixed_def nfc_documented_def
      serializeExt_def)

lemma Serialize_canonicalTx:
  assumes "nfc_documented C" "Serialize C t = Inr d"
  shows "Serialize C (canonicalTx C t) = Inr d"
  using assms by (auto simp: Serialize_Inr_iff serializeUnsigned_canonicalTx)
      (simp add: canonicalTx_def sigTail_def)

lemma Deserialize_Serialize:
  assumes nfc: "nfc_documented C" and ser: "Serialize C t = Inr d"
  shows "Deserialize C d = Inr (canonicalTx C t)"
proof -
  define s where "s = nfc C (Sender t)"
  define r where "r = nfc C (Receiver t)"
  from ser obtain v e where v: "Value t = Some v" "0 \<le> v" "v \<le> UINT256_MAX"
    and e: "serializeExt t [] = Inr e"
    and ls: "length s \<le> 0xFFFF" and lr: "length r \<le> 0xFFFF"
    and len: "length (unsignedFixed C t v @ e) + 192 \<le> maxTxBytes"
    and d: "d = unsignedFixed C t v @ e @ sigTail t"
    by (auto simp: Serialize_Inr_iff serializeUnsigned_Inr_iff s_def r_def)
  have d': "d = DomainTx @ [Type t] @ PutUint16 (of_nat (length s)) @ s
       @ PutUint16 (of_nat (length r)) @ r @ be_bytes 32 v
       @ PutUint64 (Nonce t) @ PutUint64 (MissedHeight t)
       @ arr32 (MissedProposer t) @ PutUint32 (SkipIndex t) @ e @ sigTail t"
    by (simp add: d unsignedFixed_def s_def r_def)
  have ld: "length d = 287 + length s + length r + length e"
    by (simp add: d')
  have ld2: "length d \<le> maxTxBytes"
    using len by (simp add: d)
  have f0: "go_slice 0 6 d = DomainTx" "d ! 6 = Type t" "unat (Uint16 (drop 7 d)) = length s"
    using ls by (simp_all add: d' go_slice_def nth_append codec_simps unat_of_nat_u16)
  let ?p = "11 + length s + length r"
  have d9: "drop 9 d = s @ PutUint16 (of_nat (length r)) @ r @ be_bytes 32 v
       @ PutUint64 (Nonce t) @ PutUint64 (MissedHeight t)
       @ arr32 (MissedProposer t) @ PutUint32 (SkipIndex t) @ e @ sigTail t"
    by (simp add: d')
  note dr = drop_next[OF d9 refl]
  note dp = drop_next[OF drop_next[OF dr U16.enc_length] refl]
  note dn = drop_next[OF dp length_be_bytes]
  note dm = drop_next[OF dn U64.enc_length]
  note dq = drop_next[OF dm U64.enc_length]
  note ds = drop_next[OF dq A32.enc_length]
  have f1: "go_slice 9 (9 + length s) d = s" "unat (Uint16 (drop (9 + length s) d)) = length r"
    using lr by (simp_all add: go_slice_def codec_simps unat_of_nat_u16 d9 dr)
  have f2: "go_slice (11 + length s) ?p d = r"
    and f3: "go_slice ?p (?p + 32) d = be_bytes 32 v"
    and f4: "Uint64 (drop (?p + 32) d) = Nonce t"
    and f5: "Uint64 (drop (?p + 40) d) = MissedHeight t"
    and f6: "to32 (go_slice (?p + 48) (?p + 80) d) = MissedProposer t"
    and f7: "Uint32 (drop (?p + 80) d) = SkipIndex t"
    using drop_next[OF dr U16.enc_length] dp dn dm dq ds
    by (simp_all add: go_slice_def codec_simps ac_simps)
  have f8: "deserializeExt (Type t) d (?p + 84) =
    Inr (if Type t = TxTypeContractDeploy then WasmBytes t else [],
         if Type t = TxTypeContractCall then CallData t else [],
         if Type t = TxTypeEquivEvidence then EvidenceA t else [],
         if Type t = TxTypeEquivEvidence then EvidenceB t else [],
         ?p + 84 + length e)"
    using deserializeExt_serializeExt[OF e length_sigTail, of "unsignedFixed C t v" t]
    by (simp add: d length_unsignedFixed s_def r_def add.commute add.left_commute)
  let ?q = "length d - 192"
  have q: "drop ?q d = sigTail t" by (simp add: d)
  have f9: "to32 (go_slice ?q (?q + 32) d) = SenderPubKey t"
    "to32 (go_slice (?q + 32) (?q + 64) d) = ReceiverPubKey t"
    "to64 (go_slice (?q + 64) (?q + 128) d) = SenderSig t"
    "to64 (go_slice (?q + 128) (?q + 192) d) = ReceiverSig t"
    by (simp_all add: go_slice_def q add.commute flip: drop_drop)
      (simp_all add: sigTail_def codec_simps)
  have val: "be_val (be_bytes 32 v) = v"
    using v by (simp add: be_val_be_bytes_id UINT256_MAX_bytes)
  have c: "Serialize C (canonicalTx C t) = Inr d"
    by (rule Serialize_canonicalTx[OF nfc ser])
  have parsed: "\<lparr>Type = Type t, Sender = s, Receiver = r, Value = Some v, Nonce = Nonce t,
      SenderPubKey = SenderPubKey t, ReceiverPubKey = ReceiverPubKey t, SenderSig = SenderSig t,
      ReceiverSig = ReceiverSig t, MissedHeight = MissedHeight t,
      MissedProposer = MissedProposer t, SkipIndex = SkipIndex t,
      WasmBytes = (if Type t = TxTypeContractDeploy then WasmBytes t else []), InitArgs = [],
      CallData = (if Type t = TxTypeContractCall then CallData t else []),
      EvidenceA = (if Type t = TxTypeEquivEvidence then EvidenceA t else []),
      EvidenceB = (if Type t = TxTypeEquivEvidence then EvidenceB t else [])\<rparr> = canonicalTx C t"
    using v by (simp add: canonicalTx_def s_def r_def)
  show ?thesis
    using ld ld2 f0 f1 f2 f3 f4 f5 f6 f7 f8 f9 val c
    by (simp add: Deserialize_def Let_def ac_simps parsed)
qed

lemma Deserialize_Inr_Serialize: "Deserialize C d = Inr t \<Longrightarrow> Serialize C t = Inr d"
  by (auto simp: Deserialize_def Let_def res_simps split: prod.splits)

lemma Deserialize_iff:
  assumes "nfc_documented C"
  shows "Deserialize C d = Inr t \<longleftrightarrow> Serialize C t = Inr d \<and> canonicalTx C t = t"
  using Deserialize_Serialize[OF assms] Deserialize_Inr_Serialize by (metis sum.inject(2))

lemma serializeUnsigned_no_panic: "serializeUnsigned C t \<noteq> Inl Panic"
  by (auto simp: serializeUnsigned_def serializeExt_def res_simps Let_def rguard_def split: option.splits)

lemma Serialize_no_panic: "Serialize C t \<noteq> Inl Panic"
  by (simp add: Serialize_def res_simps serializeUnsigned_no_panic)

lemma deserializeExt_no_panic: "deserializeExt ty d p \<noteq> Inl Panic"
  by (simp add: deserializeExt_def Let_def rguard_def)

lemma Deserialize_panics_iff:
  "Deserialize C d = Inl Panic \<longleftrightarrow>
     287 \<le> length d \<and> length d \<le> maxTxBytes \<and> take 6 d = DomainTx \<and>
     (let n = unat (Uint16 (drop 7 d)) in 9 + n \<le> length d \<and> length d < 9 + n + 2)"
  by (auto simp: Deserialize_def Let_def res_simps Serialize_no_panic deserializeExt_no_panic
      go_slice_def split: prod.splits)

lemma serializeUnsigned_key_updates [simp]:
  "serializeUnsigned C (t\<lparr>SenderPubKey := a\<rparr>) = serializeUnsigned C t"
  "serializeUnsigned C (t\<lparr>ReceiverPubKey := a\<rparr>) = serializeUnsigned C t"
  "serializeUnsigned C (t\<lparr>SenderSig := s\<rparr>) = serializeUnsigned C t"
  "serializeUnsigned C (t\<lparr>ReceiverSig := s\<rparr>) = serializeUnsigned C t"
  by (simp_all add: serializeUnsigned_def serializeExt_def Let_def split: option.splits)

lemma ID_ignores_keys:
  "ID C (t\<lparr>SenderPubKey := a, ReceiverPubKey := b, SenderSig := s, ReceiverSig := r\<rparr>) = ID C t"
  by (simp add: ID_def)

lemma receiver_not_signed:
  "VerifySigsForChain C chainID (t\<lparr>ReceiverPubKey := r\<rparr>) = VerifySigsForChain C chainID t"
  by (simp add: VerifySigsForChain_def UnsignedHashForChain_def)

lemma sign_verify:
  assumes "ed25519_correct C" "keypair_ok C kp" "SenderPubKey t = PublicKey kp"
    and "knownTxType (Type t)" "SignSenderForChain C kp chainID t = Inr s"
  shows "VerifySigsForChain C chainID (t\<lparr>SenderSig := s\<rparr>) = Inr ()"
  using assms
  by (auto simp: VerifySigsForChain_def SignSenderForChain_def UnsignedHashForChain_def
      res_simps Verify_Sign)

lemma chainDomainBytes_inject:
  assumes "chainDomainBytes c p = chainDomainBytes c' p'"
    and "c \<noteq> []" "c' \<noteq> []" "length c \<le> 0xFFFF" "length c' \<le> 0xFFFF"
  shows "c = c' \<and> p = p'"
proof -
  have "(of_nat (length c) :: u16) = of_nat (length c')" and eq: "c @ p = c' @ p'"
    using assms by (simp_all add: chainDomainBytes_def)
  then have "length c = length c'"
    using assms(4,5) by (metis unat_of_nat_u16)
  with eq show ?thesis by simp
qed

definition signedView ::
  "crypto \<Rightarrow> Tx \<Rightarrow> u8 \<times> bytes \<times> bytes \<times> int option \<times> u64 \<times> u64 \<times> bytes32 \<times> u32 \<times> bytes \<times> bytes \<times> bytes \<times> bytes" where
  "signedView C t = (let c = canonicalTx C t in
     (Type c, Sender c, Receiver c, Value c, Nonce c, MissedHeight c, MissedProposer c, SkipIndex c,
      WasmBytes c, CallData c, EvidenceA c, EvidenceB c))"

lemma len16_append_inject:
  assumes "PutUint16 (of_nat (length a)) @ a @ r = PutUint16 (of_nat (length b)) @ b @ s"
    and "length a \<le> 0xFFFF" "length b \<le> 0xFFFF"
  shows "a = b \<and> r = s"
proof -
  have "(of_nat (length a) :: u16) = of_nat (length b)" and eq: "a @ r = b @ s"
    using assms(1) by simp_all
  then have "length a = length b"
    using assms(2,3) by (metis unat_of_nat_u16)
  with eq show ?thesis by simp
qed

lemma serializeExt_inject:
  assumes "serializeExt t [] = Inr e" "serializeExt t' [] = Inr e" "Type t = Type t'"
  shows "Type t = TxTypeContractDeploy \<Longrightarrow> WasmBytes t = WasmBytes t'"
    and "Type t = TxTypeContractCall \<Longrightarrow> CallData t = CallData t'"
    and "Type t = TxTypeEquivEvidence \<Longrightarrow> EvidenceA t = EvidenceA t' \<and> EvidenceB t = EvidenceB t'"
proof -
  show "WasmBytes t = WasmBytes t'" if "Type t = TxTypeContractDeploy"
    using that assms by (auto simp: serializeExt_def res_simps)
  show "CallData t = CallData t'" if "Type t = TxTypeContractCall"
    using that assms by (auto simp: serializeExt_def res_simps)
  show "EvidenceA t = EvidenceA t' \<and> EvidenceB t = EvidenceB t'" if "Type t = TxTypeEquivEvidence"
    using that assms
      len16_append_inject[of "EvidenceA t" "PutUint16 (of_nat (length (EvidenceB t))) @ EvidenceB t"
        "EvidenceA t'" "PutUint16 (of_nat (length (EvidenceB t'))) @ EvidenceB t'"]
    by (auto simp: serializeExt_def res_simps not_less)
qed

lemma serializeUnsigned_inject:
  assumes "serializeUnsigned C t = Inr b" "serializeUnsigned C t' = Inr b"
  shows "signedView C t = signedView C t'"
proof -
  from assms(1) obtain v e where v: "Value t = Some v" "0 \<le> v" "v \<le> UINT256_MAX"
    and e: "serializeExt t [] = Inr e" and b: "b = unsignedFixed C t v @ e"
    and l: "length (nfc C (Sender t)) \<le> 0xFFFF" "length (nfc C (Receiver t)) \<le> 0xFFFF"
    by (auto simp: serializeUnsigned_Inr_iff)
  from assms(2) obtain v' e' where v': "Value t' = Some v'" "0 \<le> v'" "v' \<le> UINT256_MAX"
    and e': "serializeExt t' [] = Inr e'" and b': "b = unsignedFixed C t' v' @ e'"
    and l': "length (nfc C (Sender t')) \<le> 0xFFFF" "length (nfc C (Receiver t')) \<le> 0xFFFF"
    by (auto simp: serializeUnsigned_Inr_iff)
  define R where "R t v e = be_bytes 32 v @ PutUint64 (Nonce t) @ PutUint64 (MissedHeight t)
      @ arr32 (MissedProposer t) @ PutUint32 (SkipIndex t) @ e" for t :: Tx and v e
  define S where "S t = nfc C (Sender t)" for t :: Tx
  define Q where "Q t = nfc C (Receiver t)" for t :: Tx
  have shape: "unsignedFixed C t v @ e = DomainTx @ [Type t] @ PutUint16 (of_nat (length (S t))) @ S t
      @ PutUint16 (of_nat (length (Q t))) @ Q t @ R t v e" for t v e
    by (simp add: unsignedFixed_def R_def S_def Q_def)
  have "[Type t] @ PutUint16 (of_nat (length (S t))) @ S t
        @ PutUint16 (of_nat (length (Q t))) @ Q t @ R t v e
      = [Type t'] @ PutUint16 (of_nat (length (S t'))) @ S t'
        @ PutUint16 (of_nat (length (Q t'))) @ Q t' @ R t' v' e'"
    using b b' unfolding shape by (metis same_append_eq)
  then have ty: "Type t' = Type t"
    and eq: "PutUint16 (of_nat (length (S t))) @ S t @ PutUint16 (of_nat (length (Q t))) @ Q t @ R t v e
      = PutUint16 (of_nat (length (S t'))) @ S t' @ PutUint16 (of_nat (length (Q t'))) @ Q t' @ R t' v' e'"
    by (simp_all del: codec_inject)
  from len16_append_inject[OF eq] l l' have s: "S t = S t'"
    and eq2: "PutUint16 (of_nat (length (Q t))) @ Q t @ R t v e
      = PutUint16 (of_nat (length (Q t'))) @ Q t' @ R t' v' e'"
    by (simp_all add: S_def del: codec_inject)
  from len16_append_inject[OF eq2] l l' have r: "Q t = Q t'" and eq3: "R t v e = R t' v' e'"
    by (simp_all add: Q_def del: codec_inject)
  have "be_bytes 32 v' = be_bytes 32 v"
    using eq3 by (simp add: R_def)
  then have "v' = v"
    using v v' by (auto intro: be_bytes_inj[of 32] simp: UINT256_MAX_bytes)
  moreover have "Nonce t' = Nonce t" "MissedHeight t' = MissedHeight t"
      "MissedProposer t' = MissedProposer t" "SkipIndex t' = SkipIndex t" "e' = e"
    using eq3 by (simp_all add: R_def)
  ultimately show ?thesis
    using s r ty v v' serializeExt_inject[of t e t'] e e'
    by (auto simp: signedView_def canonicalTx_def Let_def S_def Q_def)
qed

section \<open>Batches\<close>

definition batchEntry :: "bytes \<Rightarrow> bytes" where
  "batchEntry b = PutUint16 (of_nat (length b)) @ b"

lemma appendBatch_Inr:
  assumes "rfold (appendBatchTx C) txs buf = Inr d"
  shows "\<exists>bs. rmap (Serialize C) txs = Inr bs \<and> (\<forall>b\<in>set bs. length b \<le> 0xFFFF) \<and>
    d = buf @ concat (map batchEntry bs) \<and> (txs \<noteq> [] \<longrightarrow> length d \<le> maxBatchBytes)"
  using assms
proof (induction txs arbitrary: buf)
  case Nil
  then show ?case by simp
next
  case (Cons t txs)
  from Cons.prems obtain buf' where step: "appendBatchTx C t buf = Inr buf'"
    and rest': "rfold (appendBatchTx C) txs buf' = Inr d" by (auto simp: res_simps)
  from step obtain b where b: "Serialize C t = Inr b" "length b \<le> 0xFFFF"
    and fits: "length (buf @ batchEntry b) \<le> maxBatchBytes" and buf': "buf' = buf @ batchEntry b"
    by (auto simp: appendBatchTx_def res_simps Let_def batchEntry_def not_less)
  note rest = rest'[unfolded buf']
  from Cons.IH[OF rest] obtain bs where "rmap (Serialize C) txs = Inr bs"
    "\<forall>b\<in>set bs. length b \<le> 0xFFFF" "d = buf @ batchEntry b @ concat (map batchEntry bs)"
    "txs \<noteq> [] \<longrightarrow> length d \<le> maxBatchBytes" by auto
  with b fits show ?case by (cases "txs = []") auto
qed

lemma appendBatch_fits:
  assumes "rmap (Serialize C) txs = Inr bs" "\<forall>b\<in>set bs. length b \<le> 0xFFFF"
    and "length (buf @ concat (map batchEntry bs)) \<le> maxBatchBytes"
  shows "rfold (appendBatchTx C) txs buf = Inr (buf @ concat (map batchEntry bs))"
  using assms
proof (induction txs arbitrary: buf bs)
  case Nil
  then show ?case by simp
next
  case (Cons t txs)
  from Cons.prems(1) obtain b cs where b: "Serialize C t = Inr b" "bs = b # cs"
    and cs: "rmap (Serialize C) txs = Inr cs" by (auto simp: res_simps)
  have "appendBatchTx C t buf = Inr (buf @ batchEntry b)"
    using Cons.prems b by (auto simp: appendBatchTx_def batchEntry_def rguard_def)
  moreover have "rfold (appendBatchTx C) txs (buf @ batchEntry b)
      = Inr ((buf @ batchEntry b) @ concat (map batchEntry cs))"
    using Cons.prems b by (intro Cons.IH cs) auto
  ultimately show ?case by (simp add: b)
qed

lemma readBatch_entries:
  assumes "nfc_documented C" "rmap (Serialize C) txs = Inr bs" "\<forall>b\<in>set bs. length b \<le> 0xFFFF"
  shows "readBatch C (length txs) (concat (map batchEntry bs)) = Inr (map (canonicalTx C) txs)"
  using assms(2,3)
proof (induction txs arbitrary: bs)
  case Nil
  then show ?case by simp
next
  case (Cons t txs)
  from Cons.prems(1) obtain b cs where b: "Serialize C t = Inr b" "bs = b # cs"
    and cs: "rmap (Serialize C) txs = Inr cs" by (auto simp: res_simps)
  have len: "unat (of_nat (length b) :: u16) = length b"
    using Cons.prems(2) b by (intro unat_of_nat_u16) auto
  have "readBatch C (length txs) (concat (map batchEntry cs)) = Inr (map (canonicalTx C) txs)"
    using Cons.prems(2) b by (intro Cons.IH cs) auto
  then show ?case
    by (simp add: b batchEntry_def[of b] codec_simps len Let_def Deserialize_Serialize[OF assms(1) b(1)])
qed

lemma SerializeBatch_Inr:
  assumes "SerializeBatch C txs = Inr d"
  shows "txs \<noteq> [] \<and> length txs \<le> maxBatchTxs \<and> length d \<le> maxBatchBytes \<and>
    (\<exists>bs. rmap (Serialize C) txs = Inr bs \<and> (\<forall>b\<in>set bs. length b \<le> 0xFFFF) \<and>
      d = DomainTxBatch @ PutUint16 (of_nat (length txs)) @ concat (map batchEntry bs))"
  using assms appendBatch_Inr[of C txs]
  by (fastforce simp: SerializeBatch_def res_simps not_less)

lemma DeserializeBatch_header:
  assumes "d = DomainTxBatch @ PutUint16 n @ rest" "length d \<le> maxBatchBytes"
  shows "DeserializeBatch C d = readBatch C (unat n) rest"
proof -
  have "unat n < 2 ^ 16" using unsigned_less[of n] by simp
  then have "unat n \<le> maxBatchTxs" by simp
  with assms show ?thesis
    by (simp add: DeserializeBatch_def go_slice_def Let_def codec_simps)
qed

lemma batch_roundtrip_general:
  assumes "nfc_documented C" "SerializeBatch C txs = Inr d"
  shows "DeserializeBatch C d =
    (if length txs < maxBatchTxs then Inr (map (canonicalTx C) txs) else Inl canonErr)"
proof -
  from SerializeBatch_Inr[OF assms(2)] obtain bs where
    bs: "rmap (Serialize C) txs = Inr bs" "\<forall>b\<in>set bs. length b \<le> 0xFFFF"
    and d: "d = DomainTxBatch @ PutUint16 (of_nat (length txs)) @ concat (map batchEntry bs)"
    and l: "txs \<noteq> []" "length txs \<le> maxBatchTxs" "length d \<le> maxBatchBytes" by auto
  have des: "DeserializeBatch C d =
      readBatch C (unat (of_nat (length txs) :: u16)) (concat (map batchEntry bs))"
    using d l(3) by (rule DeserializeBatch_header)
  show ?thesis
  proof (cases "length txs < maxBatchTxs")
    case True
    then have "unat (of_nat (length txs) :: u16) = length txs"
      by (intro unat_of_nat_u16) simp
    with True des readBatch_entries[OF assms(1) bs] show ?thesis by simp
  next
    case False
    with l have n: "length txs = 65536" by simp
    then have z: "unat (of_nat (length txs) :: u16) = 0" by simp
    have "bs \<noteq> []" using rmap_length[OF bs(1)] n by auto
    then have "concat (map batchEntry bs) \<noteq> []"
      by (cases bs) (auto simp: batchEntry_def PutUint16_def)
    with des z False show ?thesis by simp
  qed
qed

lemma rmap_replicate: "f x = Inr y \<Longrightarrow> rmap f (replicate n x) = Inr (replicate n y)"
  by (induction n) simp_all

lemma SerializeBatch_replicate:
  assumes "Serialize C t = Inr b" "length b \<le> 0xFFFF" "0 < n" "n \<le> maxBatchTxs"
    and "14 + n * (2 + length b) \<le> maxBatchBytes"
  shows "\<exists>d. SerializeBatch C (replicate n t) = Inr d"
proof -
  have "length (concat (map batchEntry (replicate n b))) = n * (2 + length b)"
    by (simp add: length_concat map_replicate batchEntry_def sum_list_replicate)
  with assms show ?thesis
    using appendBatch_fits[of C "replicate n t" "replicate n b",
        OF rmap_replicate[of "Serialize C", OF assms(1)]]
    by (auto simp: SerializeBatch_def)
qed


section \<open>Properties of transactions\<close>

definition sampleTx :: Tx where
  "sampleTx = \<lparr>Type = TxTypeTransfer, Sender = str ''a'', Receiver = str ''b'', Value = Some 5,
     Nonce = 1, SenderPubKey = 3, ReceiverPubKey = 9, SenderSig = 0, ReceiverSig = 0,
     MissedHeight = 0, MissedProposer = 0, SkipIndex = 0, WasmBytes = [], InitArgs = [],
     CallData = [], EvidenceA = [], EvidenceB = []\<rparr>"

lemma sampleTx_serialized:
  obtains d where "Serialize sample_crypto sampleTx = Inr d" "length d = 289"
proof -
  have "(case Serialize sample_crypto sampleTx of Inr d \<Rightarrow> length d = 289 | _ \<Rightarrow> False)"
    by code_simp
  then show ?thesis using that by (auto split: sum.splits)
qed

text \<open>C14. The transaction parser accepts a byte string exactly when it is the canonical encoding of
  the transaction it returns: every encoding produced by the serializer parses back to the
  transaction (its strings normalized, the payloads its type does not carry dropped), and nothing
  else is accepted, so no two byte strings denote one transaction.\<close>

theorem tx_parser_accepts_canonical:
  assumes "nfc_documented C"
  shows "(Serialize C t = Inr d \<longrightarrow> Deserialize C d = Inr (canonicalTx C t)) \<and>
    (Deserialize C d = Inr t \<longleftrightarrow> Serialize C t = Inr d \<and> canonicalTx C t = t)"
  using Deserialize_Serialize[OF assms] Deserialize_iff[OF assms] by blast

theorem tx_parser_accepts_canonical_witness:
  "nfc_documented sample_crypto \<and> (\<exists>d. Serialize sample_crypto sampleTx = Inr d \<and>
     Deserialize sample_crypto d = Inr sampleTx)"
proof -
  obtain d where d: "Serialize sample_crypto sampleTx = Inr d" by (rule sampleTx_serialized)
  have "canonicalTx sample_crypto sampleTx = sampleTx" by code_simp
  with d tx_parser_accepts_canonical[OF sample_crypto_ok(2), of sampleTx d] sample_crypto_ok(2)
  show ?thesis by auto
qed

text \<open>C23. The batch codec: every batch the serializer emits is parsed back to the same transactions,
  except the batch of exactly 65,536 transactions, which the serializer emits with a count field of
  zero and the parser rejects.\<close>

theorem tx_batch_roundtrip:
  assumes "nfc_documented C" "SerializeBatch C txs = Inr d"
  shows "DeserializeBatch C d =
    (if length txs < maxBatchTxs then Inr (map (canonicalTx C) txs) else Inl canonErr)"
  using assms by (rule batch_roundtrip_general)

theorem tx_batch_roundtrip_witness:
  "nfc_documented sample_crypto \<and>
   (\<exists>d. SerializeBatch sample_crypto [sampleTx, sampleTx] = Inr d \<and>
      DeserializeBatch sample_crypto d = Inr [sampleTx, sampleTx]) \<and>
   (\<exists>d. SerializeBatch sample_crypto (replicate 65536 sampleTx) = Inr d \<and>
      DeserializeBatch sample_crypto d = Inl canonErr)"
proof -
  obtain b where b: "Serialize sample_crypto sampleTx = Inr b" "length b = 289"
    by (rule sampleTx_serialized)
  have canon: "canonicalTx sample_crypto sampleTx = sampleTx" by code_simp
  obtain d where d: "SerializeBatch sample_crypto (replicate 2 sampleTx) = Inr d"
    using SerializeBatch_replicate[OF b(1), of 2] b(2) by auto
  obtain e where e: "SerializeBatch sample_crypto (replicate 65536 sampleTx) = Inr e"
    using SerializeBatch_replicate[OF b(1), of 65536] b(2) by auto
  have two: "replicate 2 sampleTx = [sampleTx, sampleTx]" by (simp add: numeral_2_eq_2)
  have len: "\<not> length (replicate 65536 sampleTx) < maxBatchTxs" by (simp only: length_replicate)
  have "DeserializeBatch sample_crypto e = Inl canonErr"
    using tx_batch_roundtrip[OF sample_crypto_ok(2) e] len by (simp only: if_False)
  moreover have "DeserializeBatch sample_crypto d = Inr [sampleTx, sampleTx]"
    using tx_batch_roundtrip[OF sample_crypto_ok(2) d] by (simp add: two canon)
  ultimately show ?thesis using d e sample_crypto_ok(2) unfolding two by blast
qed

text \<open>C24. The parser's run-time panics are exactly the inputs of admissible size with the right
  domain whose sender field ends with fewer than two bytes left; no other input makes it panic.\<close>

theorem tx_parser_panics_exactly:
  "Deserialize C d = Inl Panic \<longleftrightarrow>
     287 \<le> length d \<and> length d \<le> maxTxBytes \<and> take 6 d = DomainTx \<and>
     (let n = unat (Uint16 (drop 7 d)) in 9 + n \<le> length d \<and> length d < 9 + n + 2)"
  by (rule Deserialize_panics_iff)

text \<open>A transaction signed by the sender's key for a chain passes the signature check of that
  chain.\<close>

theorem tx_sign_then_verify:
  assumes "ed25519_correct C" "keypair_ok C kp" "SenderPubKey t = PublicKey kp"
    and "knownTxType (Type t)" "SignSenderForChain C kp chainID t = Inr s"
  shows "VerifySigsForChain C chainID (t\<lparr>SenderSig := s\<rparr>) = Inr ()"
  using assms by (rule sign_verify)

theorem tx_sign_then_verify_witness:
  "ed25519_correct sample_crypto \<and> keypair_ok sample_crypto (NewKeypairFromSeed sample_crypto 3) \<and>
   (\<exists>s. SignSenderForChain sample_crypto (NewKeypairFromSeed sample_crypto 3) (str ''net'') sampleTx = Inr s \<and>
     VerifySigsForChain sample_crypto (str ''net'') (sampleTx\<lparr>SenderSig := s\<rparr>) = Inr ())"
proof -
  let ?kp = "NewKeypairFromSeed sample_crypto 3"
  have "(case SignSenderForChain sample_crypto ?kp (str ''net'') sampleTx of Inr s \<Rightarrow> True | _ \<Rightarrow> False)"
    by code_simp
  then obtain s where s: "SignSenderForChain sample_crypto ?kp (str ''net'') sampleTx = Inr s"
    by (auto split: sum.splits)
  have "SenderPubKey sampleTx = PublicKey ?kp" "knownTxType (Type sampleTx)" by code_simp+
  from tx_sign_then_verify[OF sample_crypto_ok(1) _ this s] s sample_crypto_ok(1)
  show ?thesis by auto
qed



text \<open>The signature does not cover the receiver's key: replacing the receiver of a signed
  transfer leaves the verdict of the signature check and the transaction identifier unchanged, and
  transactions of different senders share an identifier.\<close>

theorem tx_receiver_not_signed:
  "VerifySigsForChain C chainID (t\<lparr>ReceiverPubKey := r\<rparr>) = VerifySigsForChain C chainID t \<and>
   ID C (t\<lparr>SenderPubKey := a, ReceiverPubKey := r, SenderSig := s, ReceiverSig := s'\<rparr>) = ID C t"
  using receiver_not_signed ID_ignores_keys by blast

end
