(* ===== verification/FRG_Node.thy ===== *)
theory FRG_Node
  imports FRG_Tx
begin

text \<open>
  Package \<^verbatim>\<open>core/node\<close> (\<^verbatim>\<open>node.go\<close>): the nodes of the RG state tree, their hashes, the canonical
  null nodes that pad a chunk, and the signature that classifies a node by its volume and variance.
\<close>

section \<open>Nodes\<close>

abbreviation (input) SigAtomic :: u8 where "SigAtomic \<equiv> 1"
abbreviation (input) SigNullPad :: u8 where "SigNullPad \<equiv> 2"
abbreviation (input) SigStagnantState :: u8 where "SigStagnantState \<equiv> 3"
abbreviation (input) SigLaminarFlow :: u8 where "SigLaminarFlow \<equiv> 4"
abbreviation (input) SigVolatileShock :: u8 where "SigVolatileShock \<equiv> 5"
abbreviation (input) SigContract :: u8 where "SigContract \<equiv> 6"

record RGNode =
  Scale :: u32
  Volume :: bytes32
  Variance :: bytes32
  Sig :: u8
  Children :: "bytes32 list"
  SumSquares :: bytes32
  Count :: u64
  ContractCount :: u64

text \<open>\<^verbatim>\<open>b[32-len(vb):]\<close> panics for more than 32 bytes.\<close>

definition Uint256ToBytes :: "int option \<Rightarrow> bytes32 res" where
  "Uint256ToBytes v = (case v of None \<Rightarrow> Inr 0
     | Some x \<Rightarrow> (let vb = nat_bytes \<bar>x\<bar> in
         rguard (length vb > 32) Panic (Inr (to32 (go_copy (32 - length vb) vb (replicate 32 0))))))"

definition BytesToUint256 :: "bytes32 \<Rightarrow> int" where
  "BytesToUint256 b = be_val (arr32 b)"

text \<open>The \<^verbatim>\<open>Serialize\<close> method of \<^verbatim>\<open>RGNode\<close>.\<close>

definition nodeSerialize :: "RGNode \<Rightarrow> bytes res" where
  "nodeSerialize n =
     rguard (\<not> ValidScale (Scale n)) (RGError ErrScaleDomainFault)
     (let expectedChildren = (if Scale n = 1 then 1 else 4) in
      rguard (length (Children n) \<noteq> expectedChildren) (RGError ErrInvalidChildArity)
      (let v = BytesToUint256 (Volume n) in
       rguard (v < 0 \<or> v > UINT256_MAX) overflowErr
       (let vr = BytesToUint256 (Variance n) in
        rguard (vr < 0 \<or> vr > UINT256_MAX) overflowErr
        (Inr (DomainRGNode @ PutUint32 (Scale n) @ arr32 (Volume n) @ arr32 (Variance n) @ [Sig n]
              @ PutUint16 (of_nat (length (Children n))) @ concat (map arr32 (Children n)))))))"

definition nodeRoot :: "crypto \<Rightarrow> RGNode \<Rightarrow> bytes32 res" where
  "nodeRoot C n = rbind (nodeSerialize n) (\<lambda>serialized. Inr (Hash C serialized))"

definition nullPadChildRoot :: "crypto \<Rightarrow> bytes32" where
  "nullPadChildRoot C = Hash C DomainNullPad"

definition emptyBlockChildRoot :: "crypto \<Rightarrow> bytes32" where
  "emptyBlockChildRoot C = Hash C DomainEmptyBlock"

definition padNode :: "u32 \<Rightarrow> bytes32 list \<Rightarrow> RGNode" where
  "padNode scale children = \<lparr>Scale = scale, Volume = 0, Variance = 0, Sig = SigNullPad,
     Children = children, SumSquares = 0, Count = 0, ContractCount = 0\<rparr>"

function NullNode :: "crypto \<Rightarrow> u32 \<Rightarrow> RGNode res" where
  "NullNode C scale =
     (if \<not> ValidScale scale then Inl (RGError ErrScaleDomainFault)
      else if scale = 1 then Inr (padNode 1 [nullPadChildRoot C])
      else rbind (NullNode C (scale div 4)) (\<lambda>childNull.
           rbind (nodeRoot C childNull) (\<lambda>childRoot.
           Inr (padNode scale (replicate 4 childRoot)))))"
  by pat_completeness auto
termination
proof (relation "measure (\<lambda>(C, scale). unat scale)")
  fix C :: crypto and scale :: u32
  assume "\<not> \<not> ValidScale scale" "scale \<noteq> 1"
  then have "scale \<noteq> 0" by (auto simp: ValidScale_def validScales_def)
  then have "unat scale \<noteq> 0" by (simp add: unat_eq_0)
  then have "unat scale div 4 < unat scale" by simp
  then show "((C, scale div 4), C, scale) \<in> measure (\<lambda>(C, scale). unat scale)"
    by (simp add: unat_div)
qed simp

declare NullNode.simps [simp del]

definition EmptyBlockRoot :: "crypto \<Rightarrow> bytes32" where
  "EmptyBlockRoot C =
     (case nodeRoot C ((padNode 1 [emptyBlockChildRoot C])\<lparr>Sig := SigStagnantState\<rparr>) of
        Inl _ \<Rightarrow> 0 | Inr root \<Rightarrow> root)"


section \<open>Signatures\<close>

definition isEmptyBlockNode :: "crypto \<Rightarrow> RGNode \<Rightarrow> bool" where
  "isEmptyBlockNode C n \<longleftrightarrow> length (Children n) = 1 \<and> Children n ! 0 = emptyBlockChildRoot C \<and>
     BytesToUint256 (Volume n) = 0 \<and> BytesToUint256 (Variance n) = 0"

definition isNullPadNode :: "crypto \<Rightarrow> RGNode \<Rightarrow> bool" where
  "isNullPadNode C n =
     (if Children n = [] then False
      else if BytesToUint256 (Volume n) \<noteq> 0 then False
      else if BytesToUint256 (Variance n) \<noteq> 0 then False
      else if Count n \<noteq> 0 then False
      else if Scale n = 1 then length (Children n) = 1 \<and> Children n ! 0 = nullPadChildRoot C
      else case rbind (NullNode C (Scale n div 4)) (nodeRoot C) of
             Inl _ \<Rightarrow> False
           | Inr childRoot \<Rightarrow> (\<forall>ch\<in>set (Children n). ch = childRoot))"

definition deriveSignature :: "crypto \<Rightarrow> RGNode \<Rightarrow> u8" where
  "deriveSignature C n =
     (if isNullPadNode C n then SigNullPad
      else if Scale n = 1 then (if isEmptyBlockNode C n then SigStagnantState else SigAtomic)
      else let volume = BytesToUint256 (Volume n); variance = BytesToUint256 (Variance n) in
        if volume = 0 \<and> variance = 0 then SigStagnantState
        else if ContractCount n = Count n \<and> Count n > 0 \<and> volume > 0 then SigContract
        else if variance = 0 then SigLaminarFlow
        else if Count n > 0 \<and>
               (let mean = volume div uint (Count n) in variance > mean * mean * 4) then SigVolatileShock
        else SigLaminarFlow)"

definition DeriveSignature :: "crypto \<Rightarrow> RGNode \<Rightarrow> u8" where
  "DeriveSignature C n = deriveSignature C n"

definition RecomputeSig :: "crypto \<Rightarrow> RGNode \<Rightarrow> u8 res" where
  "RecomputeSig C n =
     (let computed = deriveSignature C n in
      rguard (computed \<noteq> Sig n) (RGError ErrSignatureMisrepresentation) (Inr computed))"


section \<open>Facts about nodes\<close>

lemma BytesToUint256_uint [simp]: "BytesToUint256 w = uint w"
proof -
  have "uint w < 256 ^ 32" using uint_lt2p[of w] by simp
  then show ?thesis by (simp add: BytesToUint256_def arr32_def be_val_be_bytes_id)
qed

lemma uint256_bound [simp]: "uint (w :: bytes32) \<le> UINT256_MAX"
proof -
  have "uint w < 256 ^ 32" using uint_lt2p[of w] by simp
  then show ?thesis by (simp only: UINT256_MAX_bytes)
qed

lemma Uint256ToBytes_eq:
  assumes "0 \<le> v" "v \<le> UINT256_MAX"
  shows "Uint256ToBytes (Some v) = Inr (word_of_int v)"
proof -
  let ?vb = "nat_bytes v"
  have lt: "v < 256 ^ 32" using assms by (simp add: UINT256_MAX_bytes)
  then have n: "length ?vb \<le> 32" using assms by (intro length_nat_bytes_le) auto
  have "go_copy (32 - length ?vb) ?vb (replicate 32 0) = be_bytes 32 v"
    using pad_nat_bytes[OF assms(1) lt] n by (simp add: go_copy_def)
  moreover have "to32 (be_bytes 32 v) = word_of_int v"
    using assms(1) lt by (simp add: to32_def be_val_be_bytes_id)
  ultimately show ?thesis using n assms(1) by (simp add: Uint256ToBytes_def Let_def)
qed

lemma uint_word_of_int_256: "0 \<le> v \<Longrightarrow> v \<le> UINT256_MAX \<Longrightarrow> uint (word_of_int v :: bytes32) = v"
  by (simp add: UINT256_MAX_bytes uint_word_of_int)

lemma nodeSerialize_Inr_iff:
  "nodeSerialize n = Inr b \<longleftrightarrow>
     ValidScale (Scale n) \<and> length (Children n) = (if Scale n = 1 then 1 else 4) \<and>
     b = DomainRGNode @ PutUint32 (Scale n) @ arr32 (Volume n) @ arr32 (Variance n) @ [Sig n]
          @ PutUint16 (of_nat (length (Children n))) @ concat (map arr32 (Children n))"
  by (auto simp: nodeSerialize_def Let_def res_simps not_less)

lemma nodeRoot_Inr_iff:
  "nodeRoot C n = Inr r \<longleftrightarrow> (\<exists>b. nodeSerialize n = Inr b \<and> r = Hash C b)"
  by (auto simp: nodeRoot_def res_simps)

lemma NullNode_Inr:
  assumes "NullNode C s = Inr n"
  shows "\<exists>ch. n = padNode s ch \<and> ValidScale s \<and> length ch = (if s = 1 then 1 else 4)"
  using assms by (subst (asm) NullNode.simps) (auto simp: res_simps split: if_splits)

lemma NullNode_root:
  assumes "NullNode C s = Inr n"
  obtains r where "nodeRoot C n = Inr r"
proof -
  obtain ch where "n = padNode s ch" "ValidScale s" "length ch = (if s = 1 then 1 else 4)"
    using NullNode_Inr[OF assms] by blast
  then have "\<exists>r. nodeRoot C n = Inr r" by (simp add: nodeRoot_Inr_iff nodeSerialize_Inr_iff padNode_def)
  with that show ?thesis by blast
qed

lemma NullNode_fields:
  assumes "NullNode C s = Inr n"
  shows "Scale n = s" "Volume n = 0" "SumSquares n = 0" "Count n = 0" "ContractCount n = 0"
  using NullNode_Inr[OF assms] by (auto simp: padNode_def)

lemma ValidScale_div4: "ValidScale s \<Longrightarrow> s \<noteq> 1 \<Longrightarrow> ValidScale (s div 4)"
  by (auto simp: ValidScale_def validScales_def)

lemma NullNode_total: "ValidScale s \<Longrightarrow> \<exists>n. NullNode C s = Inr n"
proof (induction C s rule: NullNode.induct)
  case (1 C s)
  show ?case
  proof (cases "s = 1")
    case True
    then show ?thesis using 1(2) by (subst NullNode.simps) simp
  next
    case False
    then obtain m where m: "NullNode C (s div 4) = Inr m"
      using 1 ValidScale_div4 by blast
    obtain r where "nodeRoot C m = Inr r" using NullNode_root[OF m] .
    then show ?thesis using 1(2) False m by (subst NullNode.simps) simp
  qed
qed

end
