(* ===== verification/FRG_Tree.thy ===== *)
theory FRG_Tree
  imports FRG_Node
begin

text \<open>
  Package \<^verbatim>\<open>core/tree\<close> (\<^verbatim>\<open>tree.go\<close>, \<^verbatim>\<open>query.go\<close>) and package \<^verbatim>\<open>validator\<close>: the RG state tree, built
  in layers by coarse-graining chunks of four nodes, its incremental update, its queries, and the
  validation of a block against a claimed root.
\<close>

section \<open>Construction\<close>

unbundle bit_operations_syntax

abbreviation (input) K :: nat where "K \<equiv> 4"
abbreviation (input) TMax :: nat where "TMax \<equiv> 65536"

definition makeAtomicNode :: "crypto \<Rightarrow> Tx \<Rightarrow> RGNode res" where
  "makeAtomicNode C t =
     rbind (ID C t) (\<lambda>txID.
      case Value t of None \<Rightarrow> Inl Panic
      | Some value \<Rightarrow>
         (let sumSquares = value * value in
          rguard (sumSquares < 0 \<or> sumSquares > UINT256_MAX) overflowErr
          (rbind (Uint256ToBytes (Some value)) (\<lambda>volume.
           rbind (Uint256ToBytes (Some sumSquares)) (\<lambda>squares.
           Inr \<lparr>Scale = 1, Volume = volume, Variance = 0, Sig = SigAtomic, Children = [txID],
                SumSquares = squares, Count = 1,
                ContractCount = (if Type t = TxTypeContractDeploy \<or> Type t = TxTypeContractCall
                                 then 1 else 0)\<rparr>)))))"

definition atomicLayer :: "crypto \<Rightarrow> Tx list \<Rightarrow> RGNode list res" where
  "atomicLayer C txs = rmap (makeAtomicNode C) txs"

text \<open>The loop of \<^verbatim>\<open>coarseGrain\<close>: sums and child roots so far.\<close>

definition coarseStep ::
  "crypto \<Rightarrow> RGNode \<Rightarrow> int \<times> int \<times> u64 \<times> u64 \<times> bytes32 list \<Rightarrow>
   (int \<times> int \<times> u64 \<times> u64 \<times> bytes32 list) res" where
  "coarseStep C child st = (case st of (sumValues, sumSquares, count, contractCount, children) \<Rightarrow>
     rbind (nodeRoot C child) (\<lambda>childRoot.
      let sumValues = sumValues + uint (Volume child) in
      rguard (sumValues < 0 \<or> sumValues > UINT256_MAX) overflowErr
      (let sumSquares = sumSquares + uint (SumSquares child) in
       rguard (sumSquares < 0 \<or> sumSquares > UINT256_MAX) overflowErr
       (Inr (sumValues, sumSquares, count + Count child, contractCount + ContractCount child,
             children @ [childRoot])))))"

definition moments :: "int \<Rightarrow> int \<Rightarrow> u64 \<Rightarrow> int" where
  "moments sumValues sumSquares count =
     (if count > 0 then
        let n = uint count; secondMoment = sumSquares div n; mean = sumValues div n;
            variance = secondMoment - mean * mean in
        if variance < 0 then 0 else variance
      else 0)"

definition coarseGrain :: "crypto \<Rightarrow> RGNode list \<Rightarrow> u32 \<Rightarrow> RGNode res" where
  "coarseGrain C chunk parentScale =
     rbind (rfold (coarseStep C) chunk (0, 0, 0, 0, []))
      (\<lambda>(sumValues, sumSquares, count, contractCount, children).
       rbind (Uint256ToBytes (Some sumValues)) (\<lambda>volume.
       rbind (Uint256ToBytes (Some (moments sumValues sumSquares count))) (\<lambda>variance.
       rbind (Uint256ToBytes (Some sumSquares)) (\<lambda>squares.
       let parent = \<lparr>Scale = parentScale, Volume = volume, Variance = variance, Sig = 0,
             Children = children @ replicate (K - length children) 0, SumSquares = squares,
             Count = count, ContractCount = contractCount\<rparr>;
           parent = parent\<lparr>Sig := DeriveSignature C parent\<rparr> in
       rbind (RecomputeSig C parent) (\<lambda>_. Inr parent)))))"

text \<open>The bit mask of the padded slots of a chunk, and the check that a masked slot holds the
  canonical null node.\<close>

definition paddingMask :: "nat \<Rightarrow> u8" where
  "paddingMask len = foldl (\<lambda>m p. m OR push_bit (len + p) 1) 0 [0..<K - len]"

definition checkSlot :: "crypto \<Rightarrow> u32 \<Rightarrow> u8 \<Rightarrow> RGNode list \<Rightarrow> nat \<Rightarrow> unit \<Rightarrow> unit res" where
  "checkSlot C scale pmask chunk slot u =
     (if \<not> bit pmask slot then Inr u
      else rbind (NullNode C scale) (\<lambda>expectedNull.
           rbind (nodeRoot C expectedNull) (\<lambda>expectedRoot.
           rbind (nodeRoot C (chunk ! slot)) (\<lambda>actualRoot.
           rguard (actualRoot \<noteq> expectedRoot) (RGError ErrPaddingSubstitutionFraud) (Inr u)))))"

definition padChunk :: "crypto \<Rightarrow> u32 \<Rightarrow> RGNode list \<Rightarrow> RGNode list res" where
  "padChunk C scale chunk =
     rbind (rmap (\<lambda>_. NullNode C scale) [0..<K - length chunk]) (\<lambda>pads. Inr (chunk @ pads))"

definition coarsenChunk :: "crypto \<Rightarrow> u32 \<Rightarrow> u32 \<Rightarrow> RGNode list \<Rightarrow> RGNode res" where
  "coarsenChunk C scale parentScale chunk =
     (let pmask = paddingMask (length chunk) in
      rguard (pmask \<ge> 16) (RGError ErrMaskOutOfBounds)
      (rbind (padChunk C scale chunk) (\<lambda>chunk.
       rbind (rfold (checkSlot C scale pmask chunk) [0..<K] ()) (\<lambda>_.
       coarseGrain C chunk parentScale))))"

fun chunks :: "'a list \<Rightarrow> 'a list list" where
  "chunks [] = []"
| "chunks (x # xs) = take K (x # xs) # chunks (drop 3 xs)"

definition coarsenLayer :: "crypto \<Rightarrow> RGNode list \<Rightarrow> RGNode list res" where
  "coarsenLayer C layer =
     rguard (layer = []) Panic
     (let scale = Scale (layer ! 0); parentScale = scale * 4 in
      rguard (\<not> ValidScale parentScale) (RGError ErrScaleDomainFault)
      (rmap (coarsenChunk C scale parentScale) (chunks layer)))"

lemma length_chunks: "length (chunks xs) = (length xs + 3) div 4"
proof (induction xs rule: chunks.induct)
  case (2 x xs)
  then show ?case by (cases "length xs < 3") auto
qed simp

lemma coarsenLayer_length: "coarsenLayer C layer = Inr nxt \<Longrightarrow> length nxt = (length layer + 3) div 4"
  by (auto simp: coarsenLayer_def Let_def res_simps length_chunks dest: rmap_length)

text \<open>The loop that coarsens until one node is left, keeping every layer.\<close>

function buildLayers :: "crypto \<Rightarrow> RGNode list \<Rightarrow> RGNode list list res" where
  "buildLayers C layer =
     (if length layer \<le> 1 then Inr [layer]
      else rbind (coarsenLayer C layer) (\<lambda>next.
           rbind (buildLayers C next) (\<lambda>rest. Inr (layer # rest))))"
  by pat_completeness auto
termination
proof (relation "measure (\<lambda>(C, layer). length layer)")
  fix C :: crypto and layer nxt :: "RGNode list"
  assume "\<not> length layer \<le> 1" "coarsenLayer C layer = Inr nxt"
  then show "((C, nxt), C, layer) \<in> measure (\<lambda>(C, layer). length layer)"
    using coarsenLayer_length[of C layer nxt] by auto
qed simp

declare buildLayers.simps [simp del]

record Tree =
  layers :: "RGNode list list"
  cachedRoot :: bytes32
  dirty :: bool

definition BuildTree :: "crypto \<Rightarrow> Tx list \<Rightarrow> RGNode list \<Rightarrow> Tree res" where
  "BuildTree C txs contractNodes =
     (if txs = [] \<and> contractNodes = [] then
        Inr \<lparr>layers = [[]], cachedRoot = EmptyBlockRoot C, dirty = False\<rparr>
      else rguard (length txs > TMax) dosErr
       (rbind (if txs = [] then Inr [] else atomicLayer C txs) (\<lambda>txLayer.
        let layer = txLayer @ contractNodes in
        rbind (buildLayers C layer) (\<lambda>ls.
        let current = last ls in
        rguard (current = []) Panic
        (rbind (nodeRoot C (current ! 0)) (\<lambda>r.
         Inr \<lparr>layers = ls, cachedRoot = r, dirty = False\<rparr>))))))"

text \<open>\<^verbatim>\<open>Root\<close> refreshes the cached root of a dirty tree.\<close>

definition treeRoot :: "crypto \<Rightarrow> Tree \<Rightarrow> Tree \<times> bytes32" where
  "treeRoot C t =
     (if dirty t then
        (case nodeRoot C (last (layers t) ! 0) of
           Inl _ \<Rightarrow> (t, cachedRoot t)
         | Inr r \<Rightarrow> (t\<lparr>cachedRoot := r, dirty := False\<rparr>, r))
      else (t, cachedRoot t))"

definition BuildTreeRoot :: "crypto \<Rightarrow> Tx list \<Rightarrow> RGNode list \<Rightarrow> bytes32 res" where
  "BuildTreeRoot C txs contractNodes =
     rbind (BuildTree C txs contractNodes) (\<lambda>t. Inr (snd (treeRoot C t)))"

record TreeBlock =
  BlockHeight :: u64
  BlockTxs :: "Tx list"

definition BuildRoot :: "crypto \<Rightarrow> TreeBlock \<Rightarrow> bytes32 res" where
  "BuildRoot C b = BuildTreeRoot C (BlockTxs b) []"

text \<open>Package \<^verbatim>\<open>validator\<close>.\<close>

definition Validate :: "crypto \<Rightarrow> TreeBlock \<Rightarrow> bytes32 \<Rightarrow> bytes32 res" where
  "Validate C b claimedRoot =
     rbind (rfold (\<lambda>t _. VerifySigs C t) (BlockTxs b) ()) (\<lambda>_.
     rbind (BuildRoot C b) (\<lambda>computed.
     rguard (computed \<noteq> claimedRoot) (RGError ErrRootMismatch) (Inr computed)))"


section \<open>Incremental update\<close>

record LeafUpdate =
  Index :: int
  UpdTx :: Tx

definition rebuildChunk :: "crypto \<Rightarrow> RGNode list \<Rightarrow> nat \<Rightarrow> RGNode res" where
  "rebuildChunk C layer chunkStart =
     rguard (chunkStart > length layer \<or> layer = []) Panic
     (let chunk = go_slice chunkStart (min (chunkStart + K) (length layer)) layer in
      rbind (padChunk C (Scale (layer ! 0)) chunk) (\<lambda>chunk.
      let parentScale = Scale (layer ! 0) * 4 in
      coarseGrain C chunk parentScale))"

text \<open>Of several updates of one index the last one in the sorted order counts.\<close>

fun dedupLast :: "LeafUpdate list \<Rightarrow> LeafUpdate list" where
  "dedupLast [] = []"
| "dedupLast (u # us) =
     (if Index u \<in> Index ` set us then dedupLast us else u # dedupLast us)"

text \<open>The leaves are replaced in place, so an error leaves the earlier replacements in the tree.\<close>

fun applyLeaves :: "crypto \<Rightarrow> LeafUpdate list \<Rightarrow> RGNode list \<Rightarrow> RGNode list \<times> unit res" where
  "applyLeaves C [] leafLayer = (leafLayer, Inr ())"
| "applyLeaves C (u # us) leafLayer =
     (if Index u < 0 \<or> Index u \<ge> int (length leafLayer) then (leafLayer, Inl canonErr)
      else if Sig (leafLayer ! nat (Index u)) \<noteq> SigAtomic then (leafLayer, Inl canonErr)
      else case makeAtomicNode C (UpdTx u) of Inl e \<Rightarrow> (leafLayer, Inl e)
           | Inr newNode \<Rightarrow> applyLeaves C us (leafLayer[nat (Index u) := newNode]))"

fun refreshParents :: "crypto \<Rightarrow> RGNode list \<Rightarrow> nat list \<Rightarrow> RGNode list \<Rightarrow> RGNode list \<times> unit res" where
  "refreshParents C layer [] parents = (parents, Inr ())"
| "refreshParents C layer (p # ps) parents =
     (case rebuildChunk C layer (p * K) of Inl e \<Rightarrow> (parents, Inl e)
      | Inr newNode \<Rightarrow>
          if p \<ge> length parents then (parents, Inl Panic)
          else refreshParents C layer ps (parents[p := newNode]))"

text \<open>The dirty positions of a level are a Go map; its keys are visited here in ascending order.\<close>

definition parentPositions :: "nat list \<Rightarrow> nat list" where
  "parentPositions ps = sorted_list_of_set ((\<lambda>p. p div K) ` set ps)"

fun refreshLevels :: "crypto \<Rightarrow> RGNode list list \<Rightarrow> nat list \<Rightarrow> RGNode list list \<times> unit res" where
  "refreshLevels C (layer # parents # rest) dirtyPositions =
     (let parentDirty = parentPositions dirtyPositions in
      case refreshParents C layer parentDirty parents of
        (parents', Inl e) \<Rightarrow> (layer # parents' # rest, Inl e)
      | (parents', Inr _) \<Rightarrow>
          (case refreshLevels C (parents' # rest) parentDirty of (ls, r) \<Rightarrow> (layer # ls, r)))"
| "refreshLevels C ls dirtyPositions = (ls, Inr ())"

text \<open>\<open>sortSlice\<close> stands for \<^verbatim>\<open>sort.Slice\<close>, which orders by index but is not stable.\<close>

definition sorts_by_index :: "(LeafUpdate list \<Rightarrow> LeafUpdate list) \<Rightarrow> bool" where
  "sorts_by_index sortSlice \<longleftrightarrow> (\<forall>us. set (sortSlice us) = set us \<and>
     length (sortSlice us) = length us \<and> sorted (map Index (sortSlice us)))"

definition UpdateLeaves ::
  "crypto \<Rightarrow> (LeafUpdate list \<Rightarrow> LeafUpdate list) \<Rightarrow> LeafUpdate list \<Rightarrow> Tree \<Rightarrow> Tree \<times> unit res" where
  "UpdateLeaves C sortSlice updates t =
     (if updates = [] then (t, Inr ())
      else let sorted = sortSlice (dedupLast (sortSlice updates)) in
        case applyLeaves C sorted (hd (layers t)) of
          (leaves, Inl e) \<Rightarrow> (t\<lparr>layers := leaves # tl (layers t)\<rparr>, Inl e)
        | (leaves, Inr _) \<Rightarrow>
            (case refreshLevels C (leaves # tl (layers t)) (map (nat \<circ> Index) sorted) of
               (ls, Inl e) \<Rightarrow> (t\<lparr>layers := ls\<rparr>, Inl e)
             | (ls, Inr _) \<Rightarrow> (t\<lparr>layers := ls, dirty := True\<rparr>, Inr ())))"

definition UpdateLeaf ::
  "crypto \<Rightarrow> (LeafUpdate list \<Rightarrow> LeafUpdate list) \<Rightarrow> int \<Rightarrow> Tx \<Rightarrow> Tree \<Rightarrow> Tree \<times> unit res" where
  "UpdateLeaf C sortSlice index newTx t =
     UpdateLeaves C sortSlice [\<lparr>Index = index, UpdTx = newTx\<rparr>] t"


section \<open>Queries\<close>

text \<open>An out-of-range level or an empty layer panics where the code indexes it.\<close>

definition Layer :: "Tree \<Rightarrow> nat \<Rightarrow> RGNode list res" where
  "Layer t level = rguard (level \<ge> length (layers t)) Panic (Inr (layers t ! level))"

definition LayerCount :: "Tree \<Rightarrow> nat" where
  "LayerCount t = length (layers t)"

definition ScaleAt :: "Tree \<Rightarrow> nat \<Rightarrow> u32 res" where
  "ScaleAt t level = rbind (Layer t level) (\<lambda>layer. rguard (layer = []) Panic (Inr (Scale (layer ! 0))))"

definition NodeCount :: "Tree \<Rightarrow> nat \<Rightarrow> nat res" where
  "NodeCount t level = rbind (Layer t level) (\<lambda>layer. Inr (length layer))"

definition SignatureCount :: "Tree \<Rightarrow> nat \<Rightarrow> u8 \<Rightarrow> nat res" where
  "SignatureCount t level sig =
     rbind (Layer t level) (\<lambda>layer. Inr (foldl (\<lambda>c n. if Sig n = sig then c + 1 else c) 0 layer))"

definition SignatureHistogram :: "Tree \<Rightarrow> nat \<Rightarrow> (u8 \<Rightarrow> nat) res" where
  "SignatureHistogram t level =
     rbind (Layer t level) (\<lambda>layer. Inr (foldl (\<lambda>h n. h(Sig n := h (Sig n) + 1)) (\<lambda>_. 0) layer))"

definition FindNodes :: "Tree \<Rightarrow> nat \<Rightarrow> (RGNode \<Rightarrow> bool) \<Rightarrow> nat list res" where
  "FindNodes t level predicate =
     rbind (Layer t level) (\<lambda>layer. Inr (filter (\<lambda>i. predicate (layer ! i)) [0..<length layer]))"

text \<open>The quotient \<^verbatim>\<open>ratio\<close> is a float and is left out.\<close>

definition ContractDensity :: "Tree \<Rightarrow> nat \<Rightarrow> (nat \<times> int) res" where
  "ContractDensity t level =
     rbind (Layer t level) (\<lambda>layer. Inr (foldl (\<lambda>(nodes, contractNodes) n.
       if Count n > 0 then (nodes + 1, contractNodes + sint (ContractCount n)) else (nodes, contractNodes))
       (0, 0) layer))"

record LevelDiff =
  Level :: nat
  DiffScale :: u32
  SigChanges :: nat
  TotalNodes :: nat
  AddedNodes :: nat
  RemovedNodes :: nat

definition levelDiff :: "Tree \<Rightarrow> Tree \<Rightarrow> nat \<Rightarrow> LevelDiff res" where
  "levelDiff a b level =
     (let la = layers a ! level; lb = layers b ! level; minLen = min (length la) (length lb) in
      rguard (la = []) Panic
      (Inr \<lparr>Level = level, DiffScale = Scale (la ! 0),
            SigChanges = length (filter (\<lambda>i. Sig (la ! i) \<noteq> Sig (lb ! i)) [0..<minLen]),
            TotalNodes = length la,
            AddedNodes = (if length lb > length la then length lb - length la else 0),
            RemovedNodes = (if length la > length lb then length la - length lb else 0)\<rparr>))"

definition CompareSignatures :: "Tree \<Rightarrow> Tree \<Rightarrow> LevelDiff list res" where
  "CompareSignatures a b =
     (let maxLevels = (if LayerCount b < LayerCount a then LayerCount b else LayerCount a) in
      rmap (levelDiff a b) [0..<maxLevels])"

definition VolatilityRegions :: "Tree \<Rightarrow> nat \<Rightarrow> nat list res" where
  "VolatilityRegions t level = FindNodes t level (\<lambda>n. Sig n = SigVolatileShock)"

definition StagnantRegions :: "Tree \<Rightarrow> nat \<Rightarrow> nat list res" where
  "StagnantRegions t level = FindNodes t level (\<lambda>n. Sig n = SigStagnantState)"

definition NodeAt :: "Tree \<Rightarrow> nat \<Rightarrow> nat \<Rightarrow> RGNode res" where
  "NodeAt t level index =
     rbind (Layer t level) (\<lambda>layer. rguard (index \<ge> length layer) Panic (Inr (layer ! index)))"


section \<open>Chunks\<close>

lemma chunks_nth:
  "i < length (chunks xs) \<Longrightarrow> chunks xs ! i = take K (drop (i * K) xs)"
proof (induction xs arbitrary: i rule: chunks.induct)
  case (2 x xs)
  show ?case
  proof (cases i)
    case (Suc j)
    then have "chunks (x # xs) ! i = take K (drop (j * K) (drop 3 xs))"
      using 2 by simp
    then show ?thesis by (simp add: Suc add.commute drop_Cons')
  qed simp
qed simp

lemma chunks_lengths: "c \<in> set (chunks xs) \<Longrightarrow> c \<noteq> [] \<and> length c \<le> K"
  by (induction xs rule: chunks.induct) auto

lemma concat_chunks: "concat (chunks xs) = xs"
proof (induction xs rule: chunks.induct)
  case (2 x xs)
  have "take K (x # xs) = x # take 3 xs" by (simp add: numeral_eq_Suc)
  with 2 show ?case by simp
qed simp

lemma paddingMask_values:
  "paddingMask (Suc 0) = 14" "paddingMask 2 = 12" "paddingMask 3 = 8" "paddingMask 4 = 0"
  by (code_simp, code_simp, code_simp, code_simp)

lemma paddingMask_small:
  assumes "1 \<le> n" "n \<le> 4"
  shows "\<not> paddingMask n \<ge> 16" "slot < 4 \<Longrightarrow> bit (paddingMask n) slot \<longleftrightarrow> n \<le> slot"
proof -
  from assms have n: "n = 1 \<or> n = 2 \<or> n = 3 \<or> n = 4" by linarith
  then show "\<not> paddingMask n \<ge> 16" by (auto simp: paddingMask_values)
  show "bit (paddingMask n) slot \<longleftrightarrow> n \<le> slot" if "slot < 4"
  proof -
    from that have "slot = 0 \<or> slot = 1 \<or> slot = 2 \<or> slot = 3" by linarith
    with n show ?thesis by (auto simp: paddingMask_values bit_numeral_rec)
  qed
qed

text \<open>The padding check compares a null node with itself, so it always passes: coarsening a chunk is
  padding it and merging it, which is what the incremental update does.\<close>

lemma padChunk_Inr:
  assumes "padChunk C s c = Inr c'"
  shows "\<exists>pads. c' = c @ pads \<and> length pads = K - length c \<and> (\<forall>p\<in>set pads. NullNode C s = Inr p)"
proof -
  from assms obtain pads where "rmap (\<lambda>_. NullNode C s) [0..<K - length c] = Inr pads" "c' = c @ pads"
    by (auto simp: padChunk_def res_simps)
  then show ?thesis by (auto simp: rmap_Inr_iff in_set_conv_nth)
qed

lemma checkSlots_pass:
  assumes "padChunk C s c = Inr c'" "c \<noteq> []" "length c \<le> K"
  shows "rfold (checkSlot C s (paddingMask (length c)) c') [0..<K] () = Inr ()"
proof -
  have "1 \<le> length c" using assms(2) by (cases c) auto
  note mask = paddingMask_small(2)[OF this assms(3)]
  obtain pads where p: "c' = c @ pads" "length pads = K - length c" "\<forall>p\<in>set pads. NullNode C s = Inr p"
    using padChunk_Inr[OF assms(1)] by blast
  have "checkSlot C s (paddingMask (length c)) c' slot () = Inr ()" if "slot < K" for slot
  proof (cases "length c \<le> slot")
    case True
    then have "c' ! slot = pads ! (slot - length c)" "slot - length c < length pads"
      using that p by (simp_all add: nth_append)
    then have null: "NullNode C s = Inr (c' ! slot)" using p(3) by simp
    obtain r where "nodeRoot C (c' ! slot) = Inr r" using NullNode_root[OF null] .
    with null show ?thesis by (simp add: checkSlot_def)
  next
    case False
    then show ?thesis using mask[OF that] by (simp add: checkSlot_def)
  qed
  then have "rfold (checkSlot C s (paddingMask (length c)) c') xs () = Inr ()" if "\<forall>x\<in>set xs. x < K" for xs
    using that by (induction xs) auto
  then show ?thesis by simp
qed

lemma coarsenChunk_eq:
  assumes "c \<noteq> []" "length c \<le> K"
  shows "coarsenChunk C s ps c = rbind (padChunk C s c) (\<lambda>c. coarseGrain C c ps)"
proof -
  have "1 \<le> length c" using assms(1) by (cases c) auto
  then have "\<not> paddingMask (length c) \<ge> 16" using assms(2) by (intro paddingMask_small)
  moreover have "rbind (padChunk C s c) (\<lambda>c'. rbind (rfold (checkSlot C s (paddingMask (length c)) c') [0..<K] ())
      (\<lambda>_. coarseGrain C c' ps)) = rbind (padChunk C s c) (\<lambda>c. coarseGrain C c ps)"
    by (rule rbind_cong) (simp_all only: checkSlots_pass[OF _ assms] rbind_simps)
  ultimately show ?thesis by (simp add: coarsenChunk_def Let_def)
qed

lemma rmap_cong: "(\<And>x. x \<in> set xs \<Longrightarrow> f x = g x) \<Longrightarrow> rmap f xs = rmap g xs"
  by (induction xs) auto

lemma coarsenLayer_eq:
  "coarsenLayer C layer =
     (if layer = [] then Inl Panic
      else if \<not> ValidScale (Scale (layer ! 0) * 4) then Inl (RGError ErrScaleDomainFault)
      else rmap (\<lambda>c. rbind (padChunk C (Scale (layer ! 0)) c) (\<lambda>c. coarseGrain C c (Scale (layer ! 0) * 4)))
             (chunks layer))"
proof -
  have "rmap (coarsenChunk C s ps) (chunks layer)
      = rmap (\<lambda>c. rbind (padChunk C s c) (\<lambda>c. coarseGrain C c ps)) (chunks layer)" for s ps
    using chunks_lengths by (intro rmap_cong coarsenChunk_eq) blast+
  then show ?thesis by (simp add: coarsenLayer_def Let_def rguard_def)
qed

text \<open>A parent is rebuilt from its chunk as the full pass builds it.\<close>

lemma rebuildChunk_chunks:
  assumes "i < length (chunks layer)"
  shows "rebuildChunk C layer (i * K) =
    rbind (padChunk C (Scale (layer ! 0)) (chunks layer ! i)) (\<lambda>c. coarseGrain C c (Scale (layer ! 0) * 4))"
proof -
  have i: "i * K < length layer" using assms by (simp add: length_chunks)
  have "go_slice (i * K) (min (i * K + K) (length layer)) layer = take K (drop (i * K) layer)"
    by (simp add: go_slice_def min_def)
  moreover have "layer \<noteq> []" using i by auto
  ultimately show ?thesis using i
    by (simp add: rebuildChunk_def Let_def chunks_nth[OF assms])
qed


section \<open>Aggregates\<close>

definition volumeSum :: "RGNode list \<Rightarrow> int" where
  "volumeSum ns = (\<Sum>n\<leftarrow>ns. uint (Volume n))"

definition squareSum :: "RGNode list \<Rightarrow> int" where
  "squareSum ns = (\<Sum>n\<leftarrow>ns. uint (SumSquares n))"

definition countSum :: "RGNode list \<Rightarrow> u64" where
  "countSum ns = (\<Sum>n\<leftarrow>ns. Count n)"

definition contractSum :: "RGNode list \<Rightarrow> u64" where
  "contractSum ns = (\<Sum>n\<leftarrow>ns. ContractCount n)"

lemmas sum_defs = volumeSum_def squareSum_def countSum_def contractSum_def

lemma coarseStep_fold:
  assumes "rfold (coarseStep C) ns (sv, ss, c, cc, chs) = Inr (sv', ss', c', cc', chs')"
  shows "sv' = sv + volumeSum ns \<and> ss' = ss + squareSum ns \<and> c' = c + countSum ns \<and>
    cc' = cc + contractSum ns \<and> (\<exists>rs. rmap (nodeRoot C) ns = Inr rs \<and> chs' = chs @ rs) \<and>
    (0 \<le> sv \<and> sv \<le> UINT256_MAX \<longrightarrow> 0 \<le> sv' \<and> sv' \<le> UINT256_MAX) \<and>
    (0 \<le> ss \<and> ss \<le> UINT256_MAX \<longrightarrow> 0 \<le> ss' \<and> ss' \<le> UINT256_MAX)"
  using assms
proof (induction ns arbitrary: sv ss c cc chs)
  case Nil
  then show ?case by (simp add: sum_defs)
next
  case (Cons n ns)
  from Cons.prems obtain st where st: "coarseStep C n (sv, ss, c, cc, chs) = Inr st"
    and st_rest: "rfold (coarseStep C) ns st = Inr (sv', ss', c', cc', chs')" by (auto simp: res_simps)
  from st obtain r where r: "nodeRoot C n = Inr r"
    and bounds: "0 \<le> sv + uint (Volume n)" "sv + uint (Volume n) \<le> UINT256_MAX"
      "0 \<le> ss + uint (SumSquares n)" "ss + uint (SumSquares n) \<le> UINT256_MAX"
    and st': "st = (sv + uint (Volume n), ss + uint (SumSquares n), c + Count n, cc + ContractCount n, chs @ [r])"
    by (auto simp: coarseStep_def res_simps Let_def not_less)
  from Cons.IH[OF st_rest[unfolded st']] bounds r show ?case by (auto simp: sum_defs)
qed

lemma moments_range: "0 \<le> ss \<Longrightarrow> ss \<le> UINT256_MAX \<Longrightarrow> 0 \<le> moments sv ss c \<and> moments sv ss c \<le> UINT256_MAX"
proof -
  assume ss: "0 \<le> ss" "ss \<le> UINT256_MAX"
  have "ss div uint c \<le> ss" if "0 < c"
  proof -
    have "1 \<le> uint c" using that by (simp add: word_less_def)
    then show ?thesis using ss(1) by (metis div_by_1 zdiv_mono2 zero_less_one)
  qed
  moreover have "0 \<le> x * x" for x :: int by simp
  ultimately have "ss div uint c - x * x \<le> UINT256_MAX" if "0 < c" for x
    using ss that by (smt (verit))
  then show ?thesis using ss by (auto simp: moments_def Let_def)
qed

lemma deriveSignature_Sig [simp]: "deriveSignature C (n\<lparr>Sig := x\<rparr>) = deriveSignature C n"
proof (cases n)
  case (fields a b c d e f g h)
  show ?thesis
    unfolding fields RGNode.update_convs deriveSignature_def isNullPadNode_def isEmptyBlockNode_def
      RGNode.select_convs by (rule refl)
qed

lemma coarseGrain_law:
  assumes "coarseGrain C ns ps = Inr p"
  shows "Scale p = ps" "uint (Volume p) = volumeSum ns" "uint (SumSquares p) = squareSum ns"
    "Count p = countSum ns" "ContractCount p = contractSum ns" "Sig p = deriveSignature C p"
    "uint (Variance p) = moments (volumeSum ns) (squareSum ns) (countSum ns)"
    "\<exists>rs. rmap (nodeRoot C) ns = Inr rs \<and> Children p = rs @ replicate (4 - length rs) 0"
proof -
  from assms obtain sv ss c cc chs where
    fold: "rfold (coarseStep C) ns (0, 0, 0, 0, []) = Inr (sv, ss, c, cc, chs)"
    by (auto simp: coarseGrain_def res_simps)
  note f = coarseStep_fold[OF fold]
  have "0 \<le> UINT256_MAX" by (simp add: UINT256_MAX_def)
  then have sv: "0 \<le> sv" "sv \<le> UINT256_MAX" and ss: "0 \<le> ss" "ss \<le> UINT256_MAX" using f by auto
  note m = moments_range[OF ss, of sv c]
  note eqs = Uint256ToBytes_eq[OF sv] Uint256ToBytes_eq[OF ss] Uint256ToBytes_eq[OF conjunct1[OF m] conjunct2[OF m]]
  note us = uint_word_of_int_256[OF sv] uint_word_of_int_256[OF ss] uint_word_of_int_256[OF conjunct1[OF m] conjunct2[OF m]]
  from assms have p: "p = (let q = \<lparr>Scale = ps, Volume = word_of_int sv, Variance = word_of_int (moments sv ss c),
      Sig = 0, Children = chs @ replicate (4 - length chs) 0, SumSquares = word_of_int ss, Count = c,
      ContractCount = cc\<rparr> in q\<lparr>Sig := deriveSignature C q\<rparr>)"
    by (simp add: coarseGrain_def fold eqs Let_def res_simps DeriveSignature_def)
  show "Scale p = ps" "uint (Volume p) = volumeSum ns" "uint (SumSquares p) = squareSum ns"
    "Count p = countSum ns" "ContractCount p = contractSum ns"
    "uint (Variance p) = moments (volumeSum ns) (squareSum ns) (countSum ns)"
    "\<exists>rs. rmap (nodeRoot C) ns = Inr rs \<and> Children p = rs @ replicate (4 - length rs) 0"
    using f us by (auto simp: p Let_def)
  show "Sig p = deriveSignature C p" unfolding p Let_def by (subst deriveSignature_Sig) simp
qed

lemma sums_append [simp]:
  "volumeSum (xs @ ys) = volumeSum xs + volumeSum ys" "squareSum (xs @ ys) = squareSum xs + squareSum ys"
  "countSum (xs @ ys) = countSum xs + countSum ys" "contractSum (xs @ ys) = contractSum xs + contractSum ys"
  by (simp_all add: sum_defs)

lemma sums_Cons [simp]:
  "volumeSum (n # ns) = uint (Volume n) + volumeSum ns" "squareSum (n # ns) = uint (SumSquares n) + squareSum ns"
  "countSum (n # ns) = Count n + countSum ns" "contractSum (n # ns) = ContractCount n + contractSum ns"
  "volumeSum [] = 0" "squareSum [] = 0" "countSum [] = 0" "contractSum [] = 0"
  by (simp_all add: sum_defs)

lemma null_sums:
  assumes "\<forall>p\<in>set pads. NullNode C s = Inr p"
  shows "volumeSum pads = 0" "squareSum pads = 0" "countSum pads = 0" "contractSum pads = 0"
  using assms by (induction pads) (auto simp: NullNode_fields)

lemma coarsen_sums:
  assumes "rmap (\<lambda>c. rbind (padChunk C s c) (\<lambda>c. coarseGrain C c ps)) cs = Inr ns"
  shows "volumeSum ns = volumeSum (concat cs) \<and> squareSum ns = squareSum (concat cs) \<and>
    countSum ns = countSum (concat cs) \<and> contractSum ns = contractSum (concat cs) \<and>
    (\<forall>n\<in>set ns. Scale n = ps)"
  using assms
proof (induction cs arbitrary: ns)
  case Nil
  then show ?case by simp
next
  case (Cons c cs)
  from Cons.prems obtain c' m ms where c': "padChunk C s c = Inr c'" and m: "coarseGrain C c' ps = Inr m"
    and ms: "rmap (\<lambda>c. rbind (padChunk C s c) (\<lambda>c. coarseGrain C c ps)) cs = Inr ms" "ns = m # ms"
    by (auto simp: res_simps)
  obtain pads where "c' = c @ pads" "\<forall>p\<in>set pads. NullNode C s = Inr p" using padChunk_Inr[OF c'] by blast
  with coarseGrain_law[OF m] null_sums[of pads] ms Cons.IH[OF ms(1)] show ?case by auto
qed

lemma coarsenLayer_law:
  assumes "coarsenLayer C L = Inr N"
  shows "L \<noteq> [] \<and> ValidScale (Scale (L ! 0) * 4) \<and> length N = (length L + 3) div 4 \<and>
    volumeSum N = volumeSum L \<and> squareSum N = squareSum L \<and> countSum N = countSum L \<and>
    contractSum N = contractSum L \<and> (\<forall>n\<in>set N. Scale n = Scale (L ! 0) * 4)"
proof -
  from assms have L: "L \<noteq> []" "ValidScale (Scale (L ! 0) * 4)"
    and r: "rmap (\<lambda>c. rbind (padChunk C (Scale (L ! 0)) c) (\<lambda>c. coarseGrain C c (Scale (L ! 0) * 4))) (chunks L) = Inr N"
    by (simp_all add: coarsenLayer_eq split: if_splits)
  show ?thesis
    using L coarsen_sums[OF r] coarsenLayer_length[OF assms] by (simp add: concat_chunks)
qed

lemma buildLayers_base: "length L \<le> 1 \<Longrightarrow> buildLayers C L = Inr [L]"
  by (subst buildLayers.simps) simp

lemma buildLayers_step:
  "\<not> length L \<le> 1 \<Longrightarrow> buildLayers C L =
     rbind (coarsenLayer C L) (\<lambda>N. rbind (buildLayers C N) (\<lambda>rest. Inr (L # rest)))"
  by (subst buildLayers.simps) simp

lemma buildLayers_law:
  assumes "buildLayers C L = Inr ls"
  shows "ls \<noteq> [] \<and> hd ls = L \<and> length (last ls) = min (length L) 1 \<and>
    (\<forall>M\<in>set ls. volumeSum M = volumeSum L \<and> squareSum M = squareSum L \<and> countSum M = countSum L \<and>
       contractSum M = contractSum L)"
  using assms
proof (induction C L arbitrary: ls rule: buildLayers.induct)
  case (1 C L)
  show ?case
  proof (cases "length L \<le> 1")
    case True
    then show ?thesis using "1.prems" by (cases L) (auto simp: buildLayers_base)
  next
    case False
    from "1.prems" obtain N rest where N: "coarsenLayer C L = Inr N" and rest: "buildLayers C N = Inr rest"
      and ls: "ls = L # rest"
      by (auto simp: buildLayers_step[OF False] res_simps)
    have "N \<noteq> []" using coarsenLayer_law[OF N] False by auto
    with "1.IH"[OF False N rest] coarsenLayer_law[OF N] False ls show ?thesis
      by (auto simp: Suc_le_eq min_def)
  qed
qed

text \<open>Layers above the scale limit do not exist: a layer of scale \<open>4 ^ k\<close> that can be coarsened to one
  node has at most \<open>4 ^ (8 - k)\<close> nodes.\<close>

lemma ValidScale_pow: "ValidScale s \<longleftrightarrow> (\<exists>k\<le>8. s = 4 ^ k)"
proof -
  have "{..8::nat} = {0, 1, 2, 3, 4, 5, 6, 7, 8}" by auto
  then have "(\<exists>k\<le>8. s = 4 ^ k) \<longleftrightarrow> (\<exists>k\<in>{0::nat, 1, 2, 3, 4, 5, 6, 7, 8}. s = 4 ^ k)" by (metis atMost_iff)
  then show ?thesis by (auto simp: ValidScale_def validScales_def)
qed

lemma buildLayers_capacity:
  assumes "buildLayers C L = Inr ls" "L \<noteq> []" "Scale (L ! 0) = 4 ^ k" "k \<le> 8"
  shows "length L \<le> 4 ^ (8 - k)"
  using assms
proof (induction C L arbitrary: ls k rule: buildLayers.induct)
  case (1 C L)
  show ?case
  proof (cases "length L \<le> 1")
    case True
    then show ?thesis by (meson le_trans one_le_numeral one_le_power)
  next
    case False
    from "1.prems"(1) obtain N rest where N: "coarsenLayer C L = Inr N" and rest: "buildLayers C N = Inr rest"
      by (auto simp: buildLayers_step[OF False] res_simps)
    note law = coarsenLayer_law[OF N]
    have N0: "N \<noteq> []" using law False by auto
    have "N ! 0 \<in> set N" using N0 by simp
    then have sc: "Scale (N ! 0) = 4 ^ Suc k" using law "1.prems"(3) by (simp add: mult.commute)
    have "Suc k \<le> 8"
    proof (rule ccontr)
      assume "\<not> Suc k \<le> 8"
      then have "k = 8" using "1.prems"(4) by simp
      then have "ValidScale (4 ^ 9)" using law "1.prems"(3) by simp
      then show False by (simp add: ValidScale_def validScales_def)
    qed
    then have "length N \<le> 4 ^ (8 - Suc k)" using "1.IH"[OF False N rest N0 sc] by simp
    then have "(length L + 3) div 4 \<le> 4 ^ (8 - Suc k)" using law by simp
    moreover have "(4::nat) ^ (8 - k) = 4 * 4 ^ (8 - Suc k)"
      using \<open>Suc k \<le> 8\<close> by (simp add: Suc_diff_le flip: power_Suc)
    ultimately show ?thesis by simp
  qed
qed


section \<open>Incremental update equals rebuilding\<close>

lemma coarsenLayer_Inr_iff:
  "coarsenLayer C L = Inr N \<longleftrightarrow> L \<noteq> [] \<and> ValidScale (Scale (L ! 0) * 4) \<and>
     length N = length (chunks L) \<and> (\<forall>i<length (chunks L). rebuildChunk C L (i * K) = Inr (N ! i))"
  by (auto simp: coarsenLayer_eq rmap_Inr_iff rebuildChunk_chunks)

lemma refreshParents_Inr:
  assumes "refreshParents C L ps N = (N', Inr ())" "distinct ps"
  shows "length N' = length N \<and> (\<forall>i<length N. i \<notin> set ps \<longrightarrow> N' ! i = N ! i) \<and>
    (\<forall>i\<in>set ps. i < length N \<and> rebuildChunk C L (i * K) = Inr (N' ! i))"
  using assms
proof (induction ps arbitrary: N)
  case Nil
  then show ?case by simp
next
  case (Cons p ps)
  from Cons.prems(1) obtain n where n: "rebuildChunk C L (p * K) = Inr n" "p < length N"
    and rest: "refreshParents C L ps (N[p := n]) = (N', Inr ())"
    by (auto split: sum.splits if_splits)
  with Cons.IH[OF rest] Cons.prems(2) show ?case
    by (auto simp: nth_list_update)
qed

lemma set_parentPositions [simp]: "set (parentPositions D) = (\<lambda>p. p div K) ` set D"
  "distinct (parentPositions D)"
  by (simp_all add: parentPositions_def)

lemma chunk_unchanged:
  assumes "length L' = length L" "\<And>i. i < length L \<Longrightarrow> i \<notin> D \<Longrightarrow> L' ! i = L ! i"
    and "j < length (chunks L)" "j \<notin> (\<lambda>p. p div K) ` D"
  shows "chunks L' ! j = chunks L ! j"
proof -
  have "length (chunks L') = length (chunks L)" using assms(1) by (simp add: length_chunks)
  then have eqs: "chunks L' ! j = take K (drop (j * K) L')" "chunks L ! j = take K (drop (j * K) L)"
    using assms(3) by (simp_all add: chunks_nth)
  have "L' ! (j * K + i) = L ! (j * K + i)" if "i < K" "j * K + i < length L" for i
  proof (rule assms(2)[OF that(2)])
    have "(j * K + i) div K = j" using that(1) by simp
    then show "j * K + i \<notin> D" using assms(4) by (metis imageI)
  qed
  then show ?thesis
    unfolding eqs using assms(1) by (intro nth_equalityI) auto
qed

lemma refresh_level:
  assumes "coarsenLayer C L = Inr N" "length L' = length L" "Scale (L' ! 0) = Scale (L ! 0)"
    and "\<And>i. i < length L \<Longrightarrow> i \<notin> set D \<Longrightarrow> L' ! i = L ! i"
    and "refreshParents C L' (parentPositions D) N = (N', Inr ())"
  shows "coarsenLayer C L' = Inr N' \<and> length N' = length N \<and>
    (\<forall>i<length N. i \<notin> set (parentPositions D) \<longrightarrow> N' ! i = N ! i)"
proof -
  note r = refreshParents_Inr[OF assms(5) set_parentPositions(2)]
  from assms(1) have c: "L \<noteq> []" "ValidScale (Scale (L ! 0) * 4)" "length N = length (chunks L)"
    "\<forall>i<length (chunks L). rebuildChunk C L (i * K) = Inr (N ! i)"
    by (auto simp: coarsenLayer_Inr_iff)
  have len: "length (chunks L') = length (chunks L)" using assms(2) by (simp add: length_chunks)
  have "rebuildChunk C L' (i * K) = Inr (N' ! i)" if "i < length (chunks L')" for i
  proof (cases "i \<in> set (parentPositions D)")
    case True
    with r show ?thesis by blast
  next
    case False
    have "chunks L' ! i = chunks L ! i"
      using that len False by (intro chunk_unchanged[OF assms(2,4)]) auto
    then have "rebuildChunk C L' (i * K) = rebuildChunk C L (i * K)"
      using that len assms(3) by (simp add: rebuildChunk_chunks)
    with c r that len False show ?thesis by simp
  qed
  moreover have "L' \<noteq> []" using c(1) assms(2) by auto
  ultimately show ?thesis using r c assms(3) len by (simp add: coarsenLayer_Inr_iff)
qed

lemma refreshLevels_correct:
  assumes "buildLayers C L = Inr (L # rest)" "length L' = length L" "L \<noteq> [] \<Longrightarrow> Scale (L' ! 0) = Scale (L ! 0)"
    and "\<And>i. i < length L \<Longrightarrow> i \<notin> set D \<Longrightarrow> L' ! i = L ! i"
    and "refreshLevels C (L' # rest) D = (ls', Inr ())"
  shows "buildLayers C L' = Inr ls'"
  using assms
proof (induction C L arbitrary: L' rest D ls' rule: buildLayers.induct)
  case (1 C L)
  show ?case
  proof (cases "length L \<le> 1")
    case True
    then have "rest = []" using "1.prems"(1) by (simp add: buildLayers_base)
    with True "1.prems" show ?thesis by (simp add: buildLayers_base)
  next
    case False
    from "1.prems"(1) obtain N where N: "coarsenLayer C L = Inr N" and rest: "buildLayers C N = Inr rest"
      by (auto simp: buildLayers_step[OF False] res_simps)
    obtain rest' where rest': "rest = N # rest'"
      using buildLayers_law[OF rest] by (cases rest) auto
    let ?pd = "parentPositions D"
    from "1.prems"(5) obtain N' ls where N': "refreshParents C L' ?pd N = (N', Inr ())"
      and ls: "refreshLevels C (N' # rest') ?pd = (ls, Inr ())" "ls' = L' # ls"
      by (auto simp: rest' Let_def split: prod.splits sum.splits)
    have L: "L \<noteq> []" using False by auto
    note lev = refresh_level[OF N "1.prems"(2) "1.prems"(3)[OF L] "1.prems"(4) N']
    have scale: "Scale (N' ! 0) = Scale (N ! 0)" if "N \<noteq> []"
    proof -
      have "N' ! 0 \<in> set N'" "N ! 0 \<in> set N" using that lev by auto
      then show ?thesis
        using lev coarsenLayer_law[OF N] coarsenLayer_law[of C L' N'] "1.prems"(3)[OF L] by metis
    qed
    have "buildLayers C N' = Inr ls"
      using lev by (intro "1.IH"[OF False N rest[unfolded rest'] _ scale _ ls(1)]) auto
    then show ?thesis
      using lev ls(2) False "1.prems"(2) by (simp add: buildLayers_step)
  qed
qed

lemma applyLeaves_Inr:
  assumes "applyLeaves C us L = (L', Inr ())" "distinct (map Index us)"
  shows "length L' = length L \<and> (\<forall>i<length L. int i \<notin> Index ` set us \<longrightarrow> L' ! i = L ! i) \<and>
    (\<forall>u\<in>set us. 0 \<le> Index u \<and> Index u < int (length L) \<and>
       makeAtomicNode C (UpdTx u) = Inr (L' ! nat (Index u)) \<and> Sig (L ! nat (Index u)) = SigAtomic)"
  using assms
proof (induction us arbitrary: L)
  case Nil
  then show ?case by simp
next
  case (Cons u us)
  from Cons.prems(1) obtain n where u: "0 \<le> Index u" "Index u < int (length L)"
      "Sig (L ! nat (Index u)) = SigAtomic" "makeAtomicNode C (UpdTx u) = Inr n"
    and rest: "applyLeaves C us (L[nat (Index u) := n]) = (L', Inr ())"
    by (auto split: sum.splits if_splits)
  note IH = Cons.IH[OF rest]
  have d: "distinct (map Index us)" "Index u \<notin> Index ` set us" using Cons.prems(2) by auto
  have other: "L[nat (Index u) := n] ! i = L ! i" if "int i \<noteq> Index u" for i
    using that by (metis nat_int nth_list_update_neq u(1) int_nat_eq)
  show ?case
  proof (intro conjI allI ballI impI)
    show "length L' = length L" using IH d by simp
    show "L' ! i = L ! i" if "i < length L" "int i \<notin> Index ` set (u # us)" for i
      using IH d other[of i] that by auto
    fix w assume w: "w \<in> set (u # us)"
    show "0 \<le> Index w" "Index w < int (length L)" using w u IH d by auto
    have "L' ! nat (Index u) = n"
    proof -
      have "int (nat (Index u)) \<notin> Index ` set us" using d(2) u(1) by simp
      then have "L' ! nat (Index u) = L[nat (Index u) := n] ! nat (Index u)" using IH d(1) u by auto
      then show ?thesis using u by simp
    qed
    then show "makeAtomicNode C (UpdTx w) = Inr (L' ! nat (Index w))" using w u IH d by auto
    show "Sig (L ! nat (Index w)) = SigAtomic"
    proof (cases "w = u")
      case False
      then have "w \<in> set us" using w by simp
      moreover have "Index w \<noteq> Index u" using calculation d(2) by (metis imageI)
      ultimately show ?thesis using IH d(1) other[of "nat (Index w)"] by auto
    qed (use u in simp)
  qed
qed


section \<open>Building always succeeds within the limits\<close>

lemma sums_nonneg [simp]: "0 \<le> volumeSum ns" "0 \<le> squareSum ns"
  by (induction ns) (simp_all add: sum_defs)

lemma coarseStep_total:
  assumes "\<forall>n\<in>set ns. \<exists>r. nodeRoot C n = Inr r" "0 \<le> sv" "0 \<le> ss"
    and "sv + volumeSum ns \<le> UINT256_MAX" "ss + squareSum ns \<le> UINT256_MAX"
  shows "\<exists>st. rfold (coarseStep C) ns (sv, ss, c, cc, chs) = Inr st"
  using assms
proof (induction ns arbitrary: sv ss c cc chs)
  case Nil
  then show ?case by simp
next
  case (Cons n ns)
  obtain r where r: "nodeRoot C n = Inr r" using Cons.prems(1) by auto
  have b: "sv + uint (Volume n) \<le> UINT256_MAX" "ss + uint (SumSquares n) \<le> UINT256_MAX"
    using Cons.prems(4,5) sums_nonneg[of ns] unfolding sums_Cons by linarith+
  have "coarseStep C n (sv, ss, c, cc, chs) = Inr (sv + uint (Volume n), ss + uint (SumSquares n),
      c + Count n, cc + ContractCount n, chs @ [r])"
    using Cons.prems(2,3) b r by (simp add: coarseStep_def Let_def rguard_def not_less)
  moreover have "\<exists>st. rfold (coarseStep C) ns (sv + uint (Volume n), ss + uint (SumSquares n),
      c + Count n, cc + ContractCount n, chs @ [r]) = Inr st"
    using Cons.prems by (intro Cons.IH) (auto simp: algebra_simps)
  ultimately show ?case by simp
qed

lemma coarseGrain_total:
  assumes "\<forall>n\<in>set ns. \<exists>r. nodeRoot C n = Inr r" "volumeSum ns \<le> UINT256_MAX" "squareSum ns \<le> UINT256_MAX"
  shows "\<exists>p. coarseGrain C ns ps = Inr p"
proof -
  obtain sv ss c cc chs where f: "rfold (coarseStep C) ns (0, 0, 0, 0, []) = Inr (sv, ss, c, cc, chs)"
    using coarseStep_total[of ns C 0 0 0 0 "[]"] assms by (metis add_0 order_refl prod_cases5)
  have sv: "0 \<le> sv" "sv \<le> UINT256_MAX" and ss: "0 \<le> ss" "ss \<le> UINT256_MAX"
    using coarseStep_fold[OF f] assms(2,3) sums_nonneg[of ns] by auto
  note m = moments_range[OF ss, of sv c]
  show ?thesis
    by (simp add: coarseGrain_def f Uint256ToBytes_eq sv ss m Let_def RecomputeSig_def DeriveSignature_def)
qed

lemma coarsenLayer_roots:
  assumes "coarsenLayer C L = Inr N" "n \<in> set N"
  obtains r where "nodeRoot C n = Inr r"
proof -
  from assms obtain i where i: "i < length (chunks L)" "n = N ! i"
    by (auto simp: coarsenLayer_Inr_iff in_set_conv_nth)
  let ?s = "Scale (L ! 0)"
  have valid: "ValidScale (?s * 4)" using assms(1) by (simp add: coarsenLayer_Inr_iff)
  from assms(1) i have "rebuildChunk C L (i * K) = Inr n" by (simp add: coarsenLayer_Inr_iff)
  then obtain c where c: "padChunk C ?s (chunks L ! i) = Inr c" and n: "coarseGrain C c (?s * 4) = Inr n"
    by (auto simp: rebuildChunk_chunks[OF i(1)] res_simps)
  have "length (chunks L ! i) \<le> 4" using chunks_lengths[of "chunks L ! i" L] i by simp
  then have "length c = 4" using padChunk_Inr[OF c] by auto
  moreover obtain rs where "rmap (nodeRoot C) c = Inr rs" "Children n = rs @ replicate (4 - length rs) 0"
    using coarseGrain_law(8)[OF n] by blast
  ultimately have "length (Children n) = 4" by (simp add: rmap_length)
  moreover have "Scale n = ?s * 4" using coarseGrain_law(1)[OF n] .
  moreover have "?s * 4 \<noteq> 1"
  proof
    assume "?s * 4 = 1"
    then have "even (1 :: u32)" by (metis dvd_mult2 dvd_triv_right even_numeral mult.commute)
    then show False by simp
  qed
  ultimately have "\<exists>r. nodeRoot C n = Inr r"
    using valid by (simp add: nodeRoot_Inr_iff nodeSerialize_Inr_iff)
  with that show ?thesis by blast
qed

lemma chunk_sums_le:
  assumes "c \<in> set cs"
  shows "volumeSum c \<le> volumeSum (concat cs)" "squareSum c \<le> squareSum (concat cs)"
proof -
  show "volumeSum c \<le> volumeSum (concat cs)"
    using assms by (induction cs) (auto intro: order_trans simp: add_increasing add_increasing2)
  show "squareSum c \<le> squareSum (concat cs)"
    using assms by (induction cs) (auto intro: order_trans simp: add_increasing add_increasing2)
qed

lemma coarsenLayer_total:
  assumes "L \<noteq> []" "ValidScale (Scale (L ! 0))" "ValidScale (Scale (L ! 0) * 4)"
    and "\<forall>n\<in>set L. \<exists>r. nodeRoot C n = Inr r" "volumeSum L \<le> UINT256_MAX" "squareSum L \<le> UINT256_MAX"
  shows "\<exists>N. coarsenLayer C L = Inr N"
proof -
  let ?s = "Scale (L ! 0)"
  have "\<exists>p. rbind (padChunk C ?s c) (\<lambda>c. coarseGrain C c (?s * 4)) = Inr p" if c: "c \<in> set (chunks L)" for c
  proof -
    obtain n where n: "NullNode C ?s = Inr n" using NullNode_total[OF assms(2)] by blast
    have pad: "rmap (\<lambda>_. NullNode C ?s) xs = Inr (map (\<lambda>_. n) xs)" for xs :: "nat list"
      by (induction xs) (simp_all add: n)
    let ?c = "c @ map (\<lambda>_. n) [0..<K - length c]"
    have pc: "padChunk C ?s c = Inr ?c" by (simp add: padChunk_def pad)
    obtain r where r: "nodeRoot C n = Inr r" using NullNode_root[OF n] .
    have "set c \<subseteq> set L" using c concat_chunks[of L] by (metis set_concat Union_upper image_eqI)
    then have roots: "\<forall>n\<in>set ?c. \<exists>r. nodeRoot C n = Inr r" using assms(4) r by auto
    have "volumeSum ?c = volumeSum c" "squareSum ?c = squareSum c"
      using null_sums[of "map (\<lambda>_. n) [0..<K - length c]" C ?s] n by auto
    then have "volumeSum ?c \<le> UINT256_MAX" "squareSum ?c \<le> UINT256_MAX"
      using chunk_sums_le[OF c] assms(5,6) by (simp_all add: concat_chunks)
    from coarseGrain_total[OF roots this] show ?thesis by (simp add: pc)
  qed
  then have "\<exists>N. rmap (\<lambda>c. rbind (padChunk C ?s c) (\<lambda>c. coarseGrain C c (?s * 4))) cs = Inr N"
    if "set cs \<subseteq> set (chunks L)" for cs
    using that by (induction cs) fastforce+
  then show ?thesis using assms(1,3) by (simp add: coarsenLayer_eq)
qed

lemma buildLayers_total:
  assumes "L \<noteq> []" "Scale (L ! 0) = 4 ^ k" "k \<le> 8" "length L \<le> 4 ^ (8 - k)"
    and "\<forall>n\<in>set L. \<exists>r. nodeRoot C n = Inr r" "volumeSum L \<le> UINT256_MAX" "squareSum L \<le> UINT256_MAX"
  shows "\<exists>ls n. buildLayers C L = Inr ls \<and> last ls = [n] \<and> (\<exists>r. nodeRoot C n = Inr r)"
  using assms
proof (induction C L arbitrary: k rule: buildLayers.induct)
  case (1 C L)
  show ?case
  proof (cases "length L \<le> 1")
    case True
    then obtain n where "L = [n]" using "1.prems"(1) by (cases L) auto
    with "1.prems"(5) show ?thesis by (auto simp: buildLayers_base)
  next
    case False
    have k: "Suc k \<le> 8"
    proof (rule ccontr)
      assume "\<not> Suc k \<le> 8"
      then have "k = 8" using "1.prems"(3) by simp
      then show False using False "1.prems"(4) by simp
    qed
    have v: "ValidScale (Scale (L ! 0))" using "1.prems"(2,3) by (auto simp: ValidScale_pow)
    have "Scale (L ! 0) * 4 = 4 ^ Suc k" using "1.prems"(2) by (simp add: mult.commute)
    then have v4: "ValidScale (Scale (L ! 0) * 4)" using k ValidScale_pow by blast
    obtain N where N: "coarsenLayer C L = Inr N"
      using coarsenLayer_total[OF "1.prems"(1) v v4 "1.prems"(5-7)] by blast
    note law = coarsenLayer_law[OF N]
    have N0: "N \<noteq> []" using law False by auto
    then have "N ! 0 \<in> set N" by simp
    then have sc: "Scale (N ! 0) = 4 ^ Suc k" using law "1.prems"(2) by (simp add: mult.commute)
    have "(4::nat) ^ (8 - k) = 4 * 4 ^ (8 - Suc k)" using k by (simp add: Suc_diff_le flip: power_Suc)
    then have len: "length N \<le> 4 ^ (8 - Suc k)" using law "1.prems"(4) by simp
    have roots: "\<forall>n\<in>set N. \<exists>r. nodeRoot C n = Inr r" using coarsenLayer_roots[OF N] by metis
    from "1.IH"[OF False N N0 sc k len roots] law "1.prems"(6,7)
    obtain ls n where "buildLayers C N = Inr ls" "last ls = [n]" "\<exists>r. nodeRoot C n = Inr r" by auto
    moreover have "ls \<noteq> []" using buildLayers_law calculation(1) by blast
    ultimately show ?thesis using N by (simp add: buildLayers_step[OF False])
  qed
qed

section \<open>Leaves\<close>

lemma serializeUnsigned_value:
  "serializeUnsigned C t = Inr b \<Longrightarrow> \<exists>v. Value t = Some v \<and> 0 \<le> v \<and> v \<le> UINT256_MAX"
  by (auto simp: serializeUnsigned_Inr_iff)

lemma makeAtomicNode_law:
  assumes "makeAtomicNode C t = Inr n"
  obtains v txID where "Value t = Some v" "0 \<le> v" "v * v \<le> UINT256_MAX" "ID C t = Inr txID"
    "Scale n = 1" "uint (Volume n) = v" "uint (SumSquares n) = v * v" "Count n = 1" "Sig n = SigAtomic"
    "Children n = [txID]" "Variance n = 0"
proof -
  from assms obtain txID where id: "ID C t = Inr txID" by (auto simp: makeAtomicNode_def res_simps)
  then obtain v where v: "Value t = Some v" "0 \<le> v" "v \<le> UINT256_MAX"
    using serializeUnsigned_value[of C t] by (auto simp: ID_def res_simps)
  from assms have sq: "v * v \<le> UINT256_MAX"
    by (auto simp: makeAtomicNode_def id v(1) res_simps Let_def not_less)
  have sq0: "0 \<le> v * v" by simp
  have "n = \<lparr>Scale = 1, Volume = word_of_int v, Variance = 0, Sig = SigAtomic, Children = [txID],
      SumSquares = word_of_int (v * v), Count = 1,
      ContractCount = (if Type t = TxTypeContractDeploy \<or> Type t = TxTypeContractCall then 1 else 0)\<rparr>"
    using assms sq unfolding makeAtomicNode_def id v(1)
    by (simp add: Let_def Uint256ToBytes_eq[OF v(2,3)] Uint256ToBytes_eq[OF sq0 sq])
  then show ?thesis
    using that[OF v(1,2) sq id] uint_word_of_int_256[OF v(2,3)] uint_word_of_int_256[OF sq0 sq] by simp
qed

lemma makeAtomicNode_total:
  assumes "ID C t = Inr txID" "Value t = Some v" "v * v \<le> UINT256_MAX"
  obtains n where "makeAtomicNode C t = Inr n"
proof -
  from assms(1,2) have v: "0 \<le> v" "v \<le> UINT256_MAX"
    using serializeUnsigned_value[of C t] by (fastforce simp: ID_def res_simps)+
  have "\<exists>n. makeAtomicNode C t = Inr n"
    using assms v by (simp add: makeAtomicNode_def Let_def Uint256ToBytes_eq rguard_def)
  with that show ?thesis by blast
qed

lemma atomicNode_root: "makeAtomicNode C t = Inr n \<Longrightarrow> \<exists>r. nodeRoot C n = Inr r"
  by (erule makeAtomicNode_law) (simp add: nodeRoot_Inr_iff nodeSerialize_Inr_iff ValidScale_def validScales_def)

lemma atomicLayer_sums:
  assumes "atomicLayer C txs = Inr L"
  shows "volumeSum L = (\<Sum>t\<leftarrow>txs. the (Value t))" "squareSum L = (\<Sum>t\<leftarrow>txs. the (Value t) * the (Value t))"
    "countSum L = of_nat (length txs)" "\<forall>n\<in>set L. Scale n = 1 \<and> (\<exists>r. nodeRoot C n = Inr r)"
proof -
  have "volumeSum L = (\<Sum>t\<leftarrow>txs. the (Value t)) \<and> squareSum L = (\<Sum>t\<leftarrow>txs. the (Value t) * the (Value t)) \<and>
      countSum L = of_nat (length txs) \<and> (\<forall>n\<in>set L. Scale n = 1 \<and> (\<exists>r. nodeRoot C n = Inr r))"
    using assms unfolding atomicLayer_def
  proof (induction txs arbitrary: L)
    case (Cons t txs)
    from Cons.prems obtain n ns where n: "makeAtomicNode C t = Inr n" and ns: "rmap (makeAtomicNode C) txs = Inr ns"
      and L: "L = n # ns" by (auto simp: res_simps)
    show ?case
      using Cons.IH[OF ns] atomicNode_root[OF n] L by (rule_tac makeAtomicNode_law[OF n]) auto
  qed simp
  then show "volumeSum L = (\<Sum>t\<leftarrow>txs. the (Value t))" "squareSum L = (\<Sum>t\<leftarrow>txs. the (Value t) * the (Value t))"
    "countSum L = of_nat (length txs)" "\<forall>n\<in>set L. Scale n = 1 \<and> (\<exists>r. nodeRoot C n = Inr r)" by auto
qed


section \<open>Incremental update succeeds exactly when rebuilding does\<close>

lemma refreshParents_total:
  assumes "\<forall>p\<in>set ps. p < length N \<and> (\<exists>n. rebuildChunk C L (p * K) = Inr n)"
  shows "\<exists>N'. refreshParents C L ps N = (N', Inr ())"
  using assms
proof (induction ps arbitrary: N)
  case (Cons p ps)
  then obtain n where "rebuildChunk C L (p * K) = Inr n" "p < length N" by auto
  moreover have "\<exists>N'. refreshParents C L ps (N[p := n]) = (N', Inr ())" using Cons.prems by (intro Cons.IH) auto
  ultimately show ?case by simp
qed simp

lemma refreshLevels_total:
  assumes "buildLayers C L = Inr (L # rest)" "buildLayers C L' = Inr ls2" "length L' = length L"
    and "L \<noteq> [] \<Longrightarrow> Scale (L' ! 0) = Scale (L ! 0)" "\<And>i. i < length L \<Longrightarrow> i \<notin> set D \<Longrightarrow> L' ! i = L ! i"
    and "\<forall>p\<in>set D. p < length L"
  shows "\<exists>ls'. refreshLevels C (L' # rest) D = (ls', Inr ())"
  using assms
proof (induction C L arbitrary: L' rest D ls2 rule: buildLayers.induct)
  case (1 C L)
  show ?case
  proof (cases "length L \<le> 1")
    case True
    then have "rest = []" using "1.prems"(1) by (simp add: buildLayers_base)
    then show ?thesis by simp
  next
    case False
    from "1.prems"(1) obtain N where N: "coarsenLayer C L = Inr N" and rest: "buildLayers C N = Inr rest"
      by (auto simp: buildLayers_step[OF False] res_simps)
    have False': "\<not> length L' \<le> 1" using False "1.prems"(3) by simp
    from "1.prems"(2) obtain M ls where M: "coarsenLayer C L' = Inr M" and ls: "buildLayers C M = Inr ls"
      by (auto simp: buildLayers_step[OF False'] res_simps)
    obtain rest' where rest': "rest = N # rest'"
      using buildLayers_law[OF rest] by (cases rest) auto
    let ?pd = "parentPositions D"
    have len: "length (chunks L') = length (chunks L)" using "1.prems"(3) by (simp add: length_chunks)
    have inN: "p div K < length N" if "p < length L" for p
      using that coarsenLayer_law[OF N] by (auto simp: div_less_iff_less_mult)
    then have "\<forall>p\<in>set ?pd. p < length N \<and> (\<exists>n. rebuildChunk C L' (p * K) = Inr n)"
      using "1.prems"(6) M N len by (auto simp: coarsenLayer_Inr_iff)
    then obtain N' where N': "refreshParents C L' ?pd N = (N', Inr ())"
      using refreshParents_total by blast
    have L: "L \<noteq> []" using False by auto
    note lev = refresh_level[OF N "1.prems"(3) "1.prems"(4)[OF L] "1.prems"(5) N']
    then have NM: "N' = M" using M by simp
    have scale: "Scale (M ! 0) = Scale (N ! 0)" if "N \<noteq> []"
    proof -
      have "M ! 0 \<in> set M" "N ! 0 \<in> set N" using that lev NM by auto
      then show ?thesis
        using coarsenLayer_law[OF N] coarsenLayer_law[OF M] "1.prems"(4)[OF L] by metis
    qed
    have "\<exists>ls'. refreshLevels C (M # rest') ?pd = (ls', Inr ())"
      using lev NM inN "1.prems"(6) by (intro "1.IH"[OF False N rest[unfolded rest'] ls _ scale]) auto
    then show ?thesis using N' by (auto simp: rest' NM Let_def)
  qed
qed

lemma applyLeaves_total:
  assumes "\<forall>u\<in>set us. 0 \<le> Index u \<and> Index u < int (length L) \<and> Sig (L ! nat (Index u)) = SigAtomic \<and>
      (\<exists>n. makeAtomicNode C (UpdTx u) = Inr n)"
  shows "\<exists>L'. applyLeaves C us L = (L', Inr ())"
  using assms
proof (induction us arbitrary: L)
  case (Cons u us)
  then obtain n where n: "makeAtomicNode C (UpdTx u) = Inr n" by auto
  then have "Sig n = SigAtomic" by (rule makeAtomicNode_law)
  then have "\<exists>L'. applyLeaves C us (L[nat (Index u) := n]) = (L', Inr ())"
    using Cons.prems by (intro Cons.IH) (auto simp: nth_list_update)
  with n Cons.prems show ?case by (auto simp: not_le not_less)
qed simp

text \<open>The transaction list that a batch of leaf updates stands for.\<close>

fun replaceTxs :: "LeafUpdate list \<Rightarrow> Tx list \<Rightarrow> Tx list" where
  "replaceTxs [] txs = txs"
| "replaceTxs (u # us) txs = replaceTxs us (txs[nat (Index u) := UpdTx u])"

lemma replaceTxs_nth:
  assumes "distinct (map Index us)" "\<forall>u\<in>set us. 0 \<le> Index u \<and> Index u < int (length txs)"
  shows "length (replaceTxs us txs) = length txs \<and>
    (\<forall>i<length txs. int i \<notin> Index ` set us \<longrightarrow> replaceTxs us txs ! i = txs ! i) \<and>
    (\<forall>u\<in>set us. replaceTxs us txs ! nat (Index u) = UpdTx u)"
  using assms
proof (induction us arbitrary: txs)
  case (Cons u us)
  then have IH: "length (replaceTxs us (txs[nat (Index u) := UpdTx u])) = length txs"
    "\<forall>i<length txs. int i \<notin> Index ` set us \<longrightarrow>
       replaceTxs us (txs[nat (Index u) := UpdTx u]) ! i = txs[nat (Index u) := UpdTx u] ! i"
    "\<forall>w\<in>set us. replaceTxs us (txs[nat (Index u) := UpdTx u]) ! nat (Index w) = UpdTx w"
    by auto
  have u: "0 \<le> Index u" "nat (Index u) < length txs" "Index u \<notin> Index ` set us" using Cons.prems by auto
  then have "int (nat (Index u)) \<notin> Index ` set us" by simp
  then have "replaceTxs us (txs[nat (Index u) := UpdTx u]) ! nat (Index u) = UpdTx u"
    using IH(2) u(2) by simp
  then show ?case using IH u by (auto simp: nth_list_update)
qed simp

lemma sortDedup:
  assumes "sorts_by_index s" "distinct (map Index us)"
  shows "set (s (dedupLast (s us))) = set us" "distinct (map Index (s (dedupLast (s us))))"
proof -
  have d: "distinct (map Index (s vs))" if "distinct (map Index vs)" for vs
  proof -
    have "set (map Index (s vs)) = set (map Index vs)" "length (map Index (s vs)) = length (map Index vs)"
      using assms(1) by (auto simp: sorts_by_index_def)
    then show ?thesis using that by (metis card_distinct distinct_card)
  qed
  have dd: "dedupLast vs = vs" if "distinct (map Index vs)" for vs
    using that by (induction vs) auto
  show "set (s (dedupLast (s us))) = set us" using assms d dd by (simp add: sorts_by_index_def)
  show "distinct (map Index (s (dedupLast (s us))))" using assms(2) d dd by metis
qed


lemma BuildTree_Inr_iff:
  assumes "txs \<noteq> [] \<or> cns \<noteq> []"
  shows "BuildTree C txs cns = Inr t \<longleftrightarrow> length txs \<le> TMax \<and>
    (\<exists>txL ls n r. atomicLayer C txs = Inr txL \<and> buildLayers C (txL @ cns) = Inr ls \<and> last ls = [n] \<and>
       nodeRoot C n = Inr r \<and> t = \<lparr>layers = ls, cachedRoot = r, dirty = False\<rparr>)"
proof -
  have one: "\<exists>n. last ls = [n]" if "buildLayers C (txL @ cns) = Inr ls" "txL @ cns \<noteq> []" for txL ls
  proof -
    have "length (last ls) = Suc 0" using buildLayers_law[OF that(1)] that(2) by (cases "txL @ cns") auto
    then show ?thesis by (simp add: length_Suc_conv)
  qed
  have emp: "(if txs = [] then Inr [] else atomicLayer C txs) = atomicLayer C txs"
    by (simp add: atomicLayer_def)
  have ne: "txL @ cns \<noteq> []" if "atomicLayer C txs = Inr txL" for txL
    using that assms by (auto simp: atomicLayer_def dest: rmap_length)
  show ?thesis
    unfolding BuildTree_def emp using assms one ne by (fastforce simp: res_simps Let_def not_less)
qed

lemma treeRoot_dirty:
  "dirty t \<Longrightarrow> last (layers t) = [n] \<Longrightarrow> nodeRoot C n = Inr r \<Longrightarrow> snd (treeRoot C t) = r"
  by (simp add: treeRoot_def)

lemma atomicLayer_Inr_iff:
  "atomicLayer C txs = Inr L \<longleftrightarrow> length L = length txs \<and> (\<forall>i<length txs. makeAtomicNode C (txs ! i) = Inr (L ! i))"
  by (auto simp: atomicLayer_def rmap_Inr_iff)

lemma atomicNode_Sig: "makeAtomicNode C t = Inr n \<Longrightarrow> Sig n = SigAtomic" "makeAtomicNode C t = Inr n \<Longrightarrow> Scale n = 1"
  by (erule makeAtomicNode_law, simp)+

lemma applyLeaves_replace:
  assumes L: "atomicLayer C txs = Inr txL" and us: "distinct (map Index us)" "set ws = set us" "distinct (map Index ws)"
    and range: "\<forall>u\<in>set us. 0 \<le> Index u \<and> Index u < int (length txs)"
  shows "(\<exists>txL'. atomicLayer C (replaceTxs us txs) = Inr txL' \<and> applyLeaves C ws (txL @ cns) = (txL' @ cns, Inr ())) \<or>
    (\<exists>e f L'. atomicLayer C (replaceTxs us txs) = Inl e \<and> applyLeaves C ws (txL @ cns) = (L', Inl f))"
proof -
  note rep = replaceTxs_nth[OF us(1) range]
  have len: "length txL = length txs" using L by (simp add: atomicLayer_Inr_iff)
  show ?thesis
  proof (cases "applyLeaves C ws (txL @ cns)")
    case (Pair L' r)
    show ?thesis
    proof (cases r)
      case (Inr x)
      have P: "applyLeaves C ws (txL @ cns) = (L', Inr ())" using Pair Inr by simp
      note a = applyLeaves_Inr[OF P us(3)]
      have "makeAtomicNode C (replaceTxs us txs ! i) = Inr (take (length txs) L' ! i)" if i: "i < length txs" for i
      proof (cases "int i \<in> Index ` set us")
        case True
        then obtain u where u: "u \<in> set us" "Index u = int i" by auto
        then show ?thesis using a rep us(2) i by (metis nat_int nth_take)
      next
        case False
        then show ?thesis using a rep us(2) i L len by (simp add: atomicLayer_Inr_iff nth_append)
      qed
      then have "atomicLayer C (replaceTxs us txs) = Inr (take (length txs) L')"
        using a rep len by (simp add: atomicLayer_Inr_iff)
      moreover have "drop (length txs) L' = cns"
      proof (rule nth_equalityI)
        show "length (drop (length txs) L') = length cns" using a len by simp
        fix i assume i: "i < length (drop (length txs) L')"
        then have "int (length txs + i) \<notin> Index ` set ws" using range us(2) by auto
        then show "drop (length txs) L' ! i = cns ! i" using a len i by (simp add: nth_append)
      qed
      ultimately show ?thesis using P by (metis append_take_drop_id)
    next
      case (Inl f)
      have "atomicLayer C (replaceTxs us txs) \<noteq> Inr txL'" for txL'
      proof
        assume A: "atomicLayer C (replaceTxs us txs) = Inr txL'"
        have "\<forall>u\<in>set ws. 0 \<le> Index u \<and> Index u < int (length (txL @ cns)) \<and>
            Sig ((txL @ cns) ! nat (Index u)) = SigAtomic \<and> (\<exists>n. makeAtomicNode C (UpdTx u) = Inr n)"
        proof
          fix u assume "u \<in> set ws"
          then have u: "u \<in> set us" "0 \<le> Index u" "nat (Index u) < length txs" using range us(2) by auto
          have "makeAtomicNode C (UpdTx u) = Inr (txL' ! nat (Index u))"
            using A rep u by (auto simp: atomicLayer_Inr_iff)
          moreover have "Sig (txL ! nat (Index u)) = SigAtomic"
            using L u by (auto simp: atomicLayer_Inr_iff intro: atomicNode_Sig)
          ultimately show "0 \<le> Index u \<and> Index u < int (length (txL @ cns)) \<and>
            Sig ((txL @ cns) ! nat (Index u)) = SigAtomic \<and> (\<exists>n. makeAtomicNode C (UpdTx u) = Inr n)"
            using u len by (auto simp: nth_append)
        qed
        then show False using applyLeaves_total Pair Inl by (metis Inl_Inr_False prod.inject)
      qed
      then show ?thesis using Pair Inl by (metis sum.exhaust)
    qed
  qed
qed


lemma buildLayers_top:
  assumes "buildLayers C L = Inr ls" "L \<noteq> []" "\<exists>r. nodeRoot C (L ! 0) = Inr r"
  shows "\<exists>n r. last ls = [n] \<and> nodeRoot C n = Inr r"
  using assms
proof (induction C L arbitrary: ls rule: buildLayers.induct)
  case (1 C L)
  show ?case
  proof (cases "length L \<le> 1")
    case True
    with "1.prems" show ?thesis by (cases L) (auto simp: buildLayers_base)
  next
    case False
    from "1.prems"(1) obtain N rest where N: "coarsenLayer C L = Inr N" and rest: "buildLayers C N = Inr rest"
      and ls: "ls = L # rest"
      by (auto simp: buildLayers_step[OF False] res_simps)
    have "N \<noteq> []" using coarsenLayer_law[OF N] False by auto
    moreover from this have "\<exists>r. nodeRoot C (N ! 0) = Inr r" using coarsenLayer_roots[OF N, of "N ! 0"] by auto
    ultimately have "\<exists>n r. last rest = [n] \<and> nodeRoot C n = Inr r" using "1.IH"[OF False N rest] by blast
    moreover have "rest \<noteq> []" using buildLayers_law[OF rest] by blast
    ultimately show ?thesis by (simp add: ls)
  qed
qed

lemma refreshLevels_rebuild:
  assumes "buildLayers C L = Inr (L # rest)" "length L' = length L" "L \<noteq> [] \<Longrightarrow> Scale (L' ! 0) = Scale (L ! 0)"
    and "\<And>i. i < length L \<Longrightarrow> i \<notin> set D \<Longrightarrow> L' ! i = L ! i" "\<forall>p\<in>set D. p < length L"
  shows "(\<exists>ls. buildLayers C L' = Inr ls \<and> refreshLevels C (L' # rest) D = (ls, Inr ())) \<or>
    (\<exists>e f ls. buildLayers C L' = Inl e \<and> refreshLevels C (L' # rest) D = (ls, Inl f))"
proof (cases "refreshLevels C (L' # rest) D")
  case (Pair ls r)
  show ?thesis
  proof (cases r)
    case (Inr u)
    then have "refreshLevels C (L' # rest) D = (ls, Inr ())" using Pair by simp
    then show ?thesis using refreshLevels_correct[OF assms(1-4)] by blast
  next
    case (Inl f)
    then have "buildLayers C L' \<noteq> Inr ls2" for ls2
      using refreshLevels_total[OF assms(1) _ assms(2-5)] Pair by fastforce
    then show ?thesis using Pair Inl by (metis sum.exhaust)
  qed
qed

lemma updateLeaves_cases:
  assumes "BuildTree C txs cns = Inr t" "sorts_by_index sortSlice" "us \<noteq> []" "distinct (map Index us)"
    and range: "\<forall>u\<in>set us. 0 \<le> Index u \<and> Index u < int (length txs)"
  shows "(\<exists>txL' ls. atomicLayer C (replaceTxs us txs) = Inr txL' \<and> buildLayers C (txL' @ cns) = Inr ls \<and>
      UpdateLeaves C sortSlice us t = (t\<lparr>layers := ls, dirty := True\<rparr>, Inr ())) \<or>
    (\<forall>txL'. atomicLayer C (replaceTxs us txs) = Inr txL' \<longrightarrow> (\<exists>e. buildLayers C (txL' @ cns) = Inl e)) \<and>
      (\<exists>t' e. UpdateLeaves C sortSlice us t = (t', Inl e))"
proof -
  have txs: "txs \<noteq> []" using assms(3,5) by (cases us) auto
  then obtain txL where txL: "atomicLayer C txs = Inr txL" and bl: "buildLayers C (txL @ cns) = Inr (layers t)"
    using assms(1) BuildTree_Inr_iff[of txs cns C t] by auto
  let ?L = "txL @ cns" and ?ws = "sortSlice (dedupLast (sortSlice us))"
  let ?D = "map (nat \<circ> Index) ?ws"
  obtain rest where lay: "layers t = ?L # rest" using buildLayers_law[OF bl] by (cases "layers t") auto
  note sd = sortDedup[OF assms(2,4)]
  note upd = UpdateLeaves_def[of C sortSlice us t, unfolded lay Let_def, simplified assms(3) if_False list.sel]
  from applyLeaves_replace[OF txL assms(4) sd range, of cns] show ?thesis
  proof (elim disjE exE conjE)
    fix txL'
    let ?L' = "txL' @ cns"
    assume A: "atomicLayer C (replaceTxs us txs) = Inr txL'" "applyLeaves C ?ws ?L = (?L', Inr ())"
    note ap = applyLeaves_Inr[OF A(2) sd(2)]
    have ll: "length txL = length txs" "length txL' = length txs" "length ?L' = length ?L"
      using txL A(1) replaceTxs_nth[OF assms(4) range] by (auto simp: atomicLayer_Inr_iff)
    have sc: "Scale (?L' ! 0) = Scale (?L ! 0)"
      using ll txs atomicLayer_sums(4)[OF txL] atomicLayer_sums(4)[OF A(1)] by (auto simp: nth_append)
    have same: "?L' ! i = ?L ! i" if "i < length ?L" "i \<notin> set ?D" for i
    proof -
      have "int i \<notin> Index ` set ?ws" using that(2) by force
      with ap that(1) show ?thesis by blast
    qed
    have inD: "\<forall>p\<in>set ?D. p < length ?L" using range sd(1) ll by auto
    from refreshLevels_rebuild[OF bl[unfolded lay] ll(3) sc same inD] show ?thesis
      using A by (auto simp: upd)
  qed (auto simp: upd)
qed

lemma int_le_square: "(v::int) \<le> v * v"
  by (cases "v \<le> 0") (auto intro: order_trans mult_nonpos_nonpos simp: mult_le_cancel_left1)

lemma atomicLayer_total:
  assumes "\<forall>t\<in>set txs. \<exists>i. ID C t = Inr i" "(\<Sum>t\<leftarrow>txs. the (Value t) * the (Value t)) \<le> UINT256_MAX"
  shows "\<exists>L. atomicLayer C txs = Inr L"
  using assms
proof (induction txs)
  case (Cons t txs)
  obtain i where i: "ID C t = Inr i" using Cons.prems(1) by auto
  then obtain v where v: "Value t = Some v" using serializeUnsigned_value[of C t] by (auto simp: ID_def res_simps)
  have nn: "0 \<le> (\<Sum>t\<leftarrow>txs. the (Value t) * the (Value t))" by (induction txs) auto
  have nn': "0 \<le> v * v" by simp
  have "v * v \<le> UINT256_MAX" "(\<Sum>t\<leftarrow>txs. the (Value t) * the (Value t)) \<le> UINT256_MAX"
    using Cons.prems(2) nn nn' unfolding list.map sum_list.Cons v option.sel by linarith+
  moreover from this obtain n where "makeAtomicNode C t = Inr n" using makeAtomicNode_total[OF i v] by blast
  ultimately show ?case using Cons by (auto simp: atomicLayer_def)
qed (simp add: atomicLayer_def)

text \<open>C8. Incremental recomputation is sound and complete. Take a tree built from a block's transactions
and contract nodes, and a non-empty batch of updates of distinct transaction leaves: when the block with
the replaced transactions can be built from scratch, \<^verbatim>\<open>UpdateLeaves\<close> succeeds, its layers are those of
the fresh tree and \<^verbatim>\<open>Root\<close> returns the fresh root; when it cannot, \<^verbatim>\<open>UpdateLeaves\<close> reports an error.\<close>

theorem tree_update_is_rebuild:
  assumes "BuildTree C txs cns = Inr t" "sorts_by_index sortSlice" "us \<noteq> []" "distinct (map Index us)"
    and "\<forall>u\<in>set us. 0 \<le> Index u \<and> Index u < int (length txs)"
  shows "case BuildTree C (replaceTxs us txs) cns of
      Inr t2 \<Rightarrow> \<exists>t'. UpdateLeaves C sortSlice us t = (t', Inr ()) \<and> layers t' = layers t2 \<and>
                  snd (treeRoot C t') = cachedRoot t2
    | Inl _ \<Rightarrow> \<exists>t' e. UpdateLeaves C sortSlice us t = (t', Inl e)"
proof -
  have txs: "txs \<noteq> []" using assms(3,5) by (cases us) auto
  have len: "length txs \<le> TMax" using assms(1) txs by (simp add: BuildTree_Inr_iff)
  have rep: "length (replaceTxs us txs) = length txs" using replaceTxs_nth[OF assms(4,5)] by blast
  then have txs': "replaceTxs us txs \<noteq> []" using txs by auto
  from updateLeaves_cases[OF assms] show ?thesis
  proof (elim disjE exE conjE)
    fix txL' ls
    assume A: "atomicLayer C (replaceTxs us txs) = Inr txL'" "buildLayers C (txL' @ cns) = Inr ls"
      "UpdateLeaves C sortSlice us t = (t\<lparr>layers := ls, dirty := True\<rparr>, Inr ())"
    have L': "txL' \<noteq> []" using A(1) rep txs by (auto simp: atomicLayer_Inr_iff)
    then have "\<exists>r. nodeRoot C ((txL' @ cns) ! 0) = Inr r"
      using atomicLayer_sums(4)[OF A(1)] by (auto simp: nth_append)
    then obtain n r where "last ls = [n]" "nodeRoot C n = Inr r"
      using buildLayers_top[OF A(2)] L' by auto
    moreover from this have "BuildTree C (replaceTxs us txs) cns = Inr \<lparr>layers = ls, cachedRoot = r, dirty = False\<rparr>"
      using A txs' rep len by (auto simp: BuildTree_Inr_iff)
    ultimately show ?thesis using A(3) treeRoot_dirty[of "t\<lparr>layers := ls, dirty := True\<rparr>" n C] by simp
  next
    fix t' e
    assume B: "\<forall>txL'. atomicLayer C (replaceTxs us txs) = Inr txL' \<longrightarrow> (\<exists>e. buildLayers C (txL' @ cns) = Inl e)"
      "UpdateLeaves C sortSlice us t = (t', Inl e)"
    then have "BuildTree C (replaceTxs us txs) cns \<noteq> Inr t2" for t2
      using txs' BuildTree_Inr_iff[of "replaceTxs us txs" cns C t2] by fastforce
    then show ?thesis using B(2) by (auto split: sum.splits)
  qed
qed

lemma sample_sort: "sorts_by_index (sort_key Index)"
  by (simp add: sorts_by_index_def)

lemma sampleTree:
  obtains t where "BuildTree sample_crypto [sampleTx] [] = Inr t"
proof -
  have "case BuildTree sample_crypto [sampleTx] [] of Inr _ \<Rightarrow> True | Inl _ \<Rightarrow> False" by code_simp
  with that show ?thesis by (auto split: sum.splits)
qed

lemma sampleUpdatedTree:
  obtains t where "BuildTree sample_crypto [sampleTx\<lparr>Value := Some 7\<rparr>] [] = Inr t"
proof -
  have "case BuildTree sample_crypto [sampleTx\<lparr>Value := Some 7\<rparr>] [] of Inr _ \<Rightarrow> True | Inl _ \<Rightarrow> False" by code_simp
  with that show ?thesis by (auto split: sum.splits)
qed

theorem tree_update_is_rebuild_witness:
  "\<exists>t t2 t'. BuildTree sample_crypto [sampleTx] [] = Inr t \<and>
     BuildTree sample_crypto [sampleTx\<lparr>Value := Some 7\<rparr>] [] = Inr t2 \<and>
     UpdateLeaves sample_crypto (sort_key Index) [\<lparr>Index = 0, UpdTx = sampleTx\<lparr>Value := Some 7\<rparr>\<rparr>] t = (t', Inr ()) \<and>
     snd (treeRoot sample_crypto t') = cachedRoot t2"
proof -
  obtain t where t: "BuildTree sample_crypto [sampleTx] [] = Inr t" by (rule sampleTree)
  obtain t2 where t2: "BuildTree sample_crypto [sampleTx\<lparr>Value := Some 7\<rparr>] [] = Inr t2" by (rule sampleUpdatedTree)
  from tree_update_is_rebuild[OF t sample_sort, of "[\<lparr>Index = 0, UpdTx = sampleTx\<lparr>Value := Some 7\<rparr>\<rparr>]"] t t2
  show ?thesis by auto
qed

text \<open>C30. Within the limits a block's tree can always be built, and its top node is the block's summary:
at most 65,536 transactions that serialise, with a sum of squared values below $2^{256}$, give a tree
whose single top node has the total volume, the sum of squares and the number of the transactions, and
whose hash is the root.\<close>

theorem tree_build_total:
  assumes "txs \<noteq> []" "length txs \<le> 65536" "\<forall>t\<in>set txs. \<exists>i. ID C t = Inr i"
    and "(\<Sum>t\<leftarrow>txs. the (Value t) * the (Value t)) \<le> UINT256_MAX"
  shows "\<exists>t n. BuildTree C txs [] = Inr t \<and> last (layers t) = [n] \<and> nodeRoot C n = Inr (cachedRoot t) \<and>
    uint (Volume n) = (\<Sum>t\<leftarrow>txs. the (Value t)) \<and>
    uint (SumSquares n) = (\<Sum>t\<leftarrow>txs. the (Value t) * the (Value t)) \<and> Count n = of_nat (length txs)"
proof -
  obtain L where L: "atomicLayer C txs = Inr L" using atomicLayer_total[OF assms(3,4)] by blast
  note sums = atomicLayer_sums[OF L]
  have L0: "L \<noteq> []" "length L = length txs" using L assms(1) by (auto simp: atomicLayer_Inr_iff)
  have sc: "Scale (L ! 0) = 4 ^ 0" using sums(4) L0(1) by (metis length_greater_0_conv nth_mem power_0)
  have vol: "volumeSum L \<le> squareSum L"
    using sums(4) by (simp add: sums(1,2)) (rule sum_list_mono, metis int_le_square)
  obtain ls n r where ls: "buildLayers C L = Inr ls" "last ls = [n]" "nodeRoot C n = Inr r"
    using buildLayers_total[OF L0(1) sc, of C] L0 assms(2,4) sums vol by auto
  then have "BuildTree C txs [] = Inr \<lparr>layers = ls, cachedRoot = r, dirty = False\<rparr>"
    using assms(1,2) L by (simp add: BuildTree_Inr_iff)
  moreover have "[n] \<in> set ls" using ls(2) buildLayers_law[OF ls(1)] by (metis last_in_set)
  moreover note buildLayers_law[OF ls(1)]
  ultimately show ?thesis using ls sums by (intro exI[of _ "\<lparr>layers = ls, cachedRoot = r, dirty = False\<rparr>"] exI[of _ n]) auto
qed

theorem tree_build_total_witness:
  "\<exists>t n. BuildTree sample_crypto [sampleTx] [] = Inr t \<and> last (layers t) = [n] \<and>
     uint (Volume n) = 5 \<and> uint (SumSquares n) = 25 \<and> Count n = 1"
proof -
  have "case ID sample_crypto sampleTx of Inr _ \<Rightarrow> True | Inl _ \<Rightarrow> False" by code_simp
  then have "\<exists>i. ID sample_crypto sampleTx = Inr i" by (auto split: sum.splits)
  moreover have "Value sampleTx = Some 5" by (simp add: sampleTx_def)
  ultimately show ?thesis using tree_build_total[of "[sampleTx]" sample_crypto] by (auto simp: UINT256_MAX_def)
qed

text \<open>The layer scales stop at $4^8$, so a tree holds at most 65,536 leaves in all: transactions and
touched contracts together. A block of 65,536 transactions (the limit \<^verbatim>\<open>BuildTree\<close> itself checks) that
touches one contract cannot be built.\<close>

theorem tree_capacity:
  assumes "BuildTree C txs cns = Inr t" "\<forall>n\<in>set cns. Scale n = 1"
  shows "length txs + length cns \<le> 65536"
proof (cases "txs = [] \<and> cns = []")
  case False
  then obtain txL where txL: "atomicLayer C txs = Inr txL" and bl: "buildLayers C (txL @ cns) = Inr (layers t)"
    using assms(1) BuildTree_Inr_iff[of txs cns C t] by auto
  have len: "length txL = length txs" using txL by (simp add: atomicLayer_Inr_iff)
  have ne: "txL @ cns \<noteq> []" using False len by auto
  then have "(txL @ cns) ! 0 \<in> set (txL @ cns)" by (metis length_greater_0_conv nth_mem)
  then have "Scale ((txL @ cns) ! 0) = 4 ^ 0"
    using assms(2) atomicLayer_sums(4)[OF txL] by auto
  from buildLayers_capacity[OF bl ne this] show ?thesis by (simp add: len)
qed simp

theorem tree_capacity_witness:
  "\<exists>t. BuildTree sample_crypto [sampleTx] [] = Inr t \<and> length [sampleTx] \<le> 65536"
proof -
  obtain t where t: "BuildTree sample_crypto [sampleTx] [] = Inr t" by (rule sampleTree)
  from tree_capacity[OF t] t show ?thesis by simp
qed

end
