(* ===== verification/FRG_Proof.thy ===== *)
theory FRG_Proof
  imports FRG_Tree
begin

text \<open>
  \<^verbatim>\<open>core/tree/proof.go\<close>: inclusion proofs, generated from the transactions or from a retained tree,
  and their two verifiers, the one that hashes nodes and the one that writes the hashed bytes
  directly.
\<close>

section \<open>Proofs\<close>

text \<open>\<^verbatim>\<open>Siblings\<close> is an array of three roots.\<close>

record ProofStep =
  StepScale :: u32
  StepVolume :: bytes32
  StepVariance :: bytes32
  StepSig :: u8
  Siblings :: "bytes32 list"
  ChildIdx :: u8

record InclusionProof =
  Steps :: "ProofStep list"

definition leafStep :: "RGNode \<Rightarrow> ProofStep" where
  "leafStep leaf = \<lparr>StepScale = Scale leaf, StepVolume = Volume leaf, StepVariance = Variance leaf,
     StepSig = Sig leaf, Siblings = replicate 3 0, ChildIdx = 0\<rparr>"

text \<open>The roots of the other nodes of the chunk, then null nodes up to three.\<close>

definition chunkSiblings :: "crypto \<Rightarrow> RGNode list \<Rightarrow> nat \<Rightarrow> bytes32 list res" where
  "chunkSiblings C layer idx =
     (let chunkStart = idx div K * K;
          positions = filter (\<lambda>j. j \<noteq> idx) [chunkStart..<min (chunkStart + K) (length layer)] in
      rbind (rmap (\<lambda>j. nodeRoot C (layer ! j)) positions) (\<lambda>siblings.
      rbind (rmap (\<lambda>_. rbind (NullNode C (Scale (layer ! 0))) (nodeRoot C))
               [0..<3 - length siblings]) (\<lambda>pads.
      Inr (siblings @ pads))))"

definition proofStep :: "RGNode \<Rightarrow> bytes32 list \<Rightarrow> nat \<Rightarrow> ProofStep" where
  "proofStep parent siblings idx = \<lparr>StepScale = Scale parent, StepVolume = Volume parent,
     StepVariance = Variance parent, StepSig = Sig parent, Siblings = siblings,
     ChildIdx = of_nat (idx - idx div K * K)\<rparr>"

text \<open>\<^verbatim>\<open>generateStepProof\<close> coarsens the layer as it goes.\<close>

function stepProof :: "crypto \<Rightarrow> RGNode list \<Rightarrow> nat \<Rightarrow> ProofStep list res" where
  "stepProof C layer idx =
     (if length layer \<le> 1 then Inr []
      else rbind (chunkSiblings C layer idx) (\<lambda>siblings.
           rbind (coarsenLayer C layer) (\<lambda>nextLayer.
           let chunkIdx = idx div K in
           rguard (chunkIdx \<ge> length nextLayer) Panic
           (rbind (stepProof C nextLayer chunkIdx) (\<lambda>rest.
            Inr (proofStep (nextLayer ! chunkIdx) siblings idx # rest))))))"
  by pat_completeness auto
termination
proof (relation "measure (\<lambda>(C, layer, idx). length layer)")
  fix C :: crypto and layer nxt :: "RGNode list" and idx sibs c
  assume "\<not> length layer \<le> 1" "coarsenLayer C layer = Inr nxt"
  then show "((C, nxt, c), C, layer, idx) \<in> measure (\<lambda>(C, layer, idx). length layer)"
    using coarsenLayer_length[of C layer nxt] by auto
qed simp

declare stepProof.simps [simp del]

definition generateStepProof :: "crypto \<Rightarrow> Tx list \<Rightarrow> int \<Rightarrow> InclusionProof res" where
  "generateStepProof C txs idx =
     rguard (idx < 0 \<or> idx \<ge> int (length txs)) canonErr
     (rbind (atomicLayer C txs) (\<lambda>layer.
      rbind (stepProof C layer (nat idx)) (\<lambda>steps.
      Inr \<lparr>Steps = leafStep (layer ! nat idx) # steps\<rparr>)))"

definition GenerateProof :: "crypto \<Rightarrow> Tx list \<Rightarrow> int \<Rightarrow> InclusionProof res" where
  "GenerateProof C txs idx = generateStepProof C txs idx"

text \<open>The method of the retained tree reads the layers it has.\<close>

fun treeProof :: "crypto \<Rightarrow> RGNode list list \<Rightarrow> nat \<Rightarrow> ProofStep list res" where
  "treeProof C (layer # parents # rest) idx =
     rbind (chunkSiblings C layer idx) (\<lambda>siblings.
      let chunkIdx = idx div K in
      rguard (chunkIdx \<ge> length parents) Panic
      (rbind (treeProof C (parents # rest) chunkIdx) (\<lambda>steps.
       Inr (proofStep (parents ! chunkIdx) siblings idx # steps))))"
| "treeProof C ls idx = Inr []"

definition Tree_GenerateProof :: "crypto \<Rightarrow> Tree \<Rightarrow> int \<Rightarrow> InclusionProof res" where
  "Tree_GenerateProof C t idx =
     (let leaves = layers t ! 0 in
      rguard (idx < 0 \<or> idx \<ge> int (length leaves)) canonErr
      (rbind (treeProof C (layers t) (nat idx)) (\<lambda>steps.
       Inr \<lparr>Steps = leafStep (leaves ! nat idx) # steps\<rparr>)))"


section \<open>Verification\<close>

definition stepNode :: "ProofStep \<Rightarrow> bytes32 list \<Rightarrow> RGNode" where
  "stepNode st children = \<lparr>Scale = StepScale st, Volume = StepVolume st, Variance = StepVariance st,
     Sig = StepSig st, Children = children, SumSquares = 0, Count = 0, ContractCount = 0\<rparr>"

text \<open>The loop over the four slots: the running root at the child's slot, the siblings in order
  elsewhere; with three siblings already used a slot stays zero.\<close>

fun fillChildren :: "u8 \<Rightarrow> bytes32 \<Rightarrow> bytes32 list \<Rightarrow> nat list \<Rightarrow> bytes32 list" where
  "fillChildren childIdx current siblings [] = []"
| "fillChildren childIdx current siblings (j # js) =
     (if of_nat j = childIdx then current # fillChildren childIdx current siblings js
      else case siblings of
             s # ss \<Rightarrow> s # fillChildren childIdx current ss js
           | [] \<Rightarrow> 0 # fillChildren childIdx current [] js)"

definition canonicalStep :: "crypto \<Rightarrow> ProofStep \<Rightarrow> bytes32 \<Rightarrow> bytes32 res" where
  "canonicalStep C st current =
     nodeRoot C (stepNode st (fillChildren (ChildIdx st) current (take 3 (Siblings st)) [0..<4]))"

definition verifyProofCanonical :: "crypto \<Rightarrow> InclusionProof option \<Rightarrow> bytes32 \<Rightarrow> bytes32 \<Rightarrow> bool" where
  "verifyProofCanonical C p txID expectedRoot =
     (case p of None \<Rightarrow> False
      | Some p \<Rightarrow>
         (case Steps p of [] \<Rightarrow> False
          | leaf # steps \<Rightarrow>
             if StepScale leaf \<noteq> 1 then False
             else case rbind (nodeRoot C (stepNode leaf [txID])) (rfold (canonicalStep C) steps) of
                    Inl _ \<Rightarrow> False
                  | Inr current \<Rightarrow> current = expectedRoot))"

definition VerifyProofCanonical :: "crypto \<Rightarrow> InclusionProof option \<Rightarrow> bytes32 \<Rightarrow> bytes32 \<Rightarrow> bool" where
  "VerifyProofCanonical C p txID expectedRoot = verifyProofCanonical C p txID expectedRoot"

text \<open>The fast verifier writes the bytes of a node without any check of its scale.\<close>

definition nodeBytes :: "u32 \<Rightarrow> bytes32 \<Rightarrow> bytes32 \<Rightarrow> u8 \<Rightarrow> bytes32 list \<Rightarrow> bytes" where
  "nodeBytes scale volume variance sig children =
     DomainRGNode @ PutUint32 scale @ arr32 volume @ arr32 variance @ [sig]
       @ PutUint16 (of_nat (length children)) @ concat (map arr32 children)"

text \<open>\<open>Siblings[sibIdx]\<close> panics for index three.\<close>

definition fastChild :: "ProofStep \<Rightarrow> bytes32 \<Rightarrow> nat \<Rightarrow> bytes32 res" where
  "fastChild st current j =
     (if of_nat j = ChildIdx st then Inr current
      else let sibIdx = (if of_nat j > ChildIdx st then j - 1 else j) in
        rguard (sibIdx \<ge> 3) Panic (Inr (Siblings st ! sibIdx)))"

definition fastStep :: "crypto \<Rightarrow> ProofStep \<Rightarrow> bytes32 \<Rightarrow> bytes32 res" where
  "fastStep C st current =
     rbind (rmap (fastChild st current) [0..<4]) (\<lambda>children.
      Inr (Hash C (nodeBytes (StepScale st) (StepVolume st) (StepVariance st) (StepSig st) children)))"

definition VerifyProof :: "crypto \<Rightarrow> InclusionProof option \<Rightarrow> bytes32 \<Rightarrow> bytes32 \<Rightarrow> bool res" where
  "VerifyProof C p txID expectedRoot =
     (case p of None \<Rightarrow> Inr False
      | Some p \<Rightarrow>
         (case Steps p of [] \<Rightarrow> Inr False
          | leaf # steps \<Rightarrow>
             if StepScale leaf \<noteq> 1 then Inr False
             else let current = Hash C (nodeBytes 1 (StepVolume leaf) (StepVariance leaf) (StepSig leaf) [txID]) in
               rbind (rfold (fastStep C) steps current) (\<lambda>current. Inr (current = expectedRoot))))"


section \<open>Generated proofs verify\<close>

lemma times4_neq_1: "(s :: u32) * 4 \<noteq> 1"
proof
  assume "s * 4 = 1"
  then have "even (1 :: u32)" by (metis dvd_mult2 dvd_triv_right even_numeral mult.commute)
  then show False by simp
qed

lemma of_nat_less_4: "k < 4 \<Longrightarrow> (of_nat k :: u8) < 4"
  by (simp add: word_less_nat_alt unat_of_nat take_bit_eq_mod)

lemma coarsenLayer_children:
  assumes "coarsenLayer C L = Inr N" "c < length N"
  obtains rs pads where "rmap (nodeRoot C) (chunks L ! c @ pads) = Inr rs" "length rs = 4" "Children (N ! c) = rs"
    "length pads = 4 - length (chunks L ! c)" "\<forall>p\<in>set pads. NullNode C (Scale (L ! 0)) = Inr p"
proof -
  have c: "c < length (chunks L)" using assms by (simp add: coarsenLayer_Inr_iff)
  from assms(1) c have "rebuildChunk C L (c * K) = Inr (N ! c)" by (simp add: coarsenLayer_Inr_iff)
  then obtain ch where ch: "padChunk C (Scale (L ! 0)) (chunks L ! c) = Inr ch"
    and n: "coarseGrain C ch (Scale (L ! 0) * 4) = Inr (N ! c)"
    by (auto simp: rebuildChunk_chunks[OF c] res_simps)
  obtain pads where pads: "ch = chunks L ! c @ pads" "length pads = 4 - length (chunks L ! c)"
    "\<forall>p\<in>set pads. NullNode C (Scale (L ! 0)) = Inr p" using padChunk_Inr[OF ch] by blast
  have "length (chunks L ! c) \<le> 4" using chunks_lengths[of "chunks L ! c" L] c by simp
  then have "length ch = 4" using pads by simp
  moreover obtain rs where "rmap (nodeRoot C) ch = Inr rs" "Children (N ! c) = rs @ replicate (4 - length rs) 0"
    using coarseGrain_law(8)[OF n] by blast
  ultimately show ?thesis using pads by (intro that[of pads rs]) (auto simp: rmap_length)
qed

lemma chunk_position:
  assumes "idx < length L"
  shows "idx div 4 < length (chunks L)" "idx mod 4 < length (chunks L ! (idx div 4))"
    "length (chunks L ! (idx div 4)) = min 4 (length L - idx div 4 * 4)"
    "\<And>i. i < length (chunks L ! (idx div 4)) \<Longrightarrow> chunks L ! (idx div 4) ! i = L ! (idx div 4 * 4 + i)"
proof -
  show c: "idx div 4 < length (chunks L)" using assms by (auto simp: length_chunks)
  have e: "chunks L ! (idx div 4) = take 4 (drop (idx div 4 * 4) L)" using chunks_nth[OF c] by simp
  show "length (chunks L ! (idx div 4)) = min 4 (length L - idx div 4 * 4)" by (simp add: e min.commute)
  have "idx mod 4 = idx - idx div 4 * 4" by (simp add: minus_div_mult_eq_mod)
  then show "idx mod 4 < length (chunks L ! (idx div 4))" using assms by (simp add: e diff_less_mono)
  show "\<And>i. i < length (chunks L ! (idx div 4)) \<Longrightarrow> chunks L ! (idx div 4) ! i = L ! (idx div 4 * 4 + i)"
    by (auto simp: e)
qed

lemma filter_upt_neq:
  assumes "a \<le> x" "x < b"
  shows "filter (\<lambda>j. j \<noteq> x) [a..<b] = [a..<x] @ [Suc x..<b]"
proof -
  have "[a..<b] = [a..<x] @ x # [Suc x..<b]"
    using assms upt_add_eq_append[of a x "b - x"] upt_conv_Cons[of x b] by simp
  then show ?thesis by (auto simp: filter_id_conv)
qed

lemma chunkSiblings_eq:
  assumes "coarsenLayer C L = Inr N" "idx < length L"
  obtains rs where "Children (N ! (idx div 4)) = rs" "length rs = 4"
    "chunkSiblings C L idx = Inr (take (idx mod 4) rs @ drop (Suc (idx mod 4)) rs)"
    "nodeRoot C (L ! idx) = Inr (rs ! (idx mod 4))"
proof -
  let ?c = "idx div 4" and ?k = "idx mod 4"
  let ?m = "length (chunks L ! ?c)"
  note pos = chunk_position[OF assms(2)]
  have "?c < length N" using pos(1) assms(1) by (simp add: coarsenLayer_Inr_iff)
  then obtain rs pads where rs: "rmap (nodeRoot C) (chunks L ! ?c @ pads) = Inr rs" "length rs = 4"
      "Children (N ! ?c) = rs" "length pads = 4 - ?m" "\<forall>p\<in>set pads. NullNode C (Scale (L ! 0)) = Inr p"
    using coarsenLayer_children[OF assms(1)] by metis
  have m: "?m \<le> 4" "?k < ?m" using pos by auto
  have idx: "idx = ?c * 4 + ?k" by simp
  have real: "nodeRoot C (L ! (?c * 4 + i)) = Inr (rs ! i)" if "i < ?m" for i
    using rs(1) that pos(4)[OF that] by (auto simp: rmap_Inr_iff nth_append dest: spec[of _ i])
  have pad: "rbind (NullNode C (Scale (L ! 0))) (nodeRoot C) = Inr (rs ! (?m + i))" if "i < 4 - ?m" for i
  proof -
    have "nodeRoot C (pads ! i) = Inr (rs ! (?m + i))"
      using rs(1,4) that by (auto simp: rmap_Inr_iff nth_append dest: spec[of _ "?m + i"])
    moreover have "NullNode C (Scale (L ! 0)) = Inr (pads ! i)" using rs(4,5) that by simp
    ultimately show ?thesis by simp
  qed
  have "rmap (\<lambda>j. nodeRoot C (L ! j)) [?c * 4..<idx] = Inr (take ?k rs)"
  proof -
    have "[?c * 4..<idx] ! i = ?c * 4 + i" if "i < ?k" for i
      using that idx by (intro nth_upt) linarith
    then show ?thesis using real m rs(2) by (auto simp: rmap_Inr_iff minus_div_mult_eq_mod)
  qed
  moreover have "rmap (\<lambda>j. nodeRoot C (L ! j)) [Suc idx..<?c * 4 + ?m] = Inr (drop (Suc ?k) (take ?m rs))"
  proof -
    have "nodeRoot C (L ! (Suc idx + i)) = Inr (drop (Suc ?k) (take ?m rs) ! i)" if "i < ?m - Suc ?k" for i
      using real[of "Suc ?k + i"] that m rs(2) by (simp add: add.assoc[symmetric])
    moreover have "?c * 4 + ?m - Suc idx = ?m - Suc ?k" using idx by linarith
    moreover have "[Suc idx..<?c * 4 + ?m] ! i = Suc idx + i" if "i < ?m - Suc ?k" for i
      using that idx by (intro nth_upt) linarith
    ultimately show ?thesis using m rs(2) by (auto simp: rmap_Inr_iff)
  qed
  moreover have "min (?c * 4 + 4) (length L) = ?c * 4 + ?m" using pos(3) assms(2) by (auto simp: min_def)
  ultimately have sib: "rmap (\<lambda>j. nodeRoot C (L ! j)) (filter (\<lambda>j. j \<noteq> idx) [?c * 4..<min (?c * 4 + 4) (length L)])
      = Inr (take ?k rs @ drop (Suc ?k) (take ?m rs))"
    using filter_upt_neq[of "?c * 4" idx "?c * 4 + ?m"] m idx by (simp add: rmap_append)
  have pads: "rmap (\<lambda>_. rbind (NullNode C (Scale (L ! 0))) (nodeRoot C)) [0..<4 - ?m] = Inr (drop ?m rs)"
    using pad rs(2) m by (auto simp: rmap_Inr_iff)
  have "3 - length (take ?k rs @ drop (Suc ?k) (take ?m rs)) = 4 - ?m" using rs(2) m by auto
  moreover have "drop (Suc ?k) (take ?m rs) @ drop ?m rs = drop (Suc ?k) rs"
    using m rs(2) drop_append[of "Suc ?k" "take ?m rs" "drop ?m rs"] by simp
  ultimately have "chunkSiblings C L idx = Inr (take ?k rs @ drop (Suc ?k) rs)"
    using sib pads by (simp add: chunkSiblings_def Let_def)
  with that[OF rs(3,2)] real[OF m(2)] show ?thesis by simp
qed

lemma fillChildren_eq:
  assumes "length rs = 4" "k < 4"
  shows "fillChildren (of_nat k) (rs ! k) (take k rs @ drop (Suc k) rs) [0..<4] = rs"
proof -
  obtain a b c d where "rs = [a, b, c, d]" using assms(1) by (auto simp: length_Suc_conv numeral_eq_Suc)
  moreover have "k = 0 \<or> k = 1 \<or> k = 2 \<or> k = 3" using assms(2) by auto
  ultimately show ?thesis by (auto simp: upt_rec)
qed

lemma nodeRoot_cong:
  "Scale n = Scale m \<Longrightarrow> Volume n = Volume m \<Longrightarrow> Variance n = Variance m \<Longrightarrow> Sig n = Sig m \<Longrightarrow>
   Children n = Children m \<Longrightarrow> nodeRoot C n = nodeRoot C m"
  by (simp add: nodeRoot_def nodeSerialize_def)

lemma proofStep_verifies:
  assumes "coarsenLayer C L = Inr N" "idx < length L"
  obtains sibs cur where "chunkSiblings C L idx = Inr sibs" "nodeRoot C (L ! idx) = Inr cur" "length sibs = 3"
    "canonicalStep C (proofStep (N ! (idx div 4)) sibs idx) cur = nodeRoot C (N ! (idx div 4))"
proof -
  obtain rs where rs: "Children (N ! (idx div 4)) = rs" "length rs = 4"
    "chunkSiblings C L idx = Inr (take (idx mod 4) rs @ drop (Suc (idx mod 4)) rs)"
    "nodeRoot C (L ! idx) = Inr (rs ! (idx mod 4))" using chunkSiblings_eq[OF assms] by blast
  let ?s = "take (idx mod 4) rs @ drop (Suc (idx mod 4)) rs"
  have k: "idx mod 4 < 4" by simp
  have len: "length ?s = 3" using rs(2) k by auto
  have "canonicalStep C (proofStep (N ! (idx div 4)) ?s idx) (rs ! (idx mod 4)) = nodeRoot C (N ! (idx div 4))"
    using fillChildren_eq[OF rs(2) k] len rs(1)
    by (auto simp: canonicalStep_def proofStep_def stepNode_def minus_div_mult_eq_mod intro!: nodeRoot_cong)
  with that rs len show ?thesis by blast
qed

lemma stepProof_step:
  "\<not> length L \<le> 1 \<Longrightarrow> stepProof C L idx =
     rbind (chunkSiblings C L idx) (\<lambda>siblings. rbind (coarsenLayer C L) (\<lambda>nextLayer.
       rguard (idx div K \<ge> length nextLayer) Panic (rbind (stepProof C nextLayer (idx div K)) (\<lambda>rest.
         Inr (proofStep (nextLayer ! (idx div K)) siblings idx # rest)))))"
  by (subst stepProof.simps) (simp add: Let_def)

lemma stepProof_complete:
  assumes "buildLayers C L = Inr ls" "idx < length L" "nodeRoot C (L ! idx) = Inr cur"
  shows "\<exists>steps top. stepProof C L idx = Inr steps \<and> treeProof C ls idx = Inr steps \<and> last ls = [top] \<and>
    rfold (canonicalStep C) steps cur = nodeRoot C top \<and> (\<exists>r. nodeRoot C top = Inr r) \<and>
    (\<forall>st\<in>set steps. ChildIdx st < 4 \<and> length (Siblings st) = 3 \<and> ValidScale (StepScale st) \<and> StepScale st \<noteq> 1)"
  using assms
proof (induction C L arbitrary: ls idx cur rule: buildLayers.induct)
  case (1 C L)
  show ?case
  proof (cases "length L \<le> 1")
    case True
    then obtain n where "L = [n]" using "1.prems"(2) by (cases L) auto
    with "1.prems" show ?thesis
      by (auto simp: buildLayers_base stepProof.simps[of C "[n]"])
  next
    case False
    from "1.prems"(1) obtain N rest where N: "coarsenLayer C L = Inr N" and rest: "buildLayers C N = Inr rest"
      and ls: "ls = L # rest"
      by (auto simp: buildLayers_step[OF False] res_simps)
    obtain rest' where rest': "rest = N # rest'" using buildLayers_law[OF rest] by (cases rest) auto
    let ?c = "idx div 4"
    have c: "?c < length N" using chunk_position(1)[OF "1.prems"(2)] N by (simp add: coarsenLayer_Inr_iff)
    obtain sibs cur' where s: "chunkSiblings C L idx = Inr sibs" "nodeRoot C (L ! idx) = Inr cur'" "length sibs = 3"
      "canonicalStep C (proofStep (N ! ?c) sibs idx) cur' = nodeRoot C (N ! ?c)"
      using proofStep_verifies[OF N "1.prems"(2)] .
    obtain r where r: "nodeRoot C (N ! ?c) = Inr r" using coarsenLayer_roots[OF N, of "N ! ?c"] c by auto
    from "1.IH"[OF False N rest c r] obtain steps top where IH:
      "stepProof C N ?c = Inr steps" "treeProof C rest ?c = Inr steps" "last rest = [top]"
      "rfold (canonicalStep C) steps r = nodeRoot C top" "\<exists>r. nodeRoot C top = Inr r"
      "\<forall>st\<in>set steps. ChildIdx st < 4 \<and> length (Siblings st) = 3 \<and> ValidScale (StepScale st) \<and> StepScale st \<noteq> 1"
      by blast
    have "Scale (N ! ?c) \<noteq> 1 \<and> ValidScale (Scale (N ! ?c))"
    proof -
      have "Scale (N ! ?c) = Scale (L ! 0) * 4" "ValidScale (Scale (L ! 0) * 4)"
        using coarsenLayer_law[OF N] c by auto
      moreover have "Scale (L ! 0) * 4 \<noteq> 1" by (rule times4_neq_1)
      ultimately show ?thesis by simp
    qed
    moreover have "(of_nat (idx - ?c * 4) :: u8) < 4"
      by (rule of_nat_less_4) (simp add: minus_div_mult_eq_mod)
    ultimately have st: "ChildIdx (proofStep (N ! ?c) sibs idx) < 4 \<and> length (Siblings (proofStep (N ! ?c) sibs idx)) = 3 \<and>
       ValidScale (StepScale (proofStep (N ! ?c) sibs idx)) \<and> StepScale (proofStep (N ! ?c) sibs idx) \<noteq> 1"
      using s(3) by (simp add: proofStep_def)
    show ?thesis
      using IH s N c st r "1.prems"(3)
      by (intro exI[of _ "proofStep (N ! ?c) sibs idx # steps"] exI[of _ top])
        (simp add: stepProof_step[OF False] ls rest' Let_def)
  qed
qed


section \<open>The two verifiers agree\<close>

definition wellShaped :: "ProofStep \<Rightarrow> bool" where
  "wellShaped st \<longleftrightarrow> ChildIdx st < 4 \<and> length (Siblings st) = 3 \<and> ValidScale (StepScale st) \<and> StepScale st \<noteq> 1"

lemma u8_less_4: "(k :: u8) < 4 \<Longrightarrow> k = 0 \<or> k = 1 \<or> k = 2 \<or> k = 3"
proof -
  assume "k < 4"
  then have "unat k < 4" by (simp add: word_less_nat_alt)
  then have "unat k = 0 \<or> unat k = 1 \<or> unat k = 2 \<or> unat k = 3" by auto
  then have "k = of_nat 0 \<or> k = of_nat 1 \<or> k = of_nat 2 \<or> k = of_nat 3" by (metis of_nat_unat ucast_id)
  then show ?thesis by simp
qed

lemma fillChildren_fast:
  assumes "ChildIdx st < 4" "length (Siblings st) = 3"
  shows "rmap (fastChild st cur) [0..<4] = Inr (fillChildren (ChildIdx st) cur (take 3 (Siblings st)) [0..<4])"
    "length (fillChildren (ChildIdx st) cur (take 3 (Siblings st)) [0..<4]) = 4"
    "cur \<in> set (fillChildren (ChildIdx st) cur (take 3 (Siblings st)) [0..<4])"
proof -
  obtain a b c where "Siblings st = [a, b, c]" using assms(2) by (auto simp: length_Suc_conv numeral_eq_Suc)
  with u8_less_4[OF assms(1)]
  show "rmap (fastChild st cur) [0..<4] = Inr (fillChildren (ChildIdx st) cur (take 3 (Siblings st)) [0..<4])"
    "length (fillChildren (ChildIdx st) cur (take 3 (Siblings st)) [0..<4]) = 4"
    "cur \<in> set (fillChildren (ChildIdx st) cur (take 3 (Siblings st)) [0..<4])"
    by (auto simp: upt_rec fastChild_def Let_def rguard_def)
qed

lemma nodeRoot_nodeBytes:
  "ValidScale (Scale n) \<Longrightarrow> length (Children n) = (if Scale n = 1 then 1 else 4) \<Longrightarrow>
   nodeRoot C n = Inr (Hash C (nodeBytes (Scale n) (Volume n) (Variance n) (Sig n) (Children n)))"
  by (simp add: nodeRoot_Inr_iff nodeSerialize_Inr_iff nodeBytes_def)

lemma fastStep_canonical: "wellShaped st \<Longrightarrow> fastStep C st cur = canonicalStep C st cur"
  using fillChildren_fast[of st cur]
    nodeRoot_nodeBytes[of "stepNode st (fillChildren (ChildIdx st) cur (take 3 (Siblings st)) [0..<4])" C]
  by (simp add: wellShaped_def fastStep_def canonicalStep_def stepNode_def)

lemma fastSteps_canonical:
  "\<forall>st\<in>set steps. wellShaped st \<Longrightarrow> rfold (fastStep C) steps cur = rfold (canonicalStep C) steps cur \<and>
     (\<exists>r. rfold (canonicalStep C) steps cur = Inr r)"
proof (induction steps arbitrary: cur)
  case (Cons st steps)
  have "\<exists>c. fastStep C st cur = Inr c"
    using Cons.prems fillChildren_fast(1)[of st cur] by (auto simp: fastStep_def wellShaped_def)
  then obtain c where c: "fastStep C st cur = Inr c" by blast
  with fastStep_canonical Cons.prems have "canonicalStep C st cur = Inr c" by (metis list.set_intros(1))
  with Cons c show ?case by simp
qed simp

lemma leaf_root:
  "StepScale leaf = 1 \<Longrightarrow> nodeRoot C (stepNode leaf [txID]) =
     Inr (Hash C (nodeBytes 1 (StepVolume leaf) (StepVariance leaf) (StepSig leaf) [txID]))"
  using nodeRoot_nodeBytes[of "stepNode leaf [txID]" C] by (simp add: stepNode_def ValidScale_def validScales_def)

lemma fastStep_panics:
  assumes "4 \<le> ChildIdx st"
  shows "fastStep C st cur = Inl Panic"
proof -
  have "(of_nat j :: u8) < ChildIdx st" if "j < 4" for j
    using of_nat_less_4[OF that] assms by (rule order.strict_trans2)
  from this[of 0] this[of 1] this[of 2] this[of 3] have "0 < ChildIdx st" "1 < ChildIdx st" "2 < ChildIdx st" "3 < ChildIdx st"
    by simp_all
  then show ?thesis
    by (simp add: fastStep_def upt_rec fastChild_def Let_def rguard_def) auto
qed

lemma verify_shaped:
  assumes shaped: "\<forall>st\<in>set (drop 1 (Steps p)). wellShaped st"
  shows "VerifyProof C (Some p) txID expectedRoot = Inr (VerifyProofCanonical C (Some p) txID expectedRoot)"
proof (cases "Steps p")
  case Nil
  then show ?thesis by (simp add: VerifyProof_def VerifyProofCanonical_def verifyProofCanonical_def)
next
  case (Cons leaf steps)
  from shaped Cons have "\<forall>st\<in>set steps. wellShaped st" by simp
  from fastSteps_canonical[OF this, of C "Hash C (nodeBytes 1 (StepVolume leaf) (StepVariance leaf) (StepSig leaf) [txID])"]
  show ?thesis
    by (auto simp: VerifyProof_def VerifyProofCanonical_def verifyProofCanonical_def Cons leaf_root Let_def)
qed

text \<open>C31. The fast verifier that writes the hashed bytes by hand and the one that hashes nodes give the same
answer on every proof whose inner steps are well shaped: a child index below four, three siblings and a
layer scale above one. Outside that shape they differ: the fast verifier indexes past the siblings and
panics on a child index of four or more.\<close>

theorem proof_verifiers_agree:
  "((\<forall>st\<in>set (drop 1 (Steps p)). wellShaped st) \<longrightarrow>
      VerifyProof C (Some p) txID expectedRoot = Inr (VerifyProofCanonical C (Some p) txID expectedRoot)) \<and>
   (Steps p = leaf # st # rest \<and> StepScale leaf = 1 \<and> 4 \<le> ChildIdx st \<longrightarrow>
      VerifyProof C (Some p) txID expectedRoot = Inl Panic)"
proof (intro conjI impI)
  assume "\<forall>st\<in>set (drop 1 (Steps p)). wellShaped st"
  then show "VerifyProof C (Some p) txID expectedRoot = Inr (VerifyProofCanonical C (Some p) txID expectedRoot)"
    by (rule verify_shaped)
next
  assume bad: "Steps p = leaf # st # rest \<and> StepScale leaf = 1 \<and> 4 \<le> ChildIdx st"
  then have "fastStep C st cur = Inl Panic" for cur using fastStep_panics by blast
  with bad show "VerifyProof C (Some p) txID expectedRoot = Inl Panic"
    by (simp add: VerifyProof_def Let_def)
qed


theorem proof_verifiers_agree_witness:
  "wellShaped \<lparr>StepScale = 4, StepVolume = 0, StepVariance = 0, StepSig = 0, Siblings = [0, 0, 0], ChildIdx = 2\<rparr> \<and>
   VerifyProof sample_crypto (Some \<lparr>Steps = [leafStep (padNode 1 []),
     \<lparr>StepScale = 4, StepVolume = 0, StepVariance = 0, StepSig = 0, Siblings = [0, 0, 0], ChildIdx = 2\<rparr>]\<rparr>) 0 0 =
   Inr (VerifyProofCanonical sample_crypto (Some \<lparr>Steps = [leafStep (padNode 1 []),
     \<lparr>StepScale = 4, StepVolume = 0, StepVariance = 0, StepSig = 0, Siblings = [0, 0, 0], ChildIdx = 2\<rparr>]\<rparr>) 0 0) \<and>
   VerifyProof sample_crypto (Some \<lparr>Steps = [leafStep (padNode 1 []),
     \<lparr>StepScale = 4, StepVolume = 0, StepVariance = 0, StepSig = 0, Siblings = [0, 0, 0], ChildIdx = 4\<rparr>]\<rparr>) 0 0 =
   Inl Panic"
proof -
  have w: "wellShaped \<lparr>StepScale = 4, StepVolume = 0, StepVariance = 0, StepSig = 0, Siblings = [0, 0, 0], ChildIdx = 2\<rparr>"
    by code_simp
  then show ?thesis
    using proof_verifiers_agree[of "\<lparr>Steps = [leafStep (padNode 1 []), \<lparr>StepScale = 4, StepVolume = 0,
        StepVariance = 0, StepSig = 0, Siblings = [0, 0, 0], ChildIdx = 2\<rparr>]\<rparr>" sample_crypto 0 0]
      proof_verifiers_agree[of "\<lparr>Steps = [leafStep (padNode 1 []), \<lparr>StepScale = 4, StepVolume = 0,
        StepVariance = 0, StepSig = 0, Siblings = [0, 0, 0], ChildIdx = 4\<rparr>]\<rparr>" sample_crypto 0 0
        "leafStep (padNode 1 [])" "\<lparr>StepScale = 4, StepVolume = 0,
        StepVariance = 0, StepSig = 0, Siblings = [0, 0, 0], ChildIdx = 4\<rparr>" "[]"]
    by (simp add: leafStep_def padNode_def)
qed

lemma generated_proof:
  assumes "BuildTree C txs [] = Inr t" "i < length txs"
  shows "\<exists>p txID. GenerateProof C txs (int i) = Inr p \<and> Tree_GenerateProof C t (int i) = Inr p \<and>
    ID C (txs ! i) = Inr txID \<and> VerifyProof C (Some p) txID (cachedRoot t) = Inr True \<and>
    VerifyProofCanonical C (Some p) txID (cachedRoot t) \<and> (\<forall>st\<in>set (drop 1 (Steps p)). wellShaped st)"
proof -
  have "txs \<noteq> []" using assms(2) by auto
  then obtain L n where L: "atomicLayer C txs = Inr L" and bl: "buildLayers C L = Inr (layers t)"
    and n: "last (layers t) = [n]" "nodeRoot C n = Inr (cachedRoot t)"
    using assms(1) BuildTree_Inr_iff[of txs "[]" C t] by auto
  have i: "i < length L" "makeAtomicNode C (txs ! i) = Inr (L ! i)" using L assms(2) by (auto simp: atomicLayer_Inr_iff)
  have leaf: "\<exists>txID. ID C (txs ! i) = Inr txID \<and> Children (L ! i) = [txID] \<and> Scale (L ! i) = 1"
    by (rule makeAtomicNode_law[OF i(2)]) blast
  then obtain txID where txID: "ID C (txs ! i) = Inr txID" "Children (L ! i) = [txID]" "Scale (L ! i) = 1" by blast
  obtain cur where cur: "nodeRoot C (L ! i) = Inr cur" using atomicNode_root[OF i(2)] by blast
  obtain steps where s: "stepProof C L i = Inr steps" "treeProof C (layers t) i = Inr steps"
    "rfold (canonicalStep C) steps cur = Inr (cachedRoot t)" "\<forall>st\<in>set steps. wellShaped st"
    using stepProof_complete[OF bl i(1) cur] n by (auto simp: wellShaped_def)
  let ?p = "\<lparr>Steps = leafStep (L ! i) # steps\<rparr>"
  have lay: "layers t ! 0 = L" using buildLayers_law[OF bl] by (metis hd_conv_nth)
  have gen: "GenerateProof C txs (int i) = Inr ?p" "Tree_GenerateProof C t (int i) = Inr ?p"
    using assms(2) i L s lay by (simp_all add: GenerateProof_def generateStepProof_def Tree_GenerateProof_def rguard_def)
  have "nodeRoot C (stepNode (leafStep (L ! i)) [txID]) = Inr cur"
    using cur txID by (metis (no_types, lifting) nodeRoot_cong leafStep_def stepNode_def RGNode.simps(1-5) ProofStep.simps(1-4))
  then have can: "VerifyProofCanonical C (Some ?p) txID (cachedRoot t)"
    using s(3) txID(3) by (simp add: VerifyProofCanonical_def verifyProofCanonical_def leafStep_def)
  moreover have "VerifyProof C (Some ?p) txID (cachedRoot t) = Inr True"
    using can s(4) verify_shaped[of ?p C txID "cachedRoot t"] by simp
  ultimately show ?thesis using gen txID s(4) by fastforce
qed

text \<open>C32. Every transaction of a block has a proof that verifies: when the block's tree can be built, then for
every index the prover that rebuilds the layers and the one that reads the retained tree return the
same proof, and both verifiers accept it for the transaction's identifier and the tree's root.\<close>

theorem proof_complete:
  assumes "BuildTree C txs [] = Inr t" "i < length txs"
  shows "\<exists>p txID. GenerateProof C txs (int i) = Inr p \<and> Tree_GenerateProof C t (int i) = Inr p \<and>
    ID C (txs ! i) = Inr txID \<and> VerifyProof C (Some p) txID (cachedRoot t) = Inr True \<and>
    VerifyProofCanonical C (Some p) txID (cachedRoot t)"
  using generated_proof[OF assms] by blast

theorem proof_complete_witness:
  "\<exists>t p txID. BuildTree sample_crypto [sampleTx] [] = Inr t \<and> GenerateProof sample_crypto [sampleTx] 0 = Inr p \<and>
     ID sample_crypto sampleTx = Inr txID \<and> VerifyProof sample_crypto (Some p) txID (cachedRoot t) = Inr True"
proof -
  obtain t where t: "BuildTree sample_crypto [sampleTx] [] = Inr t" by (rule sampleTree)
  from proof_complete[OF t, of 0] t show ?thesis by auto
qed


section \<open>Accepted proofs are sound\<close>

text \<open>The byte strings that the node-hashing verifier hashes, and those hashed when the tree and its padding
  were built.\<close>

fun stepInputs :: "crypto \<Rightarrow> ProofStep list \<Rightarrow> bytes32 \<Rightarrow> bytes list" where
  "stepInputs C [] cur = []"
| "stepInputs C (st # steps) cur =
     (case nodeSerialize (stepNode st (fillChildren (ChildIdx st) cur (take 3 (Siblings st)) [0..<4])) of
        Inl _ \<Rightarrow> []
      | Inr b \<Rightarrow> b # stepInputs C steps (Hash C b))"

definition proofInputs :: "crypto \<Rightarrow> InclusionProof \<Rightarrow> bytes32 \<Rightarrow> bytes list" where
  "proofInputs C p txID =
     (case Steps p of [] \<Rightarrow> []
      | leaf # steps \<Rightarrow>
          (case nodeSerialize (stepNode leaf [txID]) of Inl _ \<Rightarrow> []
           | Inr b \<Rightarrow> b # stepInputs C steps (Hash C b)))"

definition knownNode :: "crypto \<Rightarrow> RGNode list list \<Rightarrow> RGNode \<Rightarrow> bool" where
  "knownNode C ls n \<longleftrightarrow> (\<exists>layer\<in>set ls. n \<in> set layer) \<or> (\<exists>s. NullNode C s = Inr n)"

definition treeInputs :: "crypto \<Rightarrow> RGNode list list \<Rightarrow> bytes set" where
  "treeInputs C ls = {b. \<exists>n. knownNode C ls n \<and> nodeSerialize n = Inr b}"

definition hashCollision :: "crypto \<Rightarrow> bytes set \<Rightarrow> bytes set \<Rightarrow> bool" where
  "hashCollision C A B \<longleftrightarrow> (\<exists>x\<in>A. \<exists>y\<in>B. x \<noteq> y \<and> Hash C x = Hash C y)"

lemma concat_arr32_inj: "concat (map arr32 xs) = concat (map arr32 ys) \<Longrightarrow> length xs = length ys \<Longrightarrow> xs = ys"
proof (induction xs arbitrary: ys)
  case (Cons x xs)
  then obtain y ys' where ys: "ys = y # ys'" by (cases ys) auto
  with Cons.prems have "arr32 x = arr32 y \<and> concat (map arr32 xs) = concat (map arr32 ys')"
    by (simp add: append_eq_append_conv)
  with Cons ys show ?case by simp
qed simp

lemma nodeSerialize_children:
  assumes "nodeSerialize n = Inr b" "nodeSerialize m = Inr b"
  shows "Children n = Children m"
proof -
  from assms have
    "PutUint32 (Scale n) @ arr32 (Volume n) @ arr32 (Variance n) @ [Sig n]
          @ PutUint16 (of_nat (length (Children n))) @ concat (map arr32 (Children n)) =
     PutUint32 (Scale m) @ arr32 (Volume m) @ arr32 (Variance m) @ [Sig m]
          @ PutUint16 (of_nat (length (Children m))) @ concat (map arr32 (Children m))"
    by (simp add: nodeSerialize_Inr_iff)
  then have s: "Scale n = Scale m" and c: "concat (map arr32 (Children n)) = concat (map arr32 (Children m))"
    by (simp_all add: append_eq_append_conv)
  have "length (Children n) = length (Children m)" using assms s by (simp add: nodeSerialize_Inr_iff)
  with c show ?thesis by (rule concat_arr32_inj)
qed

lemma root_collision:
  assumes "nodeSerialize n = Inr b" "nodeRoot C m = Inr (Hash C b)" "knownNode C ls m"
  shows "Children n = Children m \<or> hashCollision C {b} (treeInputs C ls)"
proof -
  obtain b' where b': "nodeSerialize m = Inr b'" "Hash C b = Hash C b'" using assms(2) by (auto simp: nodeRoot_Inr_iff)
  show ?thesis
  proof (cases "b = b'")
    case True
    then show ?thesis using nodeSerialize_children assms(1) b'(1) by blast
  next
    case False
    then show ?thesis using b' assms(3) by (auto simp: hashCollision_def treeInputs_def)
  qed
qed

lemma layers_children:
  assumes "buildLayers C L = Inr ls" "layer \<in> set ls" "n \<in> set layer"
  shows "n \<in> set L \<or> (length (Children n) = 4 \<and>
    (\<forall>r\<in>set (Children n). \<exists>m. knownNode C ls m \<and> nodeRoot C m = Inr r))"
  using assms
proof (induction C L arbitrary: ls rule: buildLayers.induct)
  case (1 C L)
  show ?case
  proof (cases "length L \<le> 1")
    case True
    with "1.prems" show ?thesis by (auto simp: buildLayers_base)
  next
    case False
    from "1.prems"(1) obtain N rest where N: "coarsenLayer C L = Inr N" and rest: "buildLayers C N = Inr rest"
      and ls: "ls = L # rest"
      by (auto simp: buildLayers_step[OF False] res_simps)
    consider "n \<in> set L" | "layer \<in> set rest" using "1.prems" ls by auto
    then show ?thesis
    proof cases
      case 2
      from "1.IH"[OF False N rest 2 "1.prems"(3)] consider
        "length (Children n) = 4 \<and> (\<forall>r\<in>set (Children n). \<exists>m. knownNode C rest m \<and> nodeRoot C m = Inr r)" |
        "n \<in> set N" by blast
      then show ?thesis
      proof cases
        case 1
        then show ?thesis using ls by (fastforce simp: knownNode_def)
      next
        case 2
        then obtain c where c: "c < length N" "n = N ! c" by (auto simp: in_set_conv_nth)
        obtain rs pads where rs: "rmap (nodeRoot C) (chunks L ! c @ pads) = Inr rs" "length rs = 4"
            "Children (N ! c) = rs" "\<forall>p\<in>set pads. NullNode C (Scale (L ! 0)) = Inr p"
          using coarsenLayer_children[OF N c(1)] by metis
        have "c < length (chunks L)" using N c by (simp add: coarsenLayer_Inr_iff)
        then have sub: "set (chunks L ! c) \<subseteq> set L"
          using concat_chunks[of L] by (metis nth_mem set_concat UN_upper)
        have "\<exists>m. knownNode C ls m \<and> nodeRoot C m = Inr r" if r: "r \<in> set rs" for r
        proof -
          from r obtain i where i: "i < length rs" "r = rs ! i" by (auto simp: in_set_conv_nth)
          let ?m = "(chunks L ! c @ pads) ! i"
          have m: "nodeRoot C ?m = Inr r" using rs(1) i by (auto simp: rmap_Inr_iff)
          have "?m \<in> set (chunks L ! c @ pads)" using rs(1) i rmap_length nth_mem by metis
          then have "knownNode C ls ?m" using sub rs(4) ls by (auto simp: knownNode_def)
          with m show ?thesis by blast
        qed
        then show ?thesis using rs c by simp
      qed
    qed simp
  qed
qed

lemma null_children:
  assumes "NullNode C s = Inr n"
  shows "Children n = [nullPadChildRoot C] \<or> (length (Children n) = 4 \<and>
    (\<forall>r\<in>set (Children n). \<exists>m. knownNode C ls m \<and> nodeRoot C m = Inr r))"
proof (cases "s = 1")
  case True
  then show ?thesis using assms by (subst (asm) NullNode.simps) (auto simp: padNode_def split: if_splits)
next
  case False
  from assms obtain m r where "NullNode C (s div 4) = Inr m" "nodeRoot C m = Inr r" "n = padNode s (replicate 4 r)"
    using False by (subst (asm) NullNode.simps) (auto simp: res_simps split: if_splits)
  then show ?thesis by (auto simp: padNode_def knownNode_def)
qed

lemma known_children:
  assumes "buildLayers C L = Inr ls" "atomicLayer C txs = Inr L" "knownNode C ls n"
  shows "(\<exists>x. Children n = [x] \<and> (x = nullPadChildRoot C \<or> (\<exists>i<length txs. ID C (txs ! i) = Inr x))) \<or>
    (length (Children n) = 4 \<and> (\<forall>r\<in>set (Children n). \<exists>m. knownNode C ls m \<and> nodeRoot C m = Inr r))"
proof -
  have leaf: "\<exists>x i. Children n = [x] \<and> i < length txs \<and> ID C (txs ! i) = Inr x" if n: "n \<in> set L"
  proof -
    obtain i where i: "i < length txs" "makeAtomicNode C (txs ! i) = Inr n"
      using n assms(2) unfolding atomicLayer_Inr_iff in_set_conv_nth by metis
    show ?thesis by (rule makeAtomicNode_law[OF i(2)]) (use i(1) in blast)
  qed
  from assms(3) consider layer where "layer \<in> set ls" "n \<in> set layer" | s where "NullNode C s = Inr n"
    by (auto simp: knownNode_def)
  then show ?thesis
  proof cases
    case 1
    from layers_children[OF assms(1) 1] leaf show ?thesis by blast
  next
    case 2
    from null_children[OF 2] show ?thesis by blast
  qed
qed

lemma steps_sound:
  assumes "rfold (canonicalStep C) steps cur = Inr r" "nodeRoot C n = Inr r" "knownNode C ls n"
    and "buildLayers C L = Inr ls" "atomicLayer C txs = Inr L"
    and "\<forall>st\<in>set steps. ChildIdx st < 4 \<and> length (Siblings st) = 3"
  shows "(\<exists>m. knownNode C ls m \<and> nodeRoot C m = Inr cur) \<or>
    hashCollision C (set (stepInputs C steps cur)) (treeInputs C ls)"
  using assms(1,6)
proof (induction steps arbitrary: cur)
  case Nil
  then show ?case using assms(2,3) by auto
next
  case (Cons st steps)
  let ?fill = "fillChildren (ChildIdx st) cur (take 3 (Siblings st)) [0..<4]"
  from Cons.prems(1) obtain b where b: "nodeSerialize (stepNode st ?fill) = Inr b"
    and rest: "rfold (canonicalStep C) steps (Hash C b) = Inr r"
    by (auto simp: canonicalStep_def[of C st] nodeRoot_def[of C "stepNode st ?fill"] res_simps)
  have fill: "length ?fill = 4" "cur \<in> set ?fill" using fillChildren_fast Cons.prems(2) by simp_all
  have inp: "stepInputs C (st # steps) cur = b # stepInputs C steps (Hash C b)" using b by simp
  from Cons.IH[OF rest] Cons.prems(2) consider
      m where "knownNode C ls m" "nodeRoot C m = Inr (Hash C b)" |
      "hashCollision C (set (stepInputs C steps (Hash C b))) (treeInputs C ls)" by auto
  then show ?case
  proof cases
    case 1
    from root_collision[OF b 1(2,1)] show ?thesis
    proof
      assume "Children (stepNode st ?fill) = Children m"
      then have "Children m = ?fill" by (simp add: stepNode_def)
      then show ?thesis using known_children[OF assms(4,5) 1(1)] fill by auto
    next
      assume "hashCollision C {b} (treeInputs C ls)"
      then show ?thesis using inp by (auto simp: hashCollision_def)
    qed
  next
    case 2
    then show ?thesis using inp by (auto simp: hashCollision_def)
  qed
qed




end
