(* ===== verification/FRG_Denom.thy ===== *)
theory FRG_Denom
  imports FRG_Base
begin

text \<open>
  Package \<^verbatim>\<open>core/denom\<close>: amounts in FRG as decimal text and in quanta, with the parts of \<^verbatim>\<open>strings\<close> and
  \<^verbatim>\<open>math/big\<close> the package uses.
\<close>

section \<open>Decimal text\<close>

abbreviation isDigit :: "byte \<Rightarrow> bool" where "isDigit b \<equiv> 48 \<le> b \<and> b \<le> 57"

definition decVal :: "bytes \<Rightarrow> int" where
  "decVal ds = foldl (\<lambda>a b. a * 10 + (uint b - 48)) 0 ds"

function decDigits :: "int \<Rightarrow> bytes" where
  "decDigits n = (if n < 10 then [48 + word_of_int n] else decDigits (n div 10) @ [48 + word_of_int (n mod 10)])"
  by pat_completeness auto
termination by (relation "measure nat") auto

declare decDigits.simps [simp del]

text \<open>\<^verbatim>\<open>(*big.Int).String\<close>.\<close>

definition bigString :: "int \<Rightarrow> bytes" where
  "bigString n = (if n < 0 then 45 # decDigits (- n) else decDigits n)"

text \<open>\<^verbatim>\<open>(*big.Int).SetString\<close> in base ten: an optional sign and at least one digit.\<close>

definition SetString :: "bytes \<Rightarrow> int option" where
  "SetString s =
     (let (neg, ds) = (case s of [] \<Rightarrow> (False, []) | c # cs \<Rightarrow> if c = 45 then (True, cs) else if c = 43 then (False, cs) else (False, s)) in
      if ds = [] \<or> \<not> list_all isDigit ds then None
      else Some (if neg then - decVal ds else decVal ds))"

text \<open>\<^verbatim>\<open>strings.TrimSpace\<close> removes the Unicode white space, given here by its UTF-8 encodings.\<close>

definition spaceRunes :: "bytes list" where
  "spaceRunes = [[9], [10], [11], [12], [13], [32], [194, 133], [194, 160], [225, 154, 128],
     [226, 128, 128], [226, 128, 129], [226, 128, 130], [226, 128, 131], [226, 128, 132], [226, 128, 133],
     [226, 128, 134], [226, 128, 135], [226, 128, 136], [226, 128, 137], [226, 128, 138], [226, 128, 168],
     [226, 128, 169], [226, 128, 175], [226, 129, 159], [227, 128, 128]]"

function trimPrefixes :: "bytes list \<Rightarrow> bytes \<Rightarrow> bytes" where
  "trimPrefixes ws s =
     (case find (\<lambda>w. w \<noteq> [] \<and> take (length w) s = w) ws of
        None \<Rightarrow> s
      | Some w \<Rightarrow> trimPrefixes ws (drop (length w) s))"
  by pat_completeness auto
termination
proof (relation "measure (length \<circ> snd)")
  fix ws s and w :: bytes
  assume "find (\<lambda>w. w \<noteq> [] \<and> take (length w) s = w) ws = Some w"
  then have "w \<noteq> []" "take (length w) s = w" by (auto simp: find_Some_iff)
  then have "0 < length w" "length w \<le> length s" by (auto simp: take_all_iff) (metis length_take min.cobounded1)
  then have "length s - length w < length s" by linarith
  then show "((ws, drop (length w) s), ws, s) \<in> measure (length \<circ> snd)" by simp
qed simp

declare trimPrefixes.simps [simp del]

definition TrimSpace :: "bytes \<Rightarrow> bytes" where
  "TrimSpace s = rev (trimPrefixes (map rev spaceRunes) (rev (trimPrefixes spaceRunes s)))"

text \<open>\<^verbatim>\<open>strings.Split\<close> at a one-byte separator and \<^verbatim>\<open>strings.TrimRight\<close> of one byte.\<close>

fun splitAt :: "byte \<Rightarrow> bytes \<Rightarrow> bytes \<Rightarrow> bytes list" where
  "splitAt sep acc [] = [acc]"
| "splitAt sep acc (b # bs) = (if b = sep then acc # splitAt sep [] bs else splitAt sep (acc @ [b]) bs)"

definition Split :: "bytes \<Rightarrow> byte \<Rightarrow> bytes list" where
  "Split s sep = splitAt sep [] s"

definition TrimRight :: "bytes \<Rightarrow> byte \<Rightarrow> bytes" where
  "TrimRight s c = rev (dropWhile (\<lambda>b. b = c) (rev s))"


section \<open>denom.go\<close>

abbreviation (input) Decimals :: nat where "Decimals \<equiv> 18"

definition QuantaPerFRG :: int where
  "QuantaPerFRG = 10 ^ Decimals"

definition digitsOnly :: "bytes \<Rightarrow> bool" where
  "digitsOnly s \<longleftrightarrow> list_all isDigit s"

definition ParseFRG :: "bytes \<Rightarrow> int res" where
  "ParseFRG raw =
     (let raw = TrimSpace raw in
      rguard (raw = []) (GoError ''amount is required'')
      (rguard (hd raw = 45) (GoError ''amount must be non-negative'')
       (let raw = (if hd raw = 43 then tl raw else raw);
            parts = Split raw 46 in
        rguard (length parts > 2) (GoError ''amount must be a decimal FRG value'')
        (let whole = parts ! 0; frac = (if length parts = 2 then parts ! 1 else []) in
         rguard (whole = [] \<and> frac = []) (GoError ''amount must be a decimal FRG value'')
         (let whole = (if whole = [] then [48] else whole) in
          rguard (\<not> digitsOnly whole \<or> frac \<noteq> [] \<and> \<not> digitsOnly frac) (GoError ''amount must be a decimal FRG value'')
          (rguard (length frac > Decimals) (GoError ''amount has too many decimal places'')
           (case SetString whole of None \<Rightarrow> Inl (GoError ''amount must be a decimal FRG value'')
            | Some wholeInt \<Rightarrow>
               let amount = wholeInt * QuantaPerFRG in
               if frac = [] then Inr amount
               else case SetString (frac @ replicate (Decimals - length frac) 48) of
                      None \<Rightarrow> Inl (GoError ''amount must be a decimal FRG value'')
                    | Some fracInt \<Rightarrow> Inr (amount + fracInt))))))))"

definition ParsePositiveFRG :: "bytes \<Rightarrow> int res" where
  "ParsePositiveFRG raw =
     rbind (ParseFRG raw) (\<lambda>amount. rguard (amount \<le> 0) (GoError ''amount must be positive'') (Inr amount))"

definition ParseQuanta :: "bytes \<Rightarrow> int res" where
  "ParseQuanta raw =
     (let raw = TrimSpace raw in
      rguard (raw = []) (GoError ''amount is required'')
      (case SetString raw of
         None \<Rightarrow> Inl (GoError ''amount must be a non-negative base-10 quanta integer'')
       | Some amount \<Rightarrow> rguard (amount < 0) (GoError ''amount must be a non-negative base-10 quanta integer'') (Inr amount)))"

definition ParsePositiveQuanta :: "bytes \<Rightarrow> int res" where
  "ParsePositiveQuanta raw =
     rbind (ParseQuanta raw) (\<lambda>amount. rguard (amount \<le> 0) (GoError ''amount must be positive'') (Inr amount))"

definition FormatFRG :: "int option \<Rightarrow> bytes" where
  "FormatFRG quanta =
     (case quanta of None \<Rightarrow> [48]
      | Some q \<Rightarrow>
         let sign = (if q < 0 then [45] else []); val = \<bar>q\<bar>;
             whole = val div QuantaPerFRG; frac = val mod QuantaPerFRG in
         if frac = 0 then sign @ bigString whole
         else let fracStr = bigString frac;
                  fracStr = (if length fracStr < Decimals then replicate (Decimals - length fracStr) 48 @ fracStr else fracStr) in
           sign @ bigString whole @ [46] @ TrimRight fracStr 48)"


section \<open>Digits\<close>

lemma decVal_append: "decVal (xs @ ys) = decVal xs * 10 ^ length ys + decVal ys"
proof (induction ys rule: rev_induct)
  case (snoc y ys)
  then show ?case by (simp add: decVal_def algebra_simps)
qed (simp add: decVal_def)

lemma decVal_single [simp]: "decVal [b] = uint b - 48" "decVal [] = 0"
  by (simp_all add: decVal_def)

lemma digit_word:
  assumes "0 \<le> d" "d < 10"
  shows "isDigit (48 + word_of_int d)" "uint (48 + word_of_int d :: byte) = 48 + d"
proof -
  have "d = 0 \<or> d = 1 \<or> d = 2 \<or> d = 3 \<or> d = 4 \<or> d = 5 \<or> d = 6 \<or> d = 7 \<or> d = 8 \<or> d = 9" using assms by arith
  then show "isDigit (48 + word_of_int d)" "uint (48 + word_of_int d :: byte) = 48 + d" by auto
qed

lemma decDigits_props:
  assumes "0 \<le> n"
  shows "decDigits n \<noteq> [] \<and> list_all isDigit (decDigits n) \<and> decVal (decDigits n) = n"
  using assms
proof (induction n rule: decDigits.induct)
  case (1 n)
  show ?case
  proof (cases "n < 10")
    case True
    then show ?thesis using digit_word[of n] "1.prems" by (subst (1 2 3) decDigits.simps) simp
  next
    case False
    have d: "0 \<le> n mod 10" "n mod 10 < 10" by simp_all
    have "0 \<le> n div 10" using "1.prems" by simp
    then show ?thesis
      using "1.IH"[OF False] False digit_word[OF d] by (subst (1 2 3) decDigits.simps) (simp add: decVal_append)
  qed
qed

lemma length_decDigits:
  assumes "0 \<le> n" "n < 10 ^ k" "0 < k"
  shows "length (decDigits n) \<le> k"
  using assms
proof (induction n arbitrary: k rule: decDigits.induct)
  case (1 n)
  show ?case
  proof (cases "n < 10")
    case True
    then show ?thesis using "1.prems" by (subst decDigits.simps) simp
  next
    case False
    then obtain j where k: "k = Suc j" "0 < j" using "1.prems" by (cases k; cases "k - 1") auto
    have "length (decDigits (n div 10)) \<le> j" using "1.prems" k False by (intro "1.IH") auto
    then show ?thesis using False k by (subst decDigits.simps) simp
  qed
qed


lemma trimPrefixes_id: "s \<noteq> [] \<Longrightarrow> \<forall>w\<in>set ws. w \<noteq> [] \<longrightarrow> hd w \<noteq> hd s \<Longrightarrow> trimPrefixes ws s = s"
proof -
  assume a: "s \<noteq> []" "\<forall>w\<in>set ws. w \<noteq> [] \<longrightarrow> hd w \<noteq> hd s"
  have "find (\<lambda>w. w \<noteq> [] \<and> take (length w) s = w) ws = None"
    unfolding find_None_iff
  proof
    assume "\<exists>w. w \<in> set ws \<and> w \<noteq> [] \<and> take (length w) s = w"
    then obtain w where w: "w \<in> set ws" "w \<noteq> []" "take (length w) s = w" by blast
    then have "hd w = hd s" by (metis hd_take length_greater_0_conv)
    with a w show False by blast
  qed
  then show ?thesis by (subst trimPrefixes.simps) simp
qed

lemma digit_bytes: "isDigit b \<Longrightarrow> b \<in> {48, 49, 50, 51, 52, 53, 54, 55, 56, 57}"
proof -
  assume b: "isDigit b"
  then have "48 \<le> unat b" "unat b \<le> 57" by (simp_all add: word_le_nat_alt)
  then have "unat b \<in> {48, 49, 50, 51, 52, 53, 54, 55, 56, 57}" by (cases "unat b \<le> 52") auto
  then have "of_nat (unat b) \<in> (of_nat ` {48, 49, 50, 51, 52, 53, 54, 55, 56, 57} :: byte set)" by (rule imageI)
  then show ?thesis by simp
qed

lemma TrimSpace_digits:
  assumes "s \<noteq> []" "isDigit (hd s) \<or> hd s = 45" "isDigit (last s)"
  shows "TrimSpace s = s"
proof -
  have "\<forall>w\<in>set spaceRunes. w \<noteq> [] \<longrightarrow> hd w \<noteq> hd s"
    using assms(2) digit_bytes[of "hd s"] by (auto simp: spaceRunes_def)
  then have 1: "trimPrefixes spaceRunes s = s" by (rule trimPrefixes_id[OF assms(1)])
  have "\<forall>w\<in>set (map rev spaceRunes). w \<noteq> [] \<longrightarrow> hd w \<noteq> hd (rev s)"
    using digit_bytes[OF assms(3)] by (auto simp: spaceRunes_def hd_rev)
  then have "trimPrefixes (map rev spaceRunes) (rev s) = rev s" using assms(1) by (intro trimPrefixes_id) auto
  with 1 show ?thesis by (simp add: TrimSpace_def)
qed

lemma splitAt_digits:
  assumes "list_all isDigit ds"
  shows "splitAt 46 acc ds = [acc @ ds]" "splitAt 46 acc (ds @ 46 # r) = (acc @ ds) # splitAt 46 [] r"
  using assms by (induction ds arbitrary: acc) (auto dest: digit_bytes)

lemma SetString_digits:
  assumes "ds \<noteq> []" "list_all isDigit ds"
  shows "SetString ds = Some (decVal ds)"
proof -
  obtain c cs where ds: "ds = c # cs" using assms(1) by (cases ds) auto
  then have "c \<noteq> 45" "c \<noteq> 43" using assms(2) digit_bytes[of c] by auto
  then show ?thesis using assms ds by (simp add: SetString_def)
qed

lemma TrimRight_pad: "TrimRight s c @ replicate (length s - length (TrimRight s c)) c = s"
proof -
  have t: "takeWhile (\<lambda>b. b = c) (rev s) = replicate (length (takeWhile (\<lambda>b. b = c) (rev s))) c"
    by (metis (mono_tags, lifting) replicate_length_same set_takeWhileD)
  have s: "s = TrimRight s c @ rev (takeWhile (\<lambda>b. b = c) (rev s))"
    unfolding TrimRight_def by (metis rev_append rev_rev_ident takeWhile_dropWhile_id)
  then have "length s - length (TrimRight s c) = length (takeWhile (\<lambda>b. b = c) (rev s))"
    by (metis add_diff_cancel_left' length_append length_rev)
  then show ?thesis using s t by (metis rev_replicate)
qed

lemma TrimRight_subset: "set (TrimRight s c) \<subseteq> set s"
  by (auto simp: TrimRight_def dest: set_dropWhileD)

lemma length_TrimRight: "length (TrimRight s c) \<le> length s"
  unfolding TrimRight_def by (metis length_dropWhile_le length_rev)

lemma decVal_zeros: "decVal (replicate n 48) = 0"
  by (induction n) (simp_all add: decVal_def)

text \<open>The fractional part as \<^verbatim>\<open>FormatFRG\<close> prints it.\<close>

definition fracDigits :: "int \<Rightarrow> bytes" where
  "fracDigits f = (let fracStr = bigString f in
     if length fracStr < Decimals then replicate (Decimals - length fracStr) 48 @ fracStr else fracStr)"

lemma fracDigits_facts:
  assumes "0 \<le> f" "f < 10 ^ 18"
  shows "length (fracDigits f) = 18" "list_all isDigit (fracDigits f)" "decVal (fracDigits f) = f"
proof -
  have d: "bigString f = decDigits f" using assms by (simp add: bigString_def)
  have len: "length (decDigits f) \<le> 18" using length_decDigits[OF assms] by simp
  then show "length (fracDigits f) = 18" by (simp add: fracDigits_def Let_def d)
  show "list_all isDigit (fracDigits f)" "decVal (fracDigits f) = f"
    using decDigits_props[OF assms(1)]
    by (auto simp: fracDigits_def Let_def d decVal_append decVal_zeros list_all_iff)
qed

lemma ParseFRG_digits:
  assumes "whole \<noteq> []" "list_all isDigit whole"
  shows "ParseFRG whole = Inr (decVal whole * QuantaPerFRG)"
proof -
  have "isDigit (hd whole)" "isDigit (last whole)" using assms by (auto simp: list_all_iff)
  moreover from this have "hd whole \<noteq> 45" "hd whole \<noteq> 43" using digit_bytes[of "hd whole"] by auto
  ultimately show ?thesis
    using assms splitAt_digits(1)[OF assms(2), of "[]"] SetString_digits[OF assms]
    by (simp add: ParseFRG_def TrimSpace_digits Split_def digitsOnly_def Let_def)
qed

lemma ParseFRG_point:
  assumes "whole \<noteq> []" "list_all isDigit whole" "frac \<noteq> []" "list_all isDigit frac" "length frac \<le> 18"
  shows "ParseFRG (whole @ [46] @ frac) = Inr (decVal whole * QuantaPerFRG + decVal (frac @ replicate (18 - length frac) 48))"
proof -
  let ?s = "whole @ [46] @ frac"
  have h: "isDigit (hd whole)" "isDigit (last frac)" using assms by (auto simp: list_all_iff)
  then have "TrimSpace ?s = ?s" using assms(1,3) by (intro TrimSpace_digits) auto
  moreover have "hd whole \<noteq> 45" "hd whole \<noteq> 43" using digit_bytes[OF h(1)] by auto
  moreover have "Split ?s 46 = [whole, frac]"
    using splitAt_digits(2)[OF assms(2), of "[]" frac] splitAt_digits(1)[OF assms(4), of "[]"] by (simp add: Split_def)
  moreover have "SetString (frac @ replicate (18 - length frac) 48) = Some (decVal (frac @ replicate (18 - length frac) 48))"
    using assms by (intro SetString_digits) (auto simp: list_all_iff)
  ultimately show ?thesis
    using assms SetString_digits[OF assms(1,2)] by (simp add: ParseFRG_def digitsOnly_def Let_def)
qed

lemma FormatFRG_eq:
  assumes "0 \<le> q"
  shows "FormatFRG (Some q) = (if q mod QuantaPerFRG = 0 then decDigits (q div QuantaPerFRG)
    else decDigits (q div QuantaPerFRG) @ [46] @ TrimRight (fracDigits (q mod QuantaPerFRG)) 48)"
proof -
  have "0 \<le> q div QuantaPerFRG" using assms by (simp add: QuantaPerFRG_def pos_imp_zdiv_nonneg_iff)
  then show ?thesis using assms by (simp add: FormatFRG_def Let_def fracDigits_def bigString_def)
qed

lemma frac_trimmed:
  assumes "0 < f" "f < 10 ^ 18"
  defines "t \<equiv> TrimRight (fracDigits f) 48"
  shows "t \<noteq> []" "list_all isDigit t" "length t \<le> 18" "decVal (t @ replicate (18 - length t) 48) = f"
proof -
  have f: "0 \<le> f" using assms(1) by simp
  note fd = fracDigits_facts[OF f assms(2)]
  show v: "decVal (t @ replicate (18 - length t) 48) = f"
    using TrimRight_pad[of "fracDigits f" 48] fd unfolding t_def by simp
  then show "t \<noteq> []" using decVal_zeros[of 18] assms(1) by auto
  show "list_all isDigit t" using TrimRight_subset[of "fracDigits f" 48] fd(2) unfolding t_def list_all_iff by blast
  show "length t \<le> 18" using length_TrimRight[of "fracDigits f" 48] fd(1) unfolding t_def by simp
qed

lemma ParseFRG_Format:
  assumes "0 \<le> q"
  shows "ParseFRG (FormatFRG (Some q)) = Inr q"
proof -
  have w: "0 \<le> q div QuantaPerFRG" and f: "0 \<le> q mod QuantaPerFRG" "q mod QuantaPerFRG < 10 ^ 18"
    using assms by (simp_all add: QuantaPerFRG_def pos_imp_zdiv_nonneg_iff)
  have split: "q div QuantaPerFRG * QuantaPerFRG + q mod QuantaPerFRG = q" by simp
  note d = decDigits_props[OF w]
  show ?thesis
  proof (cases "q mod QuantaPerFRG = 0")
    case True
    then show ?thesis using d split ParseFRG_digits[of "decDigits (q div QuantaPerFRG)"] by (simp add: FormatFRG_eq[OF assms])
  next
    case False
    then have "0 < q mod QuantaPerFRG" using f(1) by simp
    note t = frac_trimmed[OF this f(2)]
    from False show ?thesis
      using d split t ParseFRG_point[of "decDigits (q div QuantaPerFRG)" "TrimRight (fracDigits (q mod QuantaPerFRG)) 48"]
      by (simp add: FormatFRG_eq[OF assms])
  qed
qed

lemma FormatFRG_negative: "q < 0 \<Longrightarrow> FormatFRG (Some q) = 45 # FormatFRG (Some (- q))"
  by (simp add: FormatFRG_def Let_def)

lemma FormatFRG_last:
  assumes "0 \<le> q"
  shows "FormatFRG (Some q) \<noteq> [] \<and> isDigit (last (FormatFRG (Some q)))"
proof -
  have w: "0 \<le> q div QuantaPerFRG" and f: "0 \<le> q mod QuantaPerFRG" "q mod QuantaPerFRG < 10 ^ 18"
    using assms by (simp_all add: QuantaPerFRG_def pos_imp_zdiv_nonneg_iff)
  have dl: "isDigit (last xs)" if "xs \<noteq> []" "list_all isDigit xs" for xs using that by (simp add: list_all_iff)
  show ?thesis
  proof (cases "q mod QuantaPerFRG = 0")
    case True
    then show ?thesis using decDigits_props[OF w] dl by (simp add: FormatFRG_eq[OF assms])
  next
    case False
    then have "0 < q mod QuantaPerFRG" using f(1) by simp
    note t = frac_trimmed[OF this f(2)]
    then show ?thesis using False dl by (simp add: FormatFRG_eq[OF assms])
  qed
qed

lemma ParseFRG_Format_negative:
  assumes "q < 0"
  shows "ParseFRG (FormatFRG (Some q)) = Inl (GoError ''amount must be non-negative'')"
proof -
  have "TrimSpace (45 # FormatFRG (Some (- q))) = 45 # FormatFRG (Some (- q))"
    using FormatFRG_last[of "- q"] assms by (intro TrimSpace_digits) auto
  then show ?thesis by (simp add: FormatFRG_negative[OF assms] ParseFRG_def Let_def)
qed

text \<open>Amounts survive printing and parsing: the text printed for a non-negative number of quanta parses back
to exactly that number, and the text printed for a negative one is refused.\<close>

theorem denom_roundtrip:
  "(0 \<le> q \<longrightarrow> ParseFRG (FormatFRG (Some q)) = Inr q) \<and>
   (q < 0 \<longrightarrow> ParseFRG (FormatFRG (Some q)) = Inl (GoError ''amount must be non-negative''))"
  using ParseFRG_Format[of q] ParseFRG_Format_negative[of q] by blast

theorem denom_roundtrip_witness:
  "ParseFRG (FormatFRG (Some 1500000000000000000)) = Inr 1500000000000000000 \<and>
   ParseFRG (FormatFRG (Some (- 1))) = Inl (GoError ''amount must be non-negative'')"
  using denom_roundtrip[of 1500000000000000000] denom_roundtrip[of "- 1"] by simp

end
