(* ===== verification/FRG_BlockStore.thy ===== *)
theory FRG_BlockStore
  imports FRG_Tree FRG_Denom
begin

text \<open>
  Files \<^verbatim>\<open>core/statemachine/blockstore.go\<close> and \<^verbatim>\<open>core/statemachine/telemetry.go\<close>: blocks, their stored
  encoding in its two versions, and the structural summary stored beside each block. The JSON encoding
  of a summary is a parameter; a density, which the code keeps as a float, is the pair of its
  numerator and denominator.
\<close>

section \<open>Blocks\<close>

record Block =
  Height :: u64
  Txs :: "Tx list"
  ProposerPubKey :: bytes32
  PrevStateRoot :: bytes32
  BlockStateRoot :: bytes32
  ProposalBytes :: bytes

abbreviation (input) maxStoredBlockBytes :: nat where "maxStoredBlockBytes \<equiv> 67108864"
abbreviation (input) maxBlockRange :: u64 where "maxBlockRange \<equiv> 1024"

definition blockMagicV1 :: bytes where
  "blockMagicV1 = str ''FRG_BLOCK_V1'' @ [0]"

definition blockMagicV2 :: bytes where
  "blockMagicV2 = str ''FRG_BLOCK_V2'' @ [0]"

definition blockKey :: "u64 \<Rightarrow> bytes" where
  "blockKey height = PutUint64 height"

definition serializeBlock :: "crypto \<Rightarrow> Block \<Rightarrow> bytes res" where
  "serializeBlock C block =
     rbind (if Txs block \<noteq> [] then SerializeBatch C (Txs block) else Inr []) (\<lambda>batch.
     rguard (length (ProposalBytes block) > maxStoredBlockBytes) (GoError ''serialized proposal exceeds limit'')
     (let data = blockMagicV2 @ PutUint64 (Height block) @ arr32 (ProposerPubKey block)
            @ arr32 (PrevStateRoot block) @ arr32 (BlockStateRoot block)
            @ PutUint32 (of_nat (length (Txs block))) @ PutUint32 (of_nat (length (ProposalBytes block)))
            @ batch @ ProposalBytes block in
      rguard (length data > maxStoredBlockBytes) (GoError ''serialized block exceeds limit'') (Inr data)))"

definition SerializeBlock :: "crypto \<Rightarrow> Block \<Rightarrow> bytes res" where
  "SerializeBlock C block = serializeBlock C block"

definition deserializeV1Block :: "crypto \<Rightarrow> bytes \<Rightarrow> Block res" where
  "deserializeV1Block C data =
     (let block = \<lparr>Height = Uint64 (drop 13 data), Txs = [], ProposerPubKey = to32 (drop 21 data),
                   PrevStateRoot = 0, BlockStateRoot = 0, ProposalBytes = []\<rparr>;
          n = unat (Uint32 (drop 53 data)) in
      if n = 0 then rguard (length data \<noteq> 57) (GoError ''stored empty block has trailing bytes'') (Inr block)
      else rbind (DeserializeBatch C (drop 57 data)) (\<lambda>txs.
        rguard (length txs \<noteq> n) (GoError ''stored block transaction count mismatch'')
        (Inr (block\<lparr>Txs := txs\<rparr>))))"

definition deserializeBlock :: "crypto \<Rightarrow> bytes \<Rightarrow> Block res" where
  "deserializeBlock C data =
     rguard (length data < 57 \<or> length data > maxStoredBlockBytes) (GoError ''invalid stored block'')
     (if take 13 data = blockMagicV1 then deserializeV1Block C data
      else rguard (take 13 data \<noteq> blockMagicV2 \<or> length data < 125) (GoError ''invalid stored block'')
       (let n = unat (Uint32 (drop 117 data)); proposalLen = unat (Uint32 (drop 121 data)) in
        rguard (proposalLen > length data - 125) (GoError ''invalid stored proposal length'')
        (let batchEnd = length data - proposalLen;
             block = \<lparr>Height = Uint64 (drop 13 data), Txs = [], ProposerPubKey = to32 (drop 21 data),
                      PrevStateRoot = to32 (drop 53 data), BlockStateRoot = to32 (drop 85 data),
                      ProposalBytes = drop batchEnd data\<rparr> in
         rguard (batchEnd < 125) (GoError ''invalid stored block payload'')
         (if n = 0 then rguard (batchEnd \<noteq> 125) (GoError ''stored empty block has trailing bytes'') (Inr block)
          else rbind (DeserializeBatch C (go_slice 125 batchEnd data)) (\<lambda>txs.
            rguard (length txs \<noteq> n) (GoError ''stored block transaction count mismatch'')
            (Inr (block\<lparr>Txs := txs\<rparr>)))))))"

definition DeserializeBlock :: "crypto \<Rightarrow> bytes \<Rightarrow> Block res" where
  "DeserializeBlock C data = deserializeBlock C data"


section \<open>Telemetry\<close>

record TxTypeTelemetry =
  TypeCode :: u32
  TypeName :: bytes
  TypeCount :: u64

record SignatureTelemetry =
  SignatureCode :: u32
  SignatureName :: bytes
  SigCount :: u64

record RGLevelTelemetry =
  RGLevel :: u32
  LevelScale :: u32
  LevelNodeCount :: u64
  SignatureCounts :: "SignatureTelemetry list"
  LevelContractDensity :: "int \<times> nat"
  VolatileRegionIdx :: "u64 list"
  StagnantRegionIdx :: "u64 list"
  TotalVolume :: bytes
  LevelVarianceText :: bytes
  ContractTxCount :: u64
  ContractNodeCount :: u64

record BlockTelemetry =
  TelHeight :: u64
  TelStateRoot :: bytes32
  TelProposer :: bytes32
  TxCount :: u64
  TotalValue :: bytes
  MeanValue :: bytes
  VarianceText :: bytes
  TxTypes :: "TxTypeTelemetry list"
  Levels :: "RGLevelTelemetry list"
  ContractStateIncluded :: bool
  Warning :: bytes

definition txTypeName :: "u8 \<Rightarrow> bytes" where
  "txTypeName t =
     (if t = TxTypeTransfer then str ''transfer''
      else if t = TxTypeMissEvidence then str ''miss_evidence''
      else if t = TxTypeContractDeploy then str ''contract_deploy''
      else if t = TxTypeContractCall then str ''contract_call''
      else if t = TxTypeBond then str ''bond''
      else if t = TxTypeUnbond then str ''unbond''
      else if t = TxTypeFinalizeUnbond then str ''finalize_unbond''
      else if t = TxTypeClaimRewards then str ''claim_rewards''
      else if t = TxTypeEquivEvidence then str ''equivocation_evidence''
      else str ''unknown_'' @ bigString (uint t))"

definition signatureName :: "u8 \<Rightarrow> bytes" where
  "signatureName s =
     (if s = SigAtomic then str ''atomic''
      else if s = SigNullPad then str ''null_pad''
      else if s = SigStagnantState then str ''stagnant_state''
      else if s = SigLaminarFlow then str ''laminar_flow''
      else if s = SigVolatileShock then str ''volatile_shock''
      else if s = SigContract then str ''contract''
      else str ''unknown_'' @ bigString (uint s))"

definition intSliceToUint64 :: "nat list \<Rightarrow> u64 list" where
  "intSliceToUint64 xs = map of_nat xs"

definition levelVolume :: "RGNode list \<Rightarrow> int" where
  "levelVolume layer = foldl (\<lambda>a n. a + BytesToUint256 (Volume n)) 0 layer"

definition levelVariance :: "RGNode list \<Rightarrow> int" where
  "levelVariance layer = foldl (\<lambda>a n. a + BytesToUint256 (Variance n)) 0 layer"

definition contractTxCountForLevel :: "nat \<Rightarrow> u64 \<Rightarrow> u64" where
  "contractTxCountForLevel level contractTxCount = (if level \<noteq> 0 then 0 else contractTxCount)"

text \<open>The keys of the two count maps are bytes; those that occur are listed in ascending order.\<close>

definition allBytes :: "u8 list" where
  "allBytes = map of_nat [0..<256]"

definition formatTxTypeTelemetry :: "(u8 \<Rightarrow> nat) \<Rightarrow> TxTypeTelemetry list" where
  "formatTxTypeTelemetry counts =
     map (\<lambda>t. \<lparr>TypeCode = ucast t, TypeName = txTypeName t, TypeCount = of_nat (counts t)\<rparr>)
       (filter (\<lambda>t. counts t > 0) allBytes)"

definition formatSignatureTelemetry :: "(u8 \<Rightarrow> nat) \<Rightarrow> SignatureTelemetry list" where
  "formatSignatureTelemetry counts =
     map (\<lambda>s. \<lparr>SignatureCode = ucast s, SignatureName = signatureName s, SigCount = of_nat (counts s)\<rparr>)
       (filter (\<lambda>s. counts s > 0) allBytes)"

definition levelTelemetry :: "Tree \<Rightarrow> u64 \<Rightarrow> nat \<Rightarrow> RGLevelTelemetry res" where
  "levelTelemetry tr contractTxCount level =
     rbind (Layer tr level) (\<lambda>layer.
     rbind (ContractDensity tr level) (\<lambda>(nodes, contractNodes).
     rbind (SignatureHistogram tr level) (\<lambda>hist.
     rbind (VolatilityRegions tr level) (\<lambda>volatile.
     rbind (StagnantRegions tr level) (\<lambda>stagnant.
      Inr \<lparr>RGLevel = of_nat level, LevelScale = (if layer \<noteq> [] then Scale (layer ! 0) else 0),
           LevelNodeCount = of_nat (length layer), SignatureCounts = formatSignatureTelemetry hist,
           LevelContractDensity = (contractNodes, nodes), VolatileRegionIdx = intSliceToUint64 volatile,
           StagnantRegionIdx = intSliceToUint64 stagnant, TotalVolume = bigString (levelVolume layer),
           LevelVarianceText = bigString (levelVariance layer),
           ContractTxCount = contractTxCountForLevel level contractTxCount,
           ContractNodeCount = word_of_int contractNodes\<rparr>)))))"

definition formatRGTelemetryLevels :: "Tree \<Rightarrow> u64 \<Rightarrow> RGLevelTelemetry list res" where
  "formatRGTelemetryLevels tr contractTxCount = rmap (levelTelemetry tr contractTxCount) [0..<LayerCount tr]"

definition isContractTx :: "Tx \<Rightarrow> bool" where
  "isContractTx t \<longleftrightarrow> Type t = TxTypeContractDeploy \<or> Type t = TxTypeContractCall"

definition buildBlockTelemetryFromTree :: "Block \<Rightarrow> Tree \<Rightarrow> bool \<Rightarrow> BlockTelemetry res" where
  "buildBlockTelemetryFromTree block tr exactContractState =
     (let txs = Txs block;
          values = List.map_filter Value txs;
          totalSum = sum_list values;
          sumSquares = sum_list (map (\<lambda>v. v * v) values);
          txTypes = foldl (\<lambda>h t. h(Type t := h (Type t) + 1)) (\<lambda>_. 0) txs;
          contractTxCount = of_nat (length (filter isContractTx txs));
          n = int (length txs);
          mean = (if n > 0 then totalSum div n else 0);
          variance = (if n > 0 then max 0 (sumSquares div n - mean * mean) else 0) in
      rbind (formatRGTelemetryLevels tr contractTxCount) (\<lambda>levels.
       Inr \<lparr>TelHeight = Height block, TelStateRoot = BlockStateRoot block, TelProposer = ProposerPubKey block,
            TxCount = of_nat (length txs), TotalValue = bigString totalSum, MeanValue = bigString mean,
            VarianceText = bigString variance, TxTypes = formatTxTypeTelemetry txTypes, Levels = levels,
            ContractStateIncluded = exactContractState,
            Warning = (if \<not> exactContractState \<and> list_ex isContractTx txs
              then str ''historical contract-state RG nodes are not persisted for this block; telemetry reconstructs transaction structure only''
              else [])\<rparr>))"

definition BuildBlockTelemetry :: "crypto \<Rightarrow> Block option \<Rightarrow> RGNode list \<Rightarrow> bool \<Rightarrow> BlockTelemetry res" where
  "BuildBlockTelemetry C block contractNodes exactContractState =
     (case block of None \<Rightarrow> Inl (GoError ''block not found'')
      | Some block \<Rightarrow>
          rbind (BuildTree C (Txs block) contractNodes) (\<lambda>tr.
          buildBlockTelemetryFromTree block tr exactContractState))"

text \<open>\<^verbatim>\<open>encoding/json\<close> on the summary type.\<close>

record json =
  Marshal :: "BlockTelemetry \<Rightarrow> bytes"
  Unmarshal :: "bytes \<Rightarrow> BlockTelemetry res"

abbreviation (input) maxStoredBlockTelemetryBytes :: nat where "maxStoredBlockTelemetryBytes \<equiv> 2097152"

definition putBlockTelemetryTx ::
  "json \<Rightarrow> (bytes, bytes) bucket \<Rightarrow> BlockTelemetry \<Rightarrow> (bytes, bytes) bucket res" where
  "putBlockTelemetryTx J b telemetry =
     (let data = Marshal J telemetry in
      rguard (length data > maxStoredBlockTelemetryBytes) (GoError ''serialized block telemetry exceeds limit'')
      (Inr (bput b (blockKey (TelHeight telemetry)) data)))"

definition putBlockTx :: "crypto \<Rightarrow> (bytes, bytes) bucket \<Rightarrow> Block \<Rightarrow> (bytes, bytes) bucket res" where
  "putBlockTx C b block =
     rbind (serializeBlock C block) (\<lambda>data. Inr (bput b (blockKey (Height block)) data))"


section \<open>Stored blocks read back\<close>

lemma length_magic [simp]: "length blockMagicV1 = 13" "length blockMagicV2 = 13" "blockMagicV2 \<noteq> blockMagicV1"
  by (simp_all add: blockMagicV1_def blockMagicV2_def str_def)

lemma stored_fields:
  assumes "data = blockMagicV2 @ PutUint64 h @ arr32 p @ arr32 pr @ arr32 sr @ PutUint32 n @ PutUint32 pl @ rest"
  shows "take 13 data = blockMagicV2" "Uint64 (drop 13 data) = h" "to32 (drop 21 data) = p" "to32 (drop 53 data) = pr"
    "to32 (drop 85 data) = sr" "Uint32 (drop 117 data) = n" "Uint32 (drop 121 data) = pl" "drop 125 data = rest"
proof -
  show "take 13 data = blockMagicV2" using assms by simp
  have 13: "drop 13 data = PutUint64 h @ arr32 p @ arr32 pr @ arr32 sr @ PutUint32 n @ PutUint32 pl @ rest"
    using assms by simp
  then show "Uint64 (drop 13 data) = h" by (simp add: codec_simps)
  have 21: "drop 21 data = arr32 p @ arr32 pr @ arr32 sr @ PutUint32 n @ PutUint32 pl @ rest"
    using drop_next[OF 13, of 8] by simp
  then show "to32 (drop 21 data) = p" by (simp add: codec_simps)
  have 53: "drop 53 data = arr32 pr @ arr32 sr @ PutUint32 n @ PutUint32 pl @ rest"
    using drop_next[OF 21, of 32] by simp
  then show "to32 (drop 53 data) = pr" by (simp add: codec_simps)
  have 85: "drop 85 data = arr32 sr @ PutUint32 n @ PutUint32 pl @ rest"
    using drop_next[OF 53, of 32] by simp
  then show "to32 (drop 85 data) = sr" by (simp add: codec_simps)
  have 117: "drop 117 data = PutUint32 n @ PutUint32 pl @ rest"
    using drop_next[OF 85, of 32] by simp
  then show "Uint32 (drop 117 data) = n" by (simp add: codec_simps)
  have 121: "drop 121 data = PutUint32 pl @ rest" using drop_next[OF 117, of 4] by simp
  then show "Uint32 (drop 121 data) = pl" by (simp add: codec_simps)
  show "drop 125 data = rest" using drop_next[OF 121, of 4] by simp
qed

lemma serializeBlock_Inr:
  assumes "serializeBlock C b = Inr d"
  obtains batch where "if Txs b = [] then batch = [] else SerializeBatch C (Txs b) = Inr batch"
    "length d \<le> maxStoredBlockBytes" "length d = 125 + length batch + length (ProposalBytes b)"
    "d = blockMagicV2 @ PutUint64 (Height b) @ arr32 (ProposerPubKey b) @ arr32 (PrevStateRoot b)
       @ arr32 (BlockStateRoot b) @ PutUint32 (of_nat (length (Txs b)))
       @ PutUint32 (of_nat (length (ProposalBytes b))) @ batch @ ProposalBytes b"
  using assms by (auto simp: serializeBlock_def res_simps Let_def not_less split: if_splits)

lemma block_roundtrip:
  assumes "nfc_documented C" "serializeBlock C b = Inr d"
  shows "deserializeBlock C d =
    (if length (Txs b) < maxBatchTxs then Inr (b\<lparr>Txs := map (canonicalTx C) (Txs b)\<rparr>) else Inl canonErr)"
proof -
  obtain batch where batch: "if Txs b = [] then batch = [] else SerializeBatch C (Txs b) = Inr batch"
    and len: "length d \<le> maxStoredBlockBytes" "length d = 125 + length batch + length (ProposalBytes b)"
    and d: "d = blockMagicV2 @ PutUint64 (Height b) @ arr32 (ProposerPubKey b) @ arr32 (PrevStateRoot b)
       @ arr32 (BlockStateRoot b) @ PutUint32 (of_nat (length (Txs b)))
       @ PutUint32 (of_nat (length (ProposalBytes b))) @ batch @ ProposalBytes b"
    using serializeBlock_Inr[OF assms(2)] .
  note f = stored_fields[OF d]
  have txs: "length (Txs b) \<le> maxBatchTxs" using batch SerializeBatch_Inr[of C "Txs b" batch] by (cases "Txs b = []") auto
  have n: "unat (of_nat (length (Txs b)) :: u32) = length (Txs b)" "unat (of_nat (length (ProposalBytes b)) :: u32) = length (ProposalBytes b)"
    using txs len by (auto intro!: unat_of_nat_u32)
  have e: "length d - length (ProposalBytes b) = 125 + length batch" using len by simp
  have slice: "go_slice 125 (125 + length batch) d = batch" using f(8) by (simp add: go_slice_def drop_take)
  have pp: "drop (125 + length batch) d = ProposalBytes b"
    using f(8) by (metis append_eq_conv_conj drop_drop add.commute)
  have bat: "DeserializeBatch C batch = (if length (Txs b) < maxBatchTxs then Inr (map (canonicalTx C) (Txs b)) else Inl canonErr)"
    if "Txs b \<noteq> []" using batch_roundtrip_general[OF assms(1)] batch that by auto
  have upd: "b\<lparr>Txs := txs\<rparr> = \<lparr>Height = Height b, Txs = txs, ProposerPubKey = ProposerPubKey b,
      PrevStateRoot = PrevStateRoot b, BlockStateRoot = BlockStateRoot b, ProposalBytes = ProposalBytes b\<rparr>" for txs
    by (cases b) simp
  have "deserializeBlock C d = (if length (Txs b) = 0 then Inr (b\<lparr>Txs := []\<rparr>)
      else rbind (DeserializeBatch C batch) (\<lambda>txs. rguard (length txs \<noteq> length (Txs b))
        (GoError ''stored block transaction count mismatch'') (Inr (b\<lparr>Txs := txs\<rparr>))))"
    using len batch by (auto simp: deserializeBlock_def f n e slice pp upd Let_def)
  then show ?thesis using bat by auto
qed

text \<open>A stored block reads back as the block that was stored, with its transactions in canonical form. The
one exception is a block of exactly 65,536 transactions, the largest that can be applied: it is stored,
but reading it back is an error.\<close>

theorem blockstore_roundtrip:
  assumes "nfc_documented C" "SerializeBlock C b = Inr d"
  shows "DeserializeBlock C d =
    (if length (Txs b) < maxBatchTxs then Inr (b\<lparr>Txs := map (canonicalTx C) (Txs b)\<rparr>) else Inl canonErr)"
  using block_roundtrip[OF assms(1)] assms(2) by (simp add: SerializeBlock_def DeserializeBlock_def)

definition sampleBlock :: Block where
  "sampleBlock = \<lparr>Height = 1, Txs = [], ProposerPubKey = 5, PrevStateRoot = 0, BlockStateRoot = 7, ProposalBytes = [1, 2]\<rparr>"

theorem blockstore_roundtrip_witness:
  "\<exists>d. SerializeBlock sample_crypto sampleBlock = Inr d \<and> DeserializeBlock sample_crypto d = Inr sampleBlock"
proof -
  have "case SerializeBlock sample_crypto sampleBlock of Inr _ \<Rightarrow> True | Inl _ \<Rightarrow> False" by code_simp
  then obtain d where d: "SerializeBlock sample_crypto sampleBlock = Inr d" by (auto split: sum.splits)
  from blockstore_roundtrip[OF sample_crypto_ok(2) d] d show ?thesis by (simp add: sampleBlock_def)
qed

end
