(* ===== verification/FRG_Ledger.thy ===== *)
theory FRG_Ledger
  imports FRG_Tx
begin

text \<open>
  Package \<^verbatim>\<open>core/ledger\<close> (\<^verbatim>\<open>ledger.go\<close>): balances and nonces in two buckets of the store, at the
  level of the stored bytes.  An operation takes the buckets and returns them updated.  An error
  inside \<^verbatim>\<open>db.Update\<close> rolls the transaction back, so the state after an error is not observable
  and an error is \<open>Inl\<close>; the exception is \<open>MoveTx\<close>, whose error the contract host swallows, and
  which therefore returns the buckets it has written in every case.  The interface \<open>token_ledger\<close>
  states what the other components rely on.
\<close>

section \<open>Balances\<close>

type_synonym account = bytes32

record LedgerDB =
  balances :: "(account, bytes) bucket"
  nonces :: "(account, bytes) bucket"

definition validateUint256 :: "int option \<Rightarrow> unit res" where
  "validateUint256 v = (case v of None \<Rightarrow> Inl overflowErr
     | Some x \<Rightarrow> rguard (x < 0) overflowErr (rguard (x > UINT256_MAX) overflowErr (Inr ())))"

definition readBalance :: "(account, bytes) bucket \<Rightarrow> account \<Rightarrow> int" where
  "readBalance b account = (case bget b account of None \<Rightarrow> 0 | Some v \<Rightarrow> be_val v)"

definition writeBalance ::
  "(account, bytes) bucket \<Rightarrow> account \<Rightarrow> int option \<Rightarrow> (account, bytes) bucket res" where
  "writeBalance b account bal =
     rbind (validateUint256 bal) (\<lambda>_.
      let balBytes = nat_bytes (the bal) in
      rguard (length balBytes > 32) overflowErr
       (Inr (bput b account (replicate (32 - length balBytes) 0 @ balBytes))))"

definition BalanceOfTx :: "LedgerDB \<Rightarrow> account \<Rightarrow> int" where
  "BalanceOfTx l account = readBalance (balances l) account"

definition BalanceOf :: "LedgerDB \<Rightarrow> account \<Rightarrow> int" where
  "BalanceOf l account = BalanceOfTx l account"

definition setBalances :: "LedgerDB \<Rightarrow> (account, bytes) bucket res \<Rightarrow> LedgerDB res" where
  "setBalances l r = rbind r (\<lambda>b. Inr (l\<lparr>balances := b\<rparr>))"


section \<open>Operations\<close>

definition NonceOf :: "LedgerDB \<Rightarrow> account \<Rightarrow> u64 res" where
  "NonceOf l account = (case bget (nonces l) account of None \<Rightarrow> Inr 0
     | Some v \<Rightarrow> rguard (length v < 8) Panic (Inr (Uint64 v)))"

definition AdvanceNonceTx :: "LedgerDB \<Rightarrow> account \<Rightarrow> u64 \<Rightarrow> LedgerDB res" where
  "AdvanceNonceTx l account nonce =
     rbind (case bget (nonces l) account of None \<Rightarrow> Inr 0
       | Some v \<Rightarrow> rguard (length v < 8) Panic (Inr (Uint64 v))) (\<lambda>storedNonce.
      rguard (nonce \<noteq> storedNonce + 1) (RGError ErrSequenceFault)
       (Inr (l\<lparr>nonces := bput (nonces l) account (PutUint64 nonce)\<rparr>)))"

text \<open>A nil amount dereferences nil in \<^verbatim>\<open>big.Int.Cmp\<close>.  Both balances are read before either is
  written.\<close>

definition TransferTx :: "LedgerDB \<Rightarrow> Tx \<Rightarrow> LedgerDB res" where
  "TransferTx l t =
     rbind (AdvanceNonceTx l (SenderPubKey t) (Nonce t)) (\<lambda>l.
      case Value t of None \<Rightarrow> Inl Panic
      | Some v \<Rightarrow>
         (let bb = balances l;
              senderBal = readBalance bb (SenderPubKey t) in
          rguard (senderBal < v) (RGError ErrInsufficientFunds)
          (let senderBal = senderBal - v;
               receiverBal = readBalance bb (ReceiverPubKey t) + v in
           rbind (writeBalance bb (SenderPubKey t) (Some senderBal)) (\<lambda>bb.
           setBalances l (writeBalance bb (ReceiverPubKey t) (Some receiverBal))))))"

definition Transfer :: "crypto \<Rightarrow> LedgerDB \<Rightarrow> Tx \<Rightarrow> LedgerDB res" where
  "Transfer C l t =
     rbind (VerifySigs C t) (\<lambda>_. rbind (validateUint256 (Value t)) (\<lambda>_. TransferTx l t))"

definition BurnTx :: "LedgerDB \<Rightarrow> account \<Rightarrow> int \<Rightarrow> LedgerDB res" where
  "BurnTx l account amount =
     (let bal = readBalance (balances l) account in
      rguard (bal < amount) (RGError ErrInsufficientFunds)
       (setBalances l (writeBalance (balances l) account (Some (bal - amount)))))"

definition Burn :: "LedgerDB \<Rightarrow> account \<Rightarrow> int option \<Rightarrow> LedgerDB res" where
  "Burn l account amount =
     rbind (validateUint256 amount) (\<lambda>_. BurnTx l account (the amount))"

text \<open>\<open>MoveTx\<close> returns the buckets as it leaves them: a failing second write leaves the first one in
  the transaction.\<close>

definition MoveTx :: "LedgerDB \<Rightarrow> account \<Rightarrow> account \<Rightarrow> int option \<Rightarrow> LedgerDB \<times> unit res" where
  "MoveTx l from to amount =
     (case validateUint256 amount of Inl e \<Rightarrow> (l, Inl e) | Inr _ \<Rightarrow>
      let amount = the amount; b = balances l; fromBal = readBalance b from in
      if fromBal < amount then (l, Inl (RGError ErrInsufficientFunds)) else
      let fromBal = fromBal - amount; toBal = readBalance b to + amount in
      case writeBalance b from (Some fromBal) of Inl e \<Rightarrow> (l, Inl e) | Inr b1 \<Rightarrow>
      case writeBalance b1 to (Some toBal) of Inl e \<Rightarrow> (l\<lparr>balances := b1\<rparr>, Inl e)
      | Inr b2 \<Rightarrow> (l\<lparr>balances := b2\<rparr>, Inr ()))"

text \<open>\<^verbatim>\<open>db.Update\<close> on the ledger: an error rolls back.\<close>

definition Update :: "LedgerDB \<times> unit res \<Rightarrow> LedgerDB res" where
  "Update r = (case r of (l, Inl e) \<Rightarrow> Inl e | (l, Inr _) \<Rightarrow> Inr l)"

definition Move :: "LedgerDB \<Rightarrow> account \<Rightarrow> account \<Rightarrow> int option \<Rightarrow> LedgerDB res" where
  "Move l from to amount =
     rbind (validateUint256 amount) (\<lambda>_.
      let amount = the amount; b = balances l; fromBal = readBalance b from in
      rguard (fromBal < amount) (RGError ErrInsufficientFunds)
      (let fromBal = fromBal - amount; toBal = readBalance b to + amount in
       rbind (writeBalance b from (Some fromBal)) (\<lambda>b.
       setBalances l (writeBalance b to (Some toBal)))))"

definition SeedTx :: "LedgerDB \<Rightarrow> account \<Rightarrow> int option \<Rightarrow> LedgerDB res" where
  "SeedTx l account amount = setBalances l (writeBalance (balances l) account amount)"

definition Seed :: "LedgerDB \<Rightarrow> account \<Rightarrow> int option \<Rightarrow> LedgerDB res" where
  "Seed l account amount = rbind (validateUint256 amount) (\<lambda>_. SeedTx l account amount)"

definition CreditTx :: "LedgerDB \<Rightarrow> account \<Rightarrow> int \<Rightarrow> LedgerDB res" where
  "CreditTx l account amount =
     (let cur = readBalance (balances l) account in
      setBalances l (writeBalance (balances l) account (Some (cur + amount))))"

text \<open>\<^verbatim>\<open>New\<close> on an empty database creates both buckets.\<close>

definition NewLedger :: LedgerDB where
  "NewLedger = \<lparr>balances = [], nonces = []\<rparr>"


section \<open>Invariant and abstraction\<close>

definition balances_ok :: "(account, bytes) bucket \<Rightarrow> bool" where
  "balances_ok b \<longleftrightarrow> bucket_ok b \<and> (\<forall>(k, v)\<in>set b. length v = 32)"

definition ledger_ok :: "LedgerDB \<Rightarrow> bool" where
  "ledger_ok l \<longleftrightarrow> balances_ok (balances l) \<and> bucket_ok (nonces l) \<and>
     (\<forall>(k, v)\<in>set (nonces l). length v = 8)"

definition nonceAt :: "LedgerDB \<Rightarrow> account \<Rightarrow> u64" where
  "nonceAt l a = (case bget (nonces l) a of None \<Rightarrow> 0 | Some v \<Rightarrow> Uint64 v)"

definition totalBalances :: "(account, bytes) bucket \<Rightarrow> int" where
  "totalBalances b = (\<Sum>a | bget b a \<noteq> None. be_val (the (bget b a)))"

abbreviation supplyOf :: "LedgerDB \<Rightarrow> int" where
  "supplyOf l \<equiv> totalBalances (balances l)"

lemma ledger_ok_New [simp]: "ledger_ok NewLedger"
  by (simp add: ledger_ok_def balances_ok_def NewLedger_def bucket_ok_def)

lemma validateUint256_Inr_iff [res_simps]:
  "validateUint256 x = Inr u \<longleftrightarrow> (\<exists>v. x = Some v \<and> 0 \<le> v \<and> v \<le> UINT256_MAX)"
  by (cases x) (auto simp: validateUint256_def res_simps)

lemma validateUint256_Inl_iff [res_simps]:
  "validateUint256 x = Inl e \<longleftrightarrow> e = overflowErr \<and> (\<forall>v. x = Some v \<longrightarrow> v < 0 \<or> v > UINT256_MAX)"
  by (cases x) (auto simp: validateUint256_def res_simps)

lemma validateUint256_cases:
  "validateUint256 x = (if \<exists>v. x = Some v \<and> 0 \<le> v \<and> v \<le> UINT256_MAX then Inr () else Inl overflowErr)"
  by (cases x) (auto simp: validateUint256_def rguard_def)

text \<open>A balance is written exactly when it is in range, and then as its 32 big-endian bytes.\<close>

lemma writeBalance_eq:
  "writeBalance b a (Some v) =
     (if 0 \<le> v \<and> v \<le> UINT256_MAX then Inr (bput b a (be_bytes 32 v)) else Inl overflowErr)"
proof (cases "0 \<le> v \<and> v \<le> UINT256_MAX")
  case True
  then have lt: "v < 256 ^ 32" by (simp add: UINT256_MAX_bytes)
  have "length (nat_bytes v) \<le> 32"
    using True lt by (intro length_nat_bytes_le) auto
  moreover have "replicate (32 - length (nat_bytes v)) 0 @ nat_bytes v = be_bytes 32 v"
    using True lt by (intro pad_nat_bytes) auto
  ultimately show ?thesis
    using True by (simp add: writeBalance_def validateUint256_cases)
next
  case False
  then show ?thesis by (auto simp: writeBalance_def validateUint256_cases)
qed

lemma writeBalance_None: "writeBalance b a None = Inl overflowErr"
  by (simp add: writeBalance_def validateUint256_def)

lemma readBalance_nonneg [simp]: "0 \<le> readBalance b a"
  by (simp add: readBalance_def split: option.splits)

lemma readBalance_bput:
  assumes "0 \<le> v" "v \<le> UINT256_MAX"
  shows "readBalance (bput b a (be_bytes 32 v)) = (readBalance b)(a := v)"
proof -
  have "be_val (be_bytes 32 v) = v"
    using assms by (intro be_val_be_bytes_id) (auto simp: UINT256_MAX_bytes)
  then show ?thesis by (auto simp: readBalance_def bucket_simps)
qed

lemma totalBalances_bput:
  assumes "0 \<le> v" "v \<le> UINT256_MAX"
  shows "totalBalances (bput b a (be_bytes 32 v)) = totalBalances b - readBalance b a + v"
proof -
  have "be_val (be_bytes 32 v) = v"
    using assms by (intro be_val_be_bytes_id) (auto simp: UINT256_MAX_bytes)
  then show ?thesis
    using bolt.sum_put[where b = b and k = a and v = "be_bytes 32 v" and f = "\<lambda>_. be_val"]
    by (simp add: totalBalances_def readBalance_def)
qed

lemma balances_ok_bput: "balances_ok b \<Longrightarrow> balances_ok (bput b a (be_bytes 32 v))"
proof -
  have "set (bput b a w) \<subseteq> insert (a, w) (set b)" for w
    by (induction b a w rule: bput.induct) auto
  then show "balances_ok b \<Longrightarrow> ?thesis"
    by (fastforce simp: balances_ok_def bucket_ok_bput)
qed

lemma readBalance_le_MAX:
  assumes "balances_ok b"
  shows "readBalance b a \<le> UINT256_MAX"
proof (cases "bget b a")
  case None
  then show ?thesis by (simp add: readBalance_def UINT256_MAX_def)
next
  case (Some v)
  then have "(a, v) \<in> set b" using assms by (simp add: balances_ok_def bucket_ok_mem_iff)
  with assms have "length v = 32" by (auto simp: balances_ok_def)
  then have "be_val v < 256 ^ 32" using be_val_less[of v] by simp
  with Some show ?thesis by (simp add: readBalance_def UINT256_MAX_bytes)
qed

lemma totalBalances_nonneg [simp]: "0 \<le> totalBalances b"
  by (simp add: totalBalances_def sum_nonneg)

lemma two_balances_le_total:
  assumes "a \<noteq> c"
  shows "readBalance b a + readBalance b c \<le> totalBalances b"
proof -
  let ?D = "{j. bget b j \<noteq> None}" and ?f = "\<lambda>j. be_val (the (bget b j))"
  have nn: "0 \<le> (\<Sum>j\<in>?D - {a} - {c}. ?f j)" by (simp add: sum_nonneg)
  have "totalBalances b = (\<Sum>j\<in>?D - {a}. ?f j) + readBalance b a"
    using bolt.sum_split[where b = b and k = a and f = "\<lambda>_. be_val"] by (simp add: totalBalances_def readBalance_def)
  moreover have "(\<Sum>j\<in>?D - {a}. ?f j) = (\<Sum>j\<in>?D - {a} - {c}. ?f j) + readBalance b c"
  proof (cases "bget b c")
    case None
    then have "?D - {a} - {c} = ?D - {a}" by auto
    then show ?thesis using None by (simp add: readBalance_def)
  next
    case (Some w)
    have "finite (?D - {a})" using bget_finite by auto
    moreover have "c \<in> ?D - {a}" using Some assms by auto
    ultimately have "(\<Sum>j\<in>?D - {a}. ?f j) = ?f c + (\<Sum>j\<in>?D - {a} - {c}. ?f j)"
      by (rule sum.remove)
    then show ?thesis using Some by (simp add: readBalance_def)
  qed
  ultimately show ?thesis using nn by linarith
qed

lemma balance_le_total: "readBalance b a \<le> totalBalances b"
proof -
  have "readBalance b a + readBalance b (a + 1) \<le> totalBalances b"
    by (rule two_balances_le_total) simp
  then show ?thesis using readBalance_nonneg[of b "a + 1"] by linarith
qed


section \<open>The operations on the abstraction\<close>

lemma AdvanceNonceTx_eq:
  assumes "ledger_ok l"
  shows "AdvanceNonceTx l a n =
    (if n = nonceAt l a + 1 then Inr (l\<lparr>nonces := bput (nonces l) a (PutUint64 n)\<rparr>)
     else Inl (RGError ErrSequenceFault))"
proof -
  have "length v = 8" if "bget (nonces l) a = Some v" for v
    using assms that bucket_ok_mem_iff[of "nonces l" a v] by (auto simp: ledger_ok_def)
  then show ?thesis
    by (cases "bget (nonces l) a") (auto simp: AdvanceNonceTx_def nonceAt_def rguard_def)
qed

lemma nonceAt_bput:
  "nonceAt (l\<lparr>nonces := bput (nonces l) a (PutUint64 n)\<rparr>) = (nonceAt l)(a := n)"
  using U64.dec_enc_exact[of n] by (auto simp: nonceAt_def bucket_simps)

lemma nonceAt_balances [simp]: "nonceAt (l\<lparr>balances := b\<rparr>) = nonceAt l"
  by (simp add: nonceAt_def fun_eq_iff)

lemma ledger_ok_nonce:
  "ledger_ok l \<Longrightarrow> ledger_ok (l\<lparr>nonces := bput (nonces l) a (PutUint64 n)\<rparr>)"
proof -
  have "set (bput b a w) \<subseteq> insert (a, w) (set b)" for b :: "(account, bytes) bucket" and w
    by (induction b a w rule: bput.induct) auto
  then show "ledger_ok l \<Longrightarrow> ?thesis"
    by (fastforce simp: ledger_ok_def bucket_ok_bput)
qed

lemma ledger_ok_balances: "ledger_ok l \<Longrightarrow> balances_ok b \<Longrightarrow> ledger_ok (l\<lparr>balances := b\<rparr>)"
  by (simp add: ledger_ok_def)

text \<open>Moving \<open>v\<close> from one account to another, both balances having been read first: the second
  write wins when the accounts coincide.\<close>

definition moved :: "(account, bytes) bucket \<Rightarrow> account \<Rightarrow> account \<Rightarrow> int \<Rightarrow> (account, bytes) bucket" where
  "moved b from to v =
     bput (bput b from (be_bytes 32 (readBalance b from - v))) to (be_bytes 32 (readBalance b to + v))"

lemma moved_facts:
  assumes "balances_ok b" "0 \<le> v" "v \<le> readBalance b from" "readBalance b to + v \<le> UINT256_MAX"
  shows "readBalance (moved b from to v) =
      (readBalance b)(from := readBalance b from - v, to := readBalance b to + v)"
    and "totalBalances (moved b from to v) = totalBalances b + (if from = to then v else 0)"
    and "balances_ok (moved b from to v)"
proof -
  let ?w = "readBalance b from - v" and ?u = "readBalance b to + v"
  have w: "0 \<le> ?w" "?w \<le> UINT256_MAX"
    using assms readBalance_le_MAX[OF assms(1), of "from"] by auto
  have u: "0 \<le> ?u" "?u \<le> UINT256_MAX"
    using assms readBalance_nonneg[of b to] by auto
  show "readBalance (moved b from to v) =
      (readBalance b)(from := readBalance b from - v, to := readBalance b to + v)"
    by (simp add: moved_def readBalance_bput[OF u] readBalance_bput[OF w])
  show "totalBalances (moved b from to v) = totalBalances b + (if from = to then v else 0)"
    by (simp add: moved_def totalBalances_bput[OF u] totalBalances_bput[OF w] readBalance_bput[OF w])
  show "balances_ok (moved b from to v)"
    by (simp add: moved_def balances_ok_bput assms(1))
qed

lemma write_both:
  assumes "balances_ok b" "0 \<le> v" "v \<le> readBalance b from"
  shows "rbind (writeBalance b from (Some (readBalance b from - v)))
           (\<lambda>b1. writeBalance b1 to (Some (readBalance b to + v))) =
    (if readBalance b to + v \<le> UINT256_MAX then Inr (moved b from to v) else Inl overflowErr)"
  using assms readBalance_le_MAX[OF assms(1), of "from"] readBalance_nonneg[of b to]
  by (auto simp: writeBalance_eq moved_def)

lemma TransferTx_eq:
  assumes "ledger_ok l" "Value t = Some v" "0 \<le> v"
  defines "s \<equiv> SenderPubKey t" and "r \<equiv> ReceiverPubKey t"
  shows "TransferTx l t =
    (if Nonce t \<noteq> nonceAt l s + 1 then Inl (RGError ErrSequenceFault)
     else if BalanceOfTx l s < v then Inl (RGError ErrInsufficientFunds)
     else if BalanceOfTx l r + v > UINT256_MAX then Inl overflowErr
     else Inr (l\<lparr>nonces := bput (nonces l) s (PutUint64 (Nonce t)), balances := moved (balances l) s r v\<rparr>))"
proof -
  have b: "balances_ok (balances l)" using assms(1) by (simp add: ledger_ok_def)
  show ?thesis
    using write_both[OF b assms(3), of s r] assms(2)
    by (auto simp: TransferTx_def AdvanceNonceTx_eq[OF assms(1)] setBalances_def rbind_assoc[symmetric]
        BalanceOfTx_def Let_def rguard_def s_def r_def not_less)
qed

lemma MoveTx_eq:
  assumes "ledger_ok l" "0 \<le> v"
  shows "MoveTx l from to (Some v) =
    (if v > UINT256_MAX then (l, Inl overflowErr)
     else if BalanceOfTx l from < v then (l, Inl (RGError ErrInsufficientFunds))
     else if BalanceOfTx l to + v > UINT256_MAX then
       (l\<lparr>balances := bput (balances l) from (be_bytes 32 (BalanceOfTx l from - v))\<rparr>, Inl overflowErr)
     else (l\<lparr>balances := moved (balances l) from to v\<rparr>, Inr ()))"
proof -
  have b: "balances_ok (balances l)" using assms(1) by (simp add: ledger_ok_def)
  show ?thesis
    using assms(2) readBalance_le_MAX[OF b, of "from"] readBalance_nonneg[of "balances l" to]
    by (auto simp: MoveTx_def validateUint256_cases writeBalance_eq Let_def BalanceOfTx_def moved_def)
qed

lemma MoveTx_bad_amount:
  "v < 0 \<Longrightarrow> MoveTx l from to (Some v) = (l, Inl overflowErr)"
  "MoveTx l from to None = (l, Inl overflowErr)"
  by (simp_all add: MoveTx_def validateUint256_cases)

lemma Move_MoveTx: "Move l from to amount = Update (MoveTx l from to amount)"
  by (cases amount)
    (auto simp: Move_def MoveTx_def Update_def Let_def validateUint256_cases setBalances_def
      writeBalance_eq rguard_def)

lemma BurnTx_eq:
  assumes "ledger_ok l" "0 \<le> v"
  shows "BurnTx l a v =
    (if BalanceOfTx l a < v then Inl (RGError ErrInsufficientFunds)
     else Inr (l\<lparr>balances := bput (balances l) a (be_bytes 32 (BalanceOfTx l a - v))\<rparr>))"
proof -
  have b: "balances_ok (balances l)" using assms(1) by (simp add: ledger_ok_def)
  show ?thesis
    using assms(2) readBalance_le_MAX[OF b, of a]
    by (simp add: BurnTx_def BalanceOfTx_def Let_def setBalances_def writeBalance_eq rguard_def)
qed

lemma CreditTx_eq:
  assumes "0 \<le> v"
  shows "CreditTx l a v =
    (if BalanceOfTx l a + v > UINT256_MAX then Inl overflowErr
     else Inr (l\<lparr>balances := bput (balances l) a (be_bytes 32 (BalanceOfTx l a + v))\<rparr>))"
  using assms readBalance_nonneg[of "balances l" a]
  by (simp add: CreditTx_def BalanceOfTx_def Let_def setBalances_def writeBalance_eq)


section \<open>The ledger as other components see it\<close>

locale token_ledger =
  fixes ok :: "'s \<Rightarrow> bool" and bal :: "'s \<Rightarrow> 'a \<Rightarrow> int" and total :: "'s \<Rightarrow> int"
    and burn :: "'s \<Rightarrow> 'a \<Rightarrow> int \<Rightarrow> 'e + 's" and credit :: "'s \<Rightarrow> 'a \<Rightarrow> int \<Rightarrow> 'e + 's"
    and move :: "'s \<Rightarrow> 'a \<Rightarrow> 'a \<Rightarrow> int \<Rightarrow> 'e + 's"
  assumes bal_nonneg: "0 \<le> bal s a"
    and bal_le_total: "bal s a \<le> total s"
    and burn_law: "ok s \<Longrightarrow> 0 \<le> v \<Longrightarrow> burn s a v = Inr s' \<Longrightarrow>
      ok s' \<and> v \<le> bal s a \<and> bal s' = (bal s)(a := bal s a - v) \<and> total s' = total s - v"
    and burn_succeeds: "ok s \<Longrightarrow> 0 \<le> v \<Longrightarrow> v \<le> bal s a \<Longrightarrow> \<exists>s'. burn s a v = Inr s'"
    and credit_law: "ok s \<Longrightarrow> 0 \<le> v \<Longrightarrow> credit s a v = Inr s' \<Longrightarrow>
      ok s' \<and> bal s' = (bal s)(a := bal s a + v) \<and> total s' = total s + v"
    and move_law: "ok s \<Longrightarrow> 0 \<le> v \<Longrightarrow> move s f t v = Inr s' \<Longrightarrow>
      ok s' \<and> v \<le> bal s f \<and> bal s' = (bal s)(f := bal s f - v, t := bal s t + v) \<and>
      total s' = total s + (if f = t then v else 0)"
begin

lemma burn_loop:
  assumes "rfold (\<lambda>(a, v) s. burn s a v) xs s = Inr s'" "ok s" "\<forall>(a, v)\<in>set xs. 0 \<le> v"
  shows "ok s' \<and> total s' = total s - sum_list (map snd xs)"
  using assms
proof (induction xs arbitrary: s)
  case (Cons x xs)
  obtain a v where x: "x = (a, v)" by force
  with Cons.prems(1) obtain u where u: "burn s a v = Inr u"
    and rest: "rfold (\<lambda>(a, v) s. burn s a v) xs u = Inr s'"
    by (auto simp: res_simps)
  have "ok u \<and> total u = total s - v" using burn_law[OF Cons.prems(2) _ u] Cons.prems(3) x by auto
  with Cons.IH[OF rest] Cons.prems(3) x show ?case by auto
qed simp

lemma credit_loop:
  assumes "rfold (\<lambda>(a, v) s. credit s a v) xs s = Inr s'" "ok s" "\<forall>(a, v)\<in>set xs. 0 \<le> v"
  shows "ok s' \<and> total s' = total s + sum_list (map snd xs) \<and> (\<forall>a. bal s a \<le> bal s' a)"
  using assms
proof (induction xs arbitrary: s)
  case (Cons x xs)
  obtain a v where x: "x = (a, v)" by force
  with Cons.prems(1) obtain u where u: "credit s a v = Inr u"
    and rest: "rfold (\<lambda>(a, v) s. credit s a v) xs u = Inr s'"
    by (auto simp: res_simps)
  have "ok u" "total u = total s + v" "\<forall>b. bal s b \<le> bal u b"
    using credit_law[OF Cons.prems(2) _ u] Cons.prems(3) x by auto
  with Cons.IH[OF rest] Cons.prems(3) x show ?case by (auto intro: order_trans)
qed simp

lemma move_other: "ok s \<Longrightarrow> 0 \<le> v \<Longrightarrow> move s f t v = Inr s' \<Longrightarrow> a \<noteq> f \<Longrightarrow> a \<noteq> t \<Longrightarrow> bal s' a = bal s a"
  using move_law[of s v f t s'] by simp

end

definition moveAll :: "LedgerDB \<Rightarrow> account \<Rightarrow> account \<Rightarrow> int \<Rightarrow> LedgerDB res" where
  "moveAll l from to v = Update (MoveTx l from to (Some v))"

lemma balances_ok_ledger: "ledger_ok l \<Longrightarrow> balances_ok (balances l)"
  by (simp add: ledger_ok_def)

lemma BurnTx_law:
  assumes "ledger_ok l" "0 \<le> v" "BurnTx l a v = Inr l'"
  shows "ledger_ok l' \<and> v \<le> BalanceOfTx l a \<and>
    BalanceOfTx l' = (BalanceOfTx l)(a := BalanceOfTx l a - v) \<and> supplyOf l' = supplyOf l - v \<and>
    nonces l' = nonces l"
proof -
  let ?w = "readBalance (balances l) a - v"
  from assms(3) have le: "v \<le> readBalance (balances l) a"
    and l': "l' = l\<lparr>balances := bput (balances l) a (be_bytes 32 ?w)\<rparr>"
    by (auto simp: BurnTx_eq[OF assms(1,2)] BalanceOfTx_def split: if_splits)
  have w: "0 \<le> ?w" "?w \<le> UINT256_MAX"
    using le assms(2) readBalance_le_MAX[OF balances_ok_ledger[OF assms(1)], of a] by auto
  show ?thesis
    using le assms(1)
    by (auto simp: l' BalanceOfTx_def fun_eq_iff readBalance_bput[OF w] totalBalances_bput[OF w]
        ledger_ok_def balances_ok_bput)
qed

lemma CreditTx_law:
  assumes "ledger_ok l" "0 \<le> v" "CreditTx l a v = Inr l'"
  shows "ledger_ok l' \<and> BalanceOfTx l' = (BalanceOfTx l)(a := BalanceOfTx l a + v) \<and>
    supplyOf l' = supplyOf l + v \<and> nonces l' = nonces l"
proof -
  let ?w = "readBalance (balances l) a + v"
  from assms(3) have le: "?w \<le> UINT256_MAX"
    and l': "l' = l\<lparr>balances := bput (balances l) a (be_bytes 32 ?w)\<rparr>"
    by (auto simp: CreditTx_eq[OF assms(2)] BalanceOfTx_def split: if_splits)
  have w: "0 \<le> ?w" using assms(2) readBalance_nonneg[of "balances l" a] by linarith
  show ?thesis
    using assms(1)
    by (auto simp: l' BalanceOfTx_def fun_eq_iff readBalance_bput[OF w le] totalBalances_bput[OF w le]
        ledger_ok_def balances_ok_bput)
qed

lemma MoveTx_law:
  assumes "ledger_ok l" "0 \<le> v" "MoveTx l from to (Some v) = (l', Inr u)"
  shows "ledger_ok l' \<and> v \<le> BalanceOfTx l from \<and>
    BalanceOfTx l' = (BalanceOfTx l)(from := BalanceOfTx l from - v, to := BalanceOfTx l to + v) \<and>
    supplyOf l' = supplyOf l + (if from = to then v else 0) \<and> nonces l' = nonces l"
proof -
  from assms(3) have le: "v \<le> readBalance (balances l) from" "readBalance (balances l) to + v \<le> UINT256_MAX"
    and l': "l' = l\<lparr>balances := moved (balances l) from to v\<rparr>"
    by (auto simp: MoveTx_eq[OF assms(1,2)] BalanceOfTx_def split: if_splits)
  note m = moved_facts[OF balances_ok_ledger[OF assms(1)] assms(2) le]
  show ?thesis
    using le assms(1) by (simp add: l' BalanceOfTx_def fun_eq_iff m ledger_ok_def)
qed

interpretation tokens: token_ledger ledger_ok BalanceOfTx "\<lambda>l. supplyOf l" BurnTx CreditTx moveAll
proof
  fix l :: LedgerDB and a b :: account and v :: int and l'
  show "0 \<le> BalanceOfTx l a" by (simp add: BalanceOfTx_def)
  show "BalanceOfTx l a \<le> supplyOf l" by (simp add: BalanceOfTx_def balance_le_total)
  assume ok: "ledger_ok l" and v: "0 \<le> v"
  show "\<exists>s'. BurnTx l a v = Inr s'" if "v \<le> BalanceOfTx l a"
    using that by (simp add: BurnTx_eq[OF ok v])
  show "ledger_ok l' \<and> v \<le> BalanceOfTx l a \<and> BalanceOfTx l' = (BalanceOfTx l)(a := BalanceOfTx l a - v) \<and>
      supplyOf l' = supplyOf l - v" if "BurnTx l a v = Inr l'"
    using BurnTx_law[OF ok v that] by blast
  show "ledger_ok l' \<and> BalanceOfTx l' = (BalanceOfTx l)(a := BalanceOfTx l a + v) \<and>
      supplyOf l' = supplyOf l + v" if "CreditTx l a v = Inr l'"
    using CreditTx_law[OF ok v that] by blast
  show "ledger_ok l' \<and> v \<le> BalanceOfTx l a \<and>
      BalanceOfTx l' = (BalanceOfTx l)(a := BalanceOfTx l a - v, b := BalanceOfTx l b + v) \<and>
      supplyOf l' = supplyOf l + (if a = b then v else 0)" if "moveAll l a b v = Inr l'"
    using that MoveTx_law[OF ok v, of a b l']
    by (auto simp: moveAll_def Update_def split: prod.splits sum.splits)
qed

section \<open>Transfers\<close>

text \<open>The specification of a transfer on balances and nonces as functions.\<close>

definition specTransfer ::
  "(account \<Rightarrow> int) \<times> (account \<Rightarrow> u64) \<Rightarrow> account \<Rightarrow> account \<Rightarrow> int \<Rightarrow> u64 \<Rightarrow>
   ((account \<Rightarrow> int) \<times> (account \<Rightarrow> u64)) res" where
  "specTransfer st s r v n = (case st of (bal, nonce) \<Rightarrow>
     if n \<noteq> nonce s + 1 then Inl (RGError ErrSequenceFault)
     else if bal s < v then Inl (RGError ErrInsufficientFunds)
     else if bal r + v > UINT256_MAX then Inl overflowErr
     else Inr (bal(s := bal s - v, r := bal r + v), nonce(s := n)))"

definition absLedger :: "LedgerDB \<Rightarrow> (account \<Rightarrow> int) \<times> (account \<Rightarrow> u64)" where
  "absLedger l = (BalanceOfTx l, nonceAt l)"

lemma nonceAt_balances_upd: "nonceAt (l\<lparr>nonces := x, balances := y\<rparr>) = nonceAt (l\<lparr>nonces := x\<rparr>)"
  by (simp add: nonceAt_def fun_eq_iff)

lemma TransferTx_refines:
  assumes "ledger_ok l" "Value t = Some v" "0 \<le> v"
  shows "rbind (TransferTx l t) (\<lambda>l'. Inr (absLedger l')) =
    specTransfer (absLedger l) (SenderPubKey t) (ReceiverPubKey t) v (Nonce t)"
proof (cases "v \<le> BalanceOfTx l (SenderPubKey t) \<and> BalanceOfTx l (ReceiverPubKey t) + v \<le> UINT256_MAX")
  case True
  then have le: "v \<le> readBalance (balances l) (SenderPubKey t)"
      "readBalance (balances l) (ReceiverPubKey t) + v \<le> UINT256_MAX" by (simp_all add: BalanceOfTx_def)
  note m = moved_facts[OF balances_ok_ledger[OF assms(1)] assms(3) le]
  show ?thesis
    using le by (simp add: TransferTx_eq[OF assms] specTransfer_def absLedger_def nonceAt_balances_upd
        nonceAt_bput BalanceOfTx_def fun_eq_iff m)
next
  case False
  then show ?thesis by (auto simp: TransferTx_eq[OF assms] specTransfer_def absLedger_def)
qed

lemma TransferTx_law:
  assumes "ledger_ok l" "Value t = Some v" "0 \<le> v" "TransferTx l t = Inr l'"
  shows "ledger_ok l' \<and>
    supplyOf l' = supplyOf l + (if SenderPubKey t = ReceiverPubKey t then v else 0) \<and>
    Nonce t = nonceAt l (SenderPubKey t) + 1 \<and> nonceAt l' = (nonceAt l)(SenderPubKey t := Nonce t)"
proof -
  let ?s = "SenderPubKey t" and ?r = "ReceiverPubKey t"
  from assms(4) have le: "v \<le> readBalance (balances l) ?s" "readBalance (balances l) ?r + v \<le> UINT256_MAX"
    and n: "Nonce t = nonceAt l ?s + 1"
    and l': "l' = l\<lparr>nonces := bput (nonces l) ?s (PutUint64 (Nonce t)), balances := moved (balances l) ?s ?r v\<rparr>"
    by (auto simp: TransferTx_eq[OF assms(1-3)] BalanceOfTx_def split: if_splits)
  note m = moved_facts[OF balances_ok_ledger[OF assms(1)] assms(3) le]
  have "ledger_ok l'"
    unfolding l' using ledger_ok_nonce[OF assms(1)] m(3) by (simp add: ledger_ok_def)
  with n show ?thesis by (simp add: l' m nonceAt_balances_upd nonceAt_bput)
qed


lemma distinct_pairs:
  assumes "\<And>a. distinct (map g (filter (\<lambda>x. f x = a) xs))"
  shows "distinct (map (\<lambda>x. (f x, g x)) xs)"
  using assms
proof (induction xs)
  case (Cons x xs)
  have "distinct (map g (filter (\<lambda>y. f y = a) xs))" for a
    using Cons.prems[of a] by (cases "f x = a") simp_all
  moreover have "(f x, g x) \<notin> (\<lambda>x. (f x, g x)) ` set xs"
    using Cons.prems[of "f x"] by (auto simp: image_iff)
  ultimately show ?case using Cons.IH by simp
qed simp

text \<open>In a run of transfers the accepted nonces of an account are consecutive.\<close>

definition applyTransfers :: "Tx list \<Rightarrow> LedgerDB \<Rightarrow> LedgerDB res" where
  "applyTransfers ts l = rfold (\<lambda>t l. TransferTx l t) ts l"

lemma applyTransfers_nonces:
  assumes "applyTransfers ts l = Inr l'" "ledger_ok l" "\<forall>t\<in>set ts. \<exists>v. Value t = Some v \<and> 0 \<le> v"
  shows "ledger_ok l' \<and> map Nonce (filter (\<lambda>t. SenderPubKey t = a) ts) =
      map (\<lambda>i. nonceAt l a + 1 + of_nat i) [0..<length (filter (\<lambda>t. SenderPubKey t = a) ts)]"
  using assms
proof (induction ts arbitrary: l)
  case Nil
  then show ?case by (simp add: applyTransfers_def)
next
  case (Cons t ts)
  from Cons.prems(1) obtain m where m: "TransferTx l t = Inr m" and rest: "applyTransfers ts m = Inr l'"
    by (auto simp: applyTransfers_def res_simps)
  obtain v where v: "Value t = Some v" "0 \<le> v" using Cons.prems(3) by auto
  have law: "ledger_ok m" "Nonce t = nonceAt l (SenderPubKey t) + 1"
      "nonceAt m = (nonceAt l)(SenderPubKey t := Nonce t)"
    using TransferTx_law[OF Cons.prems(2) v m] by auto
  have IH: "ledger_ok l'" "map Nonce (filter (\<lambda>t. SenderPubKey t = a) ts) =
      map (\<lambda>i. nonceAt m a + 1 + of_nat i) [0..<length (filter (\<lambda>t. SenderPubKey t = a) ts)]"
    using Cons.IH[OF rest law(1)] Cons.prems(3) by auto
  show ?case
  proof (cases "SenderPubKey t = a")
    case True
    then show ?thesis
      using IH law by (simp add: upt_conv_Cons map_Suc_upt[symmetric] o_def algebra_simps del: upt_Suc)
  next
    case False
    then show ?thesis using IH law by simp
  qed
qed

lemma applyTransfers_distinct:
  assumes "applyTransfers ts l = Inr l'" "ledger_ok l" "\<forall>t\<in>set ts. \<exists>v. Value t = Some v \<and> 0 \<le> v"
    and "length ts < 2 ^ 64"
  shows "distinct (map (\<lambda>t. (SenderPubKey t, Nonce t)) ts)"
proof -
  have inj: "inj_on (\<lambda>i. n + of_nat i :: u64) {0..<k}" if "k < 2 ^ 64" for k n
    using that by (auto simp: inj_on_def word_of_nat_eq_iff take_bit_nat_eq_self)
  have "distinct (map Nonce (filter (\<lambda>t. SenderPubKey t = a) ts))" for a
  proof -
    let ?k = "length (filter (\<lambda>t. SenderPubKey t = a) ts)"
    have "?k < 2 ^ 64" using assms(4) length_filter_le[of "\<lambda>t. SenderPubKey t = a" ts] by linarith
    then show ?thesis
      using applyTransfers_nonces[OF assms(1-3), of a] inj[of ?k "nonceAt l a + 1"]
      by (simp add: distinct_map)
  qed
  then show ?thesis by (rule distinct_pairs)
qed


text \<open>With a supply that fits in 256 bits, a move between two accounts never stops half way.\<close>

lemma MoveTx_atomic:
  assumes "ledger_ok l" "supplyOf l \<le> UINT256_MAX" "from \<noteq> to" "MoveTx l from to x = (l', r)"
  shows "ledger_ok l' \<and> supplyOf l' = supplyOf l \<and> (\<forall>e. r = Inl e \<longrightarrow> l' = l)"
proof (cases "\<exists>v. x = Some v \<and> 0 \<le> v")
  case True
  then obtain v where x: "x = Some v" and v: "0 \<le> v" by blast
  have sum: "BalanceOfTx l from + BalanceOfTx l to \<le> supplyOf l"
    using two_balances_le_total[OF assms(3)] by (simp add: BalanceOfTx_def)
  show ?thesis
  proof (cases r)
    case (Inl e)
    with sum assms(2,4) x have "l' = l"
      by (auto simp: MoveTx_eq[OF assms(1) v] split: if_splits)
    with assms(1) show ?thesis by simp
  next
    case (Inr u)
    with MoveTx_law[OF assms(1) v] assms(3,4) x show ?thesis by simp
  qed
next
  case False
  then have "MoveTx l from to x = (l, Inl overflowErr)"
    by (cases x) (auto simp: MoveTx_bad_amount)
  with assms(1,4) show ?thesis by simp
qed


section \<open>Properties of the ledger\<close>

definition sampleLedger :: LedgerDB where
  "sampleLedger = \<lparr>balances = [(3, be_bytes 32 100)], nonces = []\<rparr>"

lemma sampleLedger_ok: "ledger_ok sampleLedger" "supplyOf sampleLedger \<le> UINT256_MAX"
proof -
  show "ledger_ok sampleLedger"
    by (simp add: sampleLedger_def ledger_ok_def balances_ok_def bucket_ok_def)
  have "{a. bget (balances sampleLedger) a \<noteq> None} = {3}"
    by (auto simp: sampleLedger_def bget_def split: if_splits)
  moreover have "be_val (the (bget (balances sampleLedger) 3)) \<le> UINT256_MAX" by code_simp
  ultimately show "supplyOf sampleLedger \<le> UINT256_MAX" by (simp add: totalBalances_def)
qed

text \<open>C5. A transfer at the level of the stored bytes implements the specification on balances and
  nonces: a wrong nonce, an insufficient balance and a receiver overflow give their error codes in
  that order, and otherwise the sender is debited, the receiver credited and the nonce advanced.\<close>

theorem ledger_transfer_refines:
  assumes "ledger_ok l" "Value t = Some v" "0 \<le> v"
  shows "rbind (TransferTx l t) (\<lambda>l'. Inr (absLedger l')) =
    specTransfer (absLedger l) (SenderPubKey t) (ReceiverPubKey t) v (Nonce t)"
  using assms by (rule TransferTx_refines)

theorem ledger_transfer_refines_witness:
  "ledger_ok sampleLedger \<and> Value sampleTx = Some 5 \<and>
   (\<exists>l'. TransferTx sampleLedger sampleTx = Inr l' \<and> fst (absLedger l') 3 = 95 \<and>
      fst (absLedger l') 9 = 5 \<and> snd (absLedger l') 3 = 1)"
proof -
  have v: "Value sampleTx = Some 5" by (simp add: sampleTx_def)
  have st: "BalanceOfTx sampleLedger 3 = 100" "BalanceOfTx sampleLedger 9 = 0"
    "nonceAt sampleLedger 3 = 0" by code_simp+
  have "specTransfer (absLedger sampleLedger) (SenderPubKey sampleTx) (ReceiverPubKey sampleTx) 5
      (Nonce sampleTx) = Inr ((BalanceOfTx sampleLedger)(3 := 95, 9 := 5), (nonceAt sampleLedger)(3 := 1))"
    by (simp add: specTransfer_def absLedger_def sampleTx_def st UINT256_MAX_def)
  with ledger_transfer_refines[OF sampleLedger_ok(1) v] sampleLedger_ok(1) v
  show ?thesis by (auto simp: res_simps)
qed

text \<open>C6. A successful transfer keeps the ledger well formed and conserves the sum of all balances,
  unless the sender is also the receiver: then the sum grows by the transferred value.\<close>

theorem ledger_transfer_supply:
  assumes "ledger_ok l" "Value t = Some v" "0 \<le> v" "TransferTx l t = Inr l'"
  shows "ledger_ok l' \<and>
    supplyOf l' = supplyOf l + (if SenderPubKey t = ReceiverPubKey t then v else 0)"
  using TransferTx_law[OF assms] by blast

theorem ledger_transfer_supply_witness:
  "ledger_ok sampleLedger \<and>
   (\<exists>l'. TransferTx sampleLedger (sampleTx\<lparr>ReceiverPubKey := 3\<rparr>) = Inr l' \<and>
      supplyOf l' = supplyOf sampleLedger + 5)"
proof -
  let ?t = "sampleTx\<lparr>ReceiverPubKey := 3\<rparr>"
  have "(case TransferTx sampleLedger ?t of Inr _ \<Rightarrow> True | _ \<Rightarrow> False)" by code_simp
  then obtain l' where l': "TransferTx sampleLedger ?t = Inr l'" by (auto split: sum.splits)
  have "Value ?t = Some 5" "SenderPubKey ?t = ReceiverPubKey ?t" by (simp_all add: sampleTx_def)
  with ledger_transfer_supply[OF sampleLedger_ok(1) this(1) _ l'] l' sampleLedger_ok(1)
  show ?thesis by auto
qed

text \<open>C13. No replay: in a successful run of fewer than \<open>2 ^ 64\<close> transfers no sender and nonce pair
  occurs twice, and the nonces of each account are consecutive from its stored nonce.\<close>

theorem ledger_no_replay:
  assumes "applyTransfers ts l = Inr l'" "ledger_ok l" "\<forall>t\<in>set ts. \<exists>v. Value t = Some v \<and> 0 \<le> v"
    and "length ts < 2 ^ 64"
  shows "distinct (map (\<lambda>t. (SenderPubKey t, Nonce t)) ts) \<and>
    map Nonce (filter (\<lambda>t. SenderPubKey t = a) ts) =
      map (\<lambda>i. nonceAt l a + 1 + of_nat i) [0..<length (filter (\<lambda>t. SenderPubKey t = a) ts)]"
  using applyTransfers_distinct[OF assms] applyTransfers_nonces[OF assms(1-3)] by blast

theorem ledger_no_replay_witness:
  "(\<exists>l'. applyTransfers [sampleTx, sampleTx\<lparr>Nonce := 2\<rparr>] sampleLedger = Inr l') \<and>
   distinct (map (\<lambda>t. (SenderPubKey t, Nonce t)) [sampleTx, sampleTx\<lparr>Nonce := 2\<rparr>])"
proof -
  let ?ts = "[sampleTx, sampleTx\<lparr>Nonce := 2\<rparr>]"
  have "(case applyTransfers ?ts sampleLedger of Inr _ \<Rightarrow> True | _ \<Rightarrow> False)" by code_simp
  then obtain l' where l': "applyTransfers ?ts sampleLedger = Inr l'" by (auto split: sum.splits)
  have "\<forall>t\<in>set ?ts. \<exists>v. Value t = Some v \<and> 0 \<le> v" by (simp add: sampleTx_def)
  moreover have "length ?ts < 2 ^ 64" by simp
  ultimately show ?thesis using ledger_no_replay[OF l' sampleLedger_ok(1)] l' by blast
qed

text \<open>A contract move between two accounts is atomic although its error is swallowed by the host:
  while the supply fits in 256 bits, a failed move leaves the ledger unchanged and a successful one
  conserves the sum of all balances.\<close>

theorem ledger_move_atomic:
  assumes "ledger_ok l" "supplyOf l \<le> UINT256_MAX" "from \<noteq> to" "MoveTx l from to x = (l', r)"
  shows "ledger_ok l' \<and> supplyOf l' = supplyOf l \<and> (\<forall>e. r = Inl e \<longrightarrow> l' = l)"
  using assms by (rule MoveTx_atomic)

theorem ledger_move_atomic_witness:
  "\<exists>l' e. MoveTx sampleLedger 3 9 (Some 101) = (l', Inl e) \<and> l' = sampleLedger"
proof -
  have "(case MoveTx sampleLedger 3 9 (Some 101) of (_, Inl _) \<Rightarrow> True | _ \<Rightarrow> False)" by code_simp
  then obtain l' e where m: "MoveTx sampleLedger 3 9 (Some 101) = (l', Inl e)"
    by (auto split: prod.splits sum.splits)
  from ledger_move_atomic[OF sampleLedger_ok _ m] m show ?thesis by auto
qed

end
