(* ===== verification/FRG_Staking.thy ===== *)
theory FRG_Staking
  imports FRG_Ledger FRG_Denom
begin

text \<open>
  Package \<^verbatim>\<open>core/staking\<close> (\<^verbatim>\<open>staking.go\<close>): the bucket of validator records at the level of its
  57-byte values, bonding into an escrow account, the unbonding lockup, slashing and the miss
  counter.  The operations that the code runs in two database transactions are modelled in their
  order; a crash between the two is outside the model.
\<close>

section \<open>Records\<close>

abbreviation (input) UnbondingBlocks :: u64 where "UnbondingBlocks \<equiv> 1000"
abbreviation (input) MissThreshold :: u64 where "MissThreshold \<equiv> 5"
abbreviation (input) SlashPercent :: int where "SlashPercent \<equiv> 10"
abbreviation (input) stateBonded :: u8 where "stateBonded \<equiv> 1"
abbreviation (input) stateUnbonding :: u8 where "stateUnbonding \<equiv> 2"

definition minBondAmount :: int where
  "minBondAmount = 1000 * QuantaPerFRG"

record StakeRecord =
  State :: u8
  BondedAmount :: int
  BondedAtBlock :: u64
  UnbondingAtBlock :: u64
  MissCount :: u64

record StakeDB =
  ledger :: LedgerDB
  validatorsBucket :: "(bytes32, bytes) bucket"

definition escrowAccount :: "crypto \<Rightarrow> bytes32 \<Rightarrow> account" where
  "escrowAccount C validator = sha256 C (str ''FRG_STAKING_ESCROW_V1'' @ [0] @ arr32 validator)"

definition EscrowAccount :: "crypto \<Rightarrow> bytes32 \<Rightarrow> account" where
  "EscrowAccount C validator = escrowAccount C validator"

text \<open>\<^verbatim>\<open>buf[1+32-len(amountBytes):33]\<close> panics for more than 33 bytes, and for exactly 33 the copy
  overwrites the state byte.\<close>

definition encodeRecord :: "StakeRecord \<Rightarrow> bytes res" where
  "encodeRecord r =
     (let amountBytes = nat_bytes \<bar>BondedAmount r\<bar>;
          buf = State r # replicate 56 0 in
      rguard (length amountBytes > 33) Panic
      (let buf = go_copy (33 - length amountBytes) amountBytes buf;
           buf = go_copy 33 (PutUint64 (BondedAtBlock r)) buf;
           buf = go_copy 41 (PutUint64 (UnbondingAtBlock r)) buf;
           buf = go_copy 49 (PutUint64 (MissCount r)) buf in
       Inr buf))"

definition decodeRecord :: "bytes \<Rightarrow> StakeRecord res" where
  "decodeRecord buf =
     rguard (length buf < 49) Panic
      (Inr \<lparr>State = buf ! 0, BondedAmount = be_val (go_slice 1 33 buf),
            BondedAtBlock = Uint64 (go_slice 33 41 buf), UnbondingAtBlock = Uint64 (go_slice 41 49 buf),
            MissCount = (if 57 \<le> length buf then Uint64 (go_slice 49 57 buf) else 0)\<rparr>)"

definition getRecord :: "(bytes32, bytes) bucket \<Rightarrow> bytes32 \<Rightarrow> StakeRecord option res" where
  "getRecord b validator = (case bget b validator of None \<Rightarrow> Inr None
     | Some v \<Rightarrow> rbind (decodeRecord v) (\<lambda>r. Inr (Some r)))"

definition putRecord ::
  "(bytes32, bytes) bucket \<Rightarrow> bytes32 \<Rightarrow> StakeRecord \<Rightarrow> (bytes32, bytes) bucket res" where
  "putRecord b validator r = rbind (encodeRecord r) (\<lambda>v. Inr (bput b validator v))"

definition readRecord :: "StakeDB \<Rightarrow> bytes32 \<Rightarrow> StakeRecord option res" where
  "readRecord s validator = getRecord (validatorsBucket s) validator"

definition setRecord :: "StakeDB \<Rightarrow> bytes32 \<Rightarrow> StakeRecord \<Rightarrow> StakeDB res" where
  "setRecord s validator r =
     rbind (putRecord (validatorsBucket s) validator r) (\<lambda>b. Inr (s\<lparr>validatorsBucket := b\<rparr>))"

definition onLedger :: "StakeDB \<Rightarrow> LedgerDB res \<Rightarrow> StakeDB res" where
  "onLedger s r = rbind r (\<lambda>l. Inr (s\<lparr>ledger := l\<rparr>))"

definition NewStore :: "LedgerDB \<Rightarrow> StakeDB" where
  "NewStore l = \<lparr>ledger = l, validatorsBucket = []\<rparr>"


section \<open>Bonding, unbonding and slashing\<close>

definition newBond :: "int \<Rightarrow> u64 \<Rightarrow> StakeRecord" where
  "newBond amount currentBlock = \<lparr>State = stateBonded, BondedAmount = amount,
     BondedAtBlock = currentBlock, UnbondingAtBlock = 0, MissCount = 0\<rparr>"

definition Bond :: "crypto \<Rightarrow> StakeDB \<Rightarrow> bytes32 \<Rightarrow> int option \<Rightarrow> u64 \<Rightarrow> StakeDB res" where
  "Bond C s validator amount currentBlock =
     rguard (amount = None \<or> the amount < minBondAmount) (RGError ErrBondBelowMinimum)
     (rbind (readRecord s validator) (\<lambda>rec.
      rguard (rec \<noteq> None) (RGError ErrAlreadyBonded)
      (rbind (onLedger s (Move (ledger s) validator (escrowAccount C validator) amount)) (\<lambda>s.
       setRecord s validator (newBond (the amount) currentBlock)))))"

definition BondTx :: "crypto \<Rightarrow> StakeDB \<Rightarrow> bytes32 \<Rightarrow> int option \<Rightarrow> u64 \<Rightarrow> StakeDB res" where
  "BondTx C s validator amount currentBlock =
     rguard (amount = None \<or> the amount < minBondAmount) (RGError ErrBondBelowMinimum)
     (rbind (getRecord (validatorsBucket s) validator) (\<lambda>rec.
      rguard (rec \<noteq> None) (RGError ErrAlreadyBonded)
      (rbind (onLedger s (Update (MoveTx (ledger s) validator (escrowAccount C validator) amount))) (\<lambda>s.
       setRecord s validator (newBond (the amount) currentBlock)))))"

definition Unbond :: "StakeDB \<Rightarrow> bytes32 \<Rightarrow> u64 \<Rightarrow> StakeDB res" where
  "Unbond s validator currentBlock =
     rbind (readRecord s validator) (\<lambda>rec.
      rguard (rec = None \<or> State (the rec) = 0) (RGError ErrNotBonded)
      (rguard (State (the rec) = stateUnbonding) (RGError ErrUnbondingPending)
       (setRecord s validator ((the rec)\<lparr>State := stateUnbonding, UnbondingAtBlock := currentBlock\<rparr>))))"

definition UnbondTx :: "StakeDB \<Rightarrow> bytes32 \<Rightarrow> u64 \<Rightarrow> StakeDB res" where
  "UnbondTx s validator currentBlock =
     rbind (getRecord (validatorsBucket s) validator) (\<lambda>rec.
      rguard (rec = None \<or> State (the rec) = 0) (RGError ErrNotBonded)
      (rguard (State (the rec) = stateUnbonding) (RGError ErrUnbondingPending)
       (setRecord s validator ((the rec)\<lparr>State := stateUnbonding, UnbondingAtBlock := currentBlock\<rparr>))))"

definition Finalize :: "crypto \<Rightarrow> StakeDB \<Rightarrow> bytes32 \<Rightarrow> u64 \<Rightarrow> StakeDB res" where
  "Finalize C s validator currentBlock =
     rbind (readRecord s validator) (\<lambda>rec.
      if rec = None \<or> State (the rec) \<noteq> stateUnbonding then Inr s
      else if currentBlock < UnbondingAtBlock (the rec) + UnbondingBlocks then Inr s
      else rbind (onLedger s (Move (ledger s) (escrowAccount C validator) validator
                    (Some (BondedAmount (the rec))))) (\<lambda>s.
           Inr (s\<lparr>validatorsBucket := bdel (validatorsBucket s) validator\<rparr>)))"

definition FinalizeTx :: "crypto \<Rightarrow> StakeDB \<Rightarrow> bytes32 \<Rightarrow> u64 \<Rightarrow> StakeDB res" where
  "FinalizeTx C s validator currentBlock =
     rbind (getRecord (validatorsBucket s) validator) (\<lambda>rec.
      if rec = None \<or> State (the rec) \<noteq> stateUnbonding then Inr s
      else if currentBlock < UnbondingAtBlock (the rec) + UnbondingBlocks then Inr s
      else rbind (onLedger s (Update (MoveTx (ledger s) (escrowAccount C validator) validator
                    (Some (BondedAmount (the rec)))))) (\<lambda>s.
           Inr (s\<lparr>validatorsBucket := bdel (validatorsBucket s) validator\<rparr>)))"

definition SlashTx :: "crypto \<Rightarrow> StakeDB \<Rightarrow> bytes32 \<Rightarrow> (StakeDB \<times> int) res" where
  "SlashTx C s validator =
     rbind (getRecord (validatorsBucket s) validator) (\<lambda>rec.
      rguard (rec = None \<or> State (the rec) = 0) (RGError ErrNotBonded)
      (let amount = BondedAmount (the rec) in
       rbind (onLedger s (BurnTx (ledger s) (escrowAccount C validator) amount)) (\<lambda>s.
       Inr (s\<lparr>validatorsBucket := bdel (validatorsBucket s) validator\<rparr>, amount))))"

record EquivocationProof =
  ValidatorPubKey :: bytes32
  HeaderA :: bytes
  SigA :: bytes64
  HeaderB :: bytes
  SigB :: bytes64

definition Slash :: "crypto \<Rightarrow> StakeDB \<Rightarrow> bytes32 \<Rightarrow> EquivocationProof \<Rightarrow> StakeDB res" where
  "Slash C s validator proof =
     rbind (readRecord s validator) (\<lambda>rec.
      rguard (rec = None \<or> State (the rec) \<noteq> stateBonded) (RGError ErrNotBonded)
      (rguard (ValidatorPubKey proof \<noteq> validator) (RGError ErrInvalidSignature)
      (rguard (\<not> Verify C validator (HeaderA proof) (SigA proof) \<or>
               \<not> Verify C validator (HeaderB proof) (SigB proof)) (RGError ErrInvalidSignature)
      (rguard (HeaderA proof = HeaderB proof) canonErr
      (rbind (onLedger s (Burn (ledger s) (escrowAccount C validator)
                (Some (BondedAmount (the rec))))) (\<lambda>s.
       Inr (s\<lparr>validatorsBucket := bdel (validatorsBucket s) validator\<rparr>)))))))"


section \<open>Validator set and misses\<close>

text \<open>\<^verbatim>\<open>ForEach\<close> visits the bucket in key order.\<close>

fun bondedEntries :: "(bytes32, bytes) bucket \<Rightarrow> (bytes32 \<times> int) list res" where
  "bondedEntries [] = Inr []"
| "bondedEntries ((k, v) # b) =
     rbind (decodeRecord v) (\<lambda>rec. rbind (bondedEntries b) (\<lambda>out.
      Inr (if State rec = stateBonded then (k, BondedAmount rec) # out else out)))"

definition ValidatorSet :: "StakeDB \<Rightarrow> bytes32 list res" where
  "ValidatorSet s = rbind (bondedEntries (validatorsBucket s)) (\<lambda>es. Inr (map fst es))"

definition BondedAmounts :: "StakeDB \<Rightarrow> (bytes32 list \<times> int list) res" where
  "BondedAmounts s = rbind (bondedEntries (validatorsBucket s)) (\<lambda>es. Inr (map fst es, map snd es))"

definition RecordMissTx :: "StakeDB \<Rightarrow> bytes32 \<Rightarrow> (StakeDB \<times> u64 \<times> int) res" where
  "RecordMissTx s validatorPubKey =
     rbind (getRecord (validatorsBucket s) validatorPubKey) (\<lambda>rec.
      rguard (rec = None \<or> State (the rec) = 0) (RGError ErrNotBonded)
      (let rec = the rec; rec = rec\<lparr>MissCount := MissCount rec + 1\<rparr>;
           slashAmount = (if MissCount rec \<ge> MissThreshold
             then BondedAmount rec * SlashPercent div 100 else 0);
           rec = (if MissCount rec \<ge> MissThreshold
             then rec\<lparr>BondedAmount := BondedAmount rec - slashAmount, MissCount := 0\<rparr> else rec) in
       rbind (setRecord s validatorPubKey rec) (\<lambda>s. Inr (s, MissCount rec, slashAmount))))"

definition RecordMiss :: "crypto \<Rightarrow> StakeDB \<Rightarrow> bytes32 \<Rightarrow> (StakeDB \<times> u64) res" where
  "RecordMiss C s validatorPubKey =
     rbind (RecordMissTx s validatorPubKey) (\<lambda>(s, count, slashAmt).
      rbind (if slashAmt > 0
        then onLedger s (Burn (ledger s) (EscrowAccount C validatorPubKey) (Some slashAmt))
        else Inr s) (\<lambda>s. Inr (s, count)))"

definition MissCountOf :: "StakeDB \<Rightarrow> bytes32 \<Rightarrow> u64 res" where
  "MissCountOf s validatorPubKey =
     rbind (readRecord s validatorPubKey) (\<lambda>rec.
      Inr (case rec of None \<Rightarrow> 0 | Some r \<Rightarrow> MissCount r))"


section \<open>Stored records\<close>

definition record_ok :: "StakeRecord \<Rightarrow> bool" where
  "record_ok r \<longleftrightarrow> 0 \<le> BondedAmount r \<and> BondedAmount r \<le> UINT256_MAX"

definition rawRecord :: "StakeRecord \<Rightarrow> bytes" where
  "rawRecord r = [State r] @ be_bytes 32 (BondedAmount r) @ PutUint64 (BondedAtBlock r)
     @ PutUint64 (UnbondingAtBlock r) @ PutUint64 (MissCount r)"

lemma go_copy_append:
  "length src \<le> length b \<Longrightarrow> go_copy (length a) src (a @ b) = a @ src @ drop (length src) b"
  by (simp add: go_copy_def)

lemma encodeRecord_raw:
  assumes "record_ok r"
  shows "encodeRecord r = Inr (rawRecord r)"
proof -
  let ?ab = "nat_bytes (BondedAmount r)"
  have a: "0 \<le> BondedAmount r" "BondedAmount r < 256 ^ 32"
    using assms by (auto simp: record_ok_def UINT256_MAX_bytes)
  have n: "length ?ab \<le> 32" using a by (rule length_nat_bytes_le)
  have "State r # replicate 56 0 = (State r # replicate (32 - length ?ab) 0) @ replicate (24 + length ?ab) 0"
    using n by (simp add: replicate_add[symmetric])
  moreover have "33 - length ?ab = length (State r # replicate (32 - length ?ab) (0::byte))"
    using n by simp
  ultimately have "go_copy (33 - length ?ab) ?ab (State r # replicate 56 0)
      = (State r # replicate (32 - length ?ab) 0) @ ?ab @ replicate 24 0"
    by (simp only:) (subst go_copy_append, simp_all)
  also have "\<dots> = ([State r] @ be_bytes 32 (BondedAmount r)) @ replicate 24 0"
    using pad_nat_bytes[OF a] by simp
  finally have 1: "go_copy (33 - length ?ab) ?ab (State r # replicate 56 0)
      = ([State r] @ be_bytes 32 (BondedAmount r)) @ replicate 24 0" .
  have 2: "go_copy 33 (PutUint64 x) (([State r] @ be_bytes 32 y) @ replicate 24 0)
      = ([State r] @ be_bytes 32 y @ PutUint64 x) @ replicate 16 0" for x y
    using go_copy_append[of "PutUint64 x" "replicate 24 0" "[State r] @ be_bytes 32 y"] by simp
  have 3: "go_copy 41 (PutUint64 x) (([State r] @ be_bytes 32 y @ PutUint64 z) @ replicate 16 0)
      = ([State r] @ be_bytes 32 y @ PutUint64 z @ PutUint64 x) @ replicate 8 0" for x y z
    using go_copy_append[of "PutUint64 x" "replicate 16 0" "[State r] @ be_bytes 32 y @ PutUint64 z"] by simp
  have 4: "go_copy 49 (PutUint64 x) (([State r] @ be_bytes 32 y @ PutUint64 z @ PutUint64 w) @ replicate 8 0)
      = [State r] @ be_bytes 32 y @ PutUint64 z @ PutUint64 w @ PutUint64 x" for x y z w
    using go_copy_append[of "PutUint64 x" "replicate 8 0" "[State r] @ be_bytes 32 y @ PutUint64 z @ PutUint64 w"]
    by simp
  have "\<bar>BondedAmount r\<bar> = BondedAmount r" using a by simp
  then show ?thesis
    unfolding encodeRecord_def Let_def rawRecord_def using n by (simp only: 1 2 3 4) simp
qed

lemma length_rawRecord [simp]: "length (rawRecord r) = 57"
  by (simp add: rawRecord_def)

lemma decodeRecord_raw:
  assumes "record_ok r"
  shows "decodeRecord (rawRecord r) = Inr r"
proof -
  have "be_val (be_bytes 32 (BondedAmount r)) = BondedAmount r"
    using assms by (intro be_val_be_bytes_id) (auto simp: record_ok_def UINT256_MAX_bytes)
  then show ?thesis
    by (simp add: decodeRecord_def rawRecord_def go_slice_def codec_simps)
qed

definition stake_ok :: "StakeDB \<Rightarrow> bool" where
  "stake_ok s \<longleftrightarrow> ledger_ok (ledger s) \<and> bucket_ok (validatorsBucket s) \<and>
     (\<forall>(k, v)\<in>set (validatorsBucket s). \<exists>r. record_ok r \<and> v = rawRecord r)"

definition recAt :: "StakeDB \<Rightarrow> bytes32 \<Rightarrow> StakeRecord option" where
  "recAt s v = (case getRecord (validatorsBucket s) v of Inl _ \<Rightarrow> None | Inr r \<Rightarrow> r)"

lemma getRecord_eq: "stake_ok s \<Longrightarrow> getRecord (validatorsBucket s) v = Inr (recAt s v)"
proof (cases "bget (validatorsBucket s) v")
  case None
  then show ?thesis by (simp add: getRecord_def recAt_def)
next
  case (Some b)
  assume ok: "stake_ok s"
  with Some have "(v, b) \<in> set (validatorsBucket s)" by (simp add: stake_ok_def bucket_ok_mem_iff)
  with ok obtain r where "record_ok r" "b = rawRecord r" by (auto simp: stake_ok_def)
  with Some show ?thesis by (simp add: getRecord_def recAt_def decodeRecord_raw)
qed

lemma recAt_ok: "stake_ok s \<Longrightarrow> recAt s v = Some r \<Longrightarrow> record_ok r"
proof (cases "bget (validatorsBucket s) v")
  case None
  then show "recAt s v = Some r \<Longrightarrow> ?thesis" by (simp add: getRecord_def recAt_def)
next
  case (Some b)
  assume ok: "stake_ok s" and r: "recAt s v = Some r"
  with Some have "(v, b) \<in> set (validatorsBucket s)" by (simp add: stake_ok_def bucket_ok_mem_iff)
  with ok obtain q where "record_ok q" "b = rawRecord q" by (auto simp: stake_ok_def)
  with Some r show ?thesis by (simp add: getRecord_def recAt_def decodeRecord_raw)
qed

lemma setRecord_eq:
  "record_ok r \<Longrightarrow> setRecord s v r = Inr (s\<lparr>validatorsBucket := bput (validatorsBucket s) v (rawRecord r)\<rparr>)"
  by (simp add: setRecord_def putRecord_def encodeRecord_raw)

lemma recAt_put:
  "record_ok r \<Longrightarrow> recAt (s\<lparr>validatorsBucket := bput (validatorsBucket s) v (rawRecord r)\<rparr>) = (recAt s)(v := Some r)"
  by (auto simp: recAt_def getRecord_def bucket_simps decodeRecord_raw)

lemma recAt_del: "recAt (s\<lparr>validatorsBucket := bdel (validatorsBucket s) v\<rparr>) = (recAt s)(v := None)"
  by (auto simp: recAt_def getRecord_def bucket_simps)

lemma recAt_ledger [simp]: "recAt (s\<lparr>ledger := l\<rparr>) = recAt s"
  by (simp add: recAt_def fun_eq_iff)

lemma set_bput_subset: "set (bput b a w) \<subseteq> insert (a, w) (set b)"
  by (induction b a w rule: bput.induct) auto

lemma stake_ok_put:
  "stake_ok s \<Longrightarrow> record_ok r \<Longrightarrow> stake_ok (s\<lparr>validatorsBucket := bput (validatorsBucket s) v (rawRecord r)\<rparr>)"
  using set_bput_subset[of "validatorsBucket s" v "rawRecord r"]
  by (fastforce simp: stake_ok_def bucket_ok_bput)

lemma stake_ok_del: "stake_ok s \<Longrightarrow> stake_ok (s\<lparr>validatorsBucket := bdel (validatorsBucket s) v\<rparr>)"
  by (auto simp: stake_ok_def bucket_ok_bdel) (auto simp: bdel_def)

lemma stake_ok_ledger: "stake_ok s \<Longrightarrow> ledger_ok l \<Longrightarrow> stake_ok (s\<lparr>ledger := l\<rparr>)"
  by (simp add: stake_ok_def)

text \<open>The two-transaction operations agree with the single-transaction ones.\<close>

lemma Bond_BondTx: "Bond C s v a h = BondTx C s v a h"
  by (simp add: Bond_def BondTx_def readRecord_def Move_MoveTx)

lemma Unbond_UnbondTx: "Unbond s v h = UnbondTx s v h"
  by (simp add: Unbond_def UnbondTx_def readRecord_def)

lemma Finalize_FinalizeTx: "Finalize C s v h = FinalizeTx C s v h"
  unfolding Finalize_def FinalizeTx_def readRecord_def Move_MoveTx by (rule refl)


section \<open>The operations on the abstraction\<close>

lemma onLedger_Inr_iff [res_simps]: "onLedger s r = Inr s' \<longleftrightarrow> (\<exists>l. r = Inr l \<and> s' = s\<lparr>ledger := l\<rparr>)"
  by (auto simp: onLedger_def res_simps)

lemma Update_MoveTx: "Update (MoveTx l from to (Some v)) = moveAll l from to v"
  by (simp add: moveAll_def)

lemma moveAll_range: "moveAll l from to v = Inr l' \<Longrightarrow> 0 \<le> v \<and> v \<le> UINT256_MAX"
  by (auto simp: moveAll_def Update_def MoveTx_def validateUint256_cases split: if_splits)

lemma moveAll_law:
  assumes "ledger_ok l" "moveAll l from to v = Inr l'"
  shows "ledger_ok l' \<and> v \<le> BalanceOfTx l from \<and>
    BalanceOfTx l' = (BalanceOfTx l)(from := BalanceOfTx l from - v, to := BalanceOfTx l to + v) \<and>
    supplyOf l' = supplyOf l + (if from = to then v else 0)"
  using tokens.move_law[OF assms(1) _ assms(2)] moveAll_range[OF assms(2)] by blast

lemma moveAll_succeeds:
  assumes "ledger_ok l" "0 \<le> v" "v \<le> BalanceOfTx l from" "from \<noteq> to" "supplyOf l \<le> UINT256_MAX"
  obtains l' where "moveAll l from to v = Inr l'"
proof -
  have "BalanceOfTx l from + BalanceOfTx l to \<le> supplyOf l"
    using two_balances_le_total[OF assms(4)] by (simp add: BalanceOfTx_def)
  then have "\<exists>l'. moveAll l from to v = Inr l'"
    using assms tokens.bal_nonneg[of l to]
    by (simp add: moveAll_def MoveTx_eq Update_def)
  with that show ?thesis by blast
qed

lemma BondTx_law:
  assumes "stake_ok s" "BondTx C s v x h = Inr s'"
  obtains a where "x = Some a" "minBondAmount \<le> a" "recAt s v = None"
    "moveAll (ledger s) v (escrowAccount C v) a = Inr (ledger s')"
    "recAt s' = (recAt s)(v := Some (newBond a h))" "stake_ok s'"
proof -
  from assms(2) obtain a l where a: "x = Some a" "minBondAmount \<le> a" and none: "recAt s v = None"
    and mv: "moveAll (ledger s) v (escrowAccount C v) a = Inr l"
    and set: "setRecord (s\<lparr>ledger := l\<rparr>) v (newBond a h) = Inr s'"
    by (auto simp: BondTx_def getRecord_eq[OF assms(1)] res_simps Update_MoveTx)
  have r: "record_ok (newBond a h)"
    using moveAll_range[OF mv] by (simp add: record_ok_def newBond_def)
  have l: "ledger_ok l" using moveAll_law[OF _ mv] assms(1) by (simp add: stake_ok_def)
  have ok: "stake_ok (s\<lparr>ledger := l\<rparr>)" using assms(1) l by (rule stake_ok_ledger)
  from set have s': "s' = s\<lparr>ledger := l, validatorsBucket := bput (validatorsBucket s) v (rawRecord (newBond a h))\<rparr>"
    by (simp add: setRecord_eq[OF r])
  show ?thesis
  proof (rule that[OF a none])
    show "moveAll (ledger s) v (escrowAccount C v) a = Inr (ledger s')" using mv by (simp add: s')
    show "recAt s' = (recAt s)(v := Some (newBond a h))"
      using recAt_put[OF r, of "s\<lparr>ledger := l\<rparr>" v] by (simp add: s')
    show "stake_ok s'" using stake_ok_put[OF ok r, of v] by (simp add: s')
  qed
qed

lemma UnbondTx_law:
  assumes "stake_ok s" "UnbondTx s v h = Inr s'"
  obtains r where "recAt s v = Some r" "State r \<noteq> 0" "State r \<noteq> stateUnbonding"
    "recAt s' = (recAt s)(v := Some (r\<lparr>State := stateUnbonding, UnbondingAtBlock := h\<rparr>))"
    "ledger s' = ledger s" "stake_ok s'"
proof -
  from assms(2) obtain r where r: "recAt s v = Some r" "State r \<noteq> 0" "State r \<noteq> stateUnbonding"
    and set: "setRecord s v (r\<lparr>State := stateUnbonding, UnbondingAtBlock := h\<rparr>) = Inr s'"
    by (auto simp: UnbondTx_def getRecord_eq[OF assms(1)] res_simps)
  have ok: "record_ok (r\<lparr>State := stateUnbonding, UnbondingAtBlock := h\<rparr>)"
    using recAt_ok[OF assms(1) r(1)] by (simp add: record_ok_def)
  from set show ?thesis
    using that[OF r] recAt_put[OF ok, of s v] stake_ok_put[OF assms(1) ok, of v]
    by (auto simp: setRecord_eq[OF ok])
qed

text \<open>\<open>released\<close>: the lockup of a record has elapsed.  The addition wraps at 64 bits, as in the code.\<close>

definition released :: "StakeRecord \<Rightarrow> u64 \<Rightarrow> bool" where
  "released r h \<longleftrightarrow> State r = stateUnbonding \<and> UnbondingAtBlock r + UnbondingBlocks \<le> h"

lemma FinalizeTx_noop:
  assumes "stake_ok s" "\<And>r. recAt s v = Some r \<Longrightarrow> \<not> released r h"
  shows "FinalizeTx C s v h = Inr s"
  using assms(2) by (cases "recAt s v")
    (auto simp: FinalizeTx_def getRecord_eq[OF assms(1)] released_def not_le)

lemma FinalizeTx_release:
  assumes "stake_ok s" "recAt s v = Some r" "released r h"
  shows "FinalizeTx C s v h =
    rbind (moveAll (ledger s) (escrowAccount C v) v (BondedAmount r)) (\<lambda>l.
      Inr (s\<lparr>ledger := l, validatorsBucket := bdel (validatorsBucket s) v\<rparr>))"
  using assms(2,3)
  by (auto simp: FinalizeTx_def getRecord_eq[OF assms(1)] released_def not_less Update_MoveTx onLedger_def
      rbind_assoc)

lemma FinalizeTx_law:
  assumes "stake_ok s" "FinalizeTx C s v h = Inr s'"
  obtains (noop) "s' = s"
  | (release) r where "recAt s v = Some r" "released r h"
    "moveAll (ledger s) (escrowAccount C v) v (BondedAmount r) = Inr (ledger s')"
    "recAt s' = (recAt s)(v := None)" "stake_ok s'"
proof (cases "\<exists>r. recAt s v = Some r \<and> released r h")
  case True
  then obtain r where r: "recAt s v = Some r" "released r h" by blast
  from assms(2) obtain l where mv: "moveAll (ledger s) (escrowAccount C v) v (BondedAmount r) = Inr l"
    and s': "s' = s\<lparr>ledger := l, validatorsBucket := bdel (validatorsBucket s) v\<rparr>"
    by (auto simp: FinalizeTx_release[OF assms(1) r] res_simps)
  have "ledger_ok l" using moveAll_law[OF _ mv] assms(1) by (simp add: stake_ok_def)
  then have "stake_ok (s\<lparr>ledger := l\<rparr>)" using assms(1) by (simp add: stake_ok_ledger)
  from stake_ok_del[OF this, of v] recAt_del[of "s\<lparr>ledger := l\<rparr>" v] show ?thesis
    using release[OF r] mv by (simp add: s')
next
  case False
  then have "s' = s" using FinalizeTx_noop[OF assms(1)] assms(2) by (metis sum.inject(2))
  then show ?thesis by (rule noop)
qed

lemma SlashTx_law:
  assumes "stake_ok s" "SlashTx C s v = Inr (s', amt)"
  obtains r where "recAt s v = Some r" "State r \<noteq> 0" "amt = BondedAmount r"
    "BurnTx (ledger s) (escrowAccount C v) (BondedAmount r) = Inr (ledger s')"
    "recAt s' = (recAt s)(v := None)" "stake_ok s'"
proof -
  from assms(2) obtain r l where r: "recAt s v = Some r" "State r \<noteq> 0" "amt = BondedAmount r"
    and burn: "BurnTx (ledger s) (escrowAccount C v) (BondedAmount r) = Inr l"
    and s': "s' = s\<lparr>ledger := l, validatorsBucket := bdel (validatorsBucket s) v\<rparr>"
    by (auto simp: SlashTx_def getRecord_eq[OF assms(1)] res_simps Let_def)
  have "0 \<le> BondedAmount r" using recAt_ok[OF assms(1) r(1)] by (simp add: record_ok_def)
  then have "ledger_ok l" using BurnTx_law[OF _ _ burn] assms(1) by (simp add: stake_ok_def)
  then have "stake_ok (s\<lparr>ledger := l\<rparr>)" using assms(1) by (simp add: stake_ok_ledger)
  from stake_ok_del[OF this, of v] recAt_del[of "s\<lparr>ledger := l\<rparr>" v] show ?thesis
    using that[OF r] burn by (simp add: s')
qed


text \<open>One recorded miss, as a function of the record.\<close>

definition slashed :: "int \<Rightarrow> int" where
  "slashed a = a - a * SlashPercent div 100"

definition missed :: "StakeRecord \<Rightarrow> StakeRecord" where
  "missed r = (if MissCount r + 1 \<ge> MissThreshold
     then r\<lparr>BondedAmount := slashed (BondedAmount r), MissCount := 0\<rparr>
     else r\<lparr>MissCount := MissCount r + 1\<rparr>)"

lemma slashed_bounds: "0 \<le> a \<Longrightarrow> 0 \<le> slashed a \<and> slashed a \<le> a"
proof -
  assume "0 \<le> a"
  then have "0 \<le> a * SlashPercent div 100" "a * SlashPercent div 100 \<le> a"
    by linarith+
  then show ?thesis by (simp add: slashed_def)
qed

lemma missed_ok: "record_ok r \<Longrightarrow> record_ok (missed r)"
  using slashed_bounds[of "BondedAmount r"] by (auto simp: record_ok_def missed_def)

lemma missed_amount: "record_ok r \<Longrightarrow> BondedAmount (missed r) \<le> BondedAmount r"
  using slashed_bounds[of "BondedAmount r"] by (auto simp: record_ok_def missed_def)

lemma RecordMissTx_eq:
  assumes "stake_ok s" "recAt s v = Some r" "State r \<noteq> 0"
  shows "RecordMissTx s v = Inr (s\<lparr>validatorsBucket := bput (validatorsBucket s) v (rawRecord (missed r))\<rparr>,
    MissCount (missed r), BondedAmount r - BondedAmount (missed r))"
proof -
  note ok = missed_ok[OF recAt_ok[OF assms(1,2)]]
  show ?thesis
  proof (cases "MissCount r + 1 \<ge> MissThreshold")
    case True
    then have m: "missed r = r\<lparr>BondedAmount := BondedAmount r - BondedAmount r * SlashPercent div 100, MissCount := 0\<rparr>"
      by (simp add: missed_def slashed_def)
    with True assms(2,3) setRecord_eq[OF ok, of s v] show ?thesis
      by (simp add: RecordMissTx_def getRecord_eq[OF assms(1)] Let_def)
  next
    case False
    then have m: "missed r = r\<lparr>MissCount := MissCount r + 1\<rparr>"
      by (simp add: missed_def)
    with False assms(2,3) setRecord_eq[OF ok, of s v] show ?thesis
      by (simp add: RecordMissTx_def getRecord_eq[OF assms(1)] Let_def)
  qed
qed

lemma RecordMissTx_law:
  assumes "stake_ok s" "RecordMissTx s v = Inr (s', n, amt)"
  obtains r where "recAt s v = Some r" "State r \<noteq> 0" "n = MissCount (missed r)"
    "amt = BondedAmount r - BondedAmount (missed r)" "0 \<le> amt"
    "recAt s' = (recAt s)(v := Some (missed r))" "ledger s' = ledger s" "stake_ok s'"
proof -
  from assms(2) obtain r where r: "recAt s v = Some r" "State r \<noteq> 0"
    by (auto simp: RecordMissTx_def getRecord_eq[OF assms(1)] res_simps Let_def)
  note ok = recAt_ok[OF assms(1) r(1)]
  from assms(2) show ?thesis
    using that[OF r] missed_amount[OF ok] recAt_put[OF missed_ok[OF ok], of s v]
      stake_ok_put[OF assms(1) missed_ok[OF ok], of v]
    by (auto simp: RecordMissTx_eq[OF assms(1) r])
qed

text \<open>Repeated misses: every fifth one slashes a tenth of the bond.\<close>

fun recordMisses :: "StakeDB \<Rightarrow> bytes32 \<Rightarrow> nat \<Rightarrow> StakeDB res" where
  "recordMisses s v 0 = Inr s"
| "recordMisses s v (Suc n) = rbind (recordMisses s v n) (\<lambda>s. rbind (RecordMissTx s v) (\<lambda>(s, _). Inr s))"

lemma missed_pow:
  assumes "unat (MissCount r) < 5"
  shows "unat (MissCount ((missed ^^ n) r)) = (unat (MissCount r) + n) mod 5 \<and>
    BondedAmount ((missed ^^ n) r) = (slashed ^^ ((unat (MissCount r) + n) div 5)) (BondedAmount r) \<and>
    State ((missed ^^ n) r) = State r"
proof (induction n)
  case 0
  then show ?case using assms by simp
next
  case (Suc n)
  let ?q = "(missed ^^ n) r" and ?k = "unat (MissCount r) + n"
  have c: "unat (MissCount ?q) = ?k mod 5" using Suc by blast
  then have "unat (MissCount ?q + 1) = ?k mod 5 + 1"
    using unat_word_ariths(1)[of "MissCount ?q" 1] by simp
  then have ge: "MissCount ?q + 1 \<ge> MissThreshold \<longleftrightarrow> ?k mod 5 = 4"
    and nx: "?k mod 5 \<noteq> 4 \<Longrightarrow> unat (MissCount ?q + 1) = ?k mod 5 + 1"
    by (auto simp: word_le_nat_alt)
  show ?case
  proof (cases "?k mod 5 = 4")
    case True
    then have "Suc ?k mod 5 = 0" "Suc ?k div 5 = Suc (?k div 5)"
      by (simp_all add: mod_Suc div_Suc)
    then show ?thesis using Suc True ge by (simp add: missed_def[of ?q])
  next
    case False
    moreover have "?k mod 5 < 5" by simp
    ultimately have "Suc ?k mod 5 = ?k mod 5 + 1" "Suc ?k div 5 = ?k div 5"
      by (simp_all add: mod_Suc div_Suc)
    then show ?thesis using Suc False ge nx[OF False] by (simp add: missed_def[of ?q])
  qed
qed

lemma recordMisses_eq:
  assumes "stake_ok s" "recAt s v = Some r" "State r \<noteq> 0" "unat (MissCount r) < 5"
  shows "\<exists>s'. recordMisses s v n = Inr s' \<and> stake_ok s' \<and> recAt s' v = Some ((missed ^^ n) r)"
proof (induction n)
  case 0
  then show ?case using assms by simp
next
  case (Suc n)
  then obtain s' where s': "recordMisses s v n = Inr s'" "stake_ok s'" "recAt s' v = Some ((missed ^^ n) r)"
    by blast
  have st: "State ((missed ^^ n) r) \<noteq> 0" using missed_pow[OF assms(4)] assms(3) by simp
  note ok = missed_ok[OF recAt_ok[OF s'(2,3)]]
  show ?case
    using s'(1) RecordMissTx_eq[OF s'(2,3) st] stake_ok_put[OF s'(2) ok, of v] recAt_put[OF ok, of s' v]
    by simp
qed

section \<open>Solvency of the escrow accounts\<close>

definition solvent :: "crypto \<Rightarrow> StakeDB \<Rightarrow> bool" where
  "solvent C s \<longleftrightarrow> stake_ok s \<and>
     (\<forall>v r. recAt s v = Some r \<longrightarrow> BondedAmount r \<le> BalanceOfTx (ledger s) (escrowAccount C v))"

text \<open>The validators \<open>V\<close> have pairwise distinct escrow accounts, none of which is the key of a
  validator.\<close>

definition escrow_separate :: "crypto \<Rightarrow> bytes32 set \<Rightarrow> bool" where
  "escrow_separate C V \<longleftrightarrow> inj_on (escrowAccount C) V \<and> escrowAccount C ` V \<inter> V = {}"

text \<open>One step of the staking state: a staking operation on a validator of \<open>V\<close>, or a ledger operation
  that does not debit an escrow account.\<close>

inductive staking_step :: "crypto \<Rightarrow> bytes32 set \<Rightarrow> StakeDB \<Rightarrow> StakeDB \<Rightarrow> bool" for C V where
  bond: "v \<in> V \<Longrightarrow> BondTx C s v a h = Inr s' \<Longrightarrow> staking_step C V s s'"
| unbond: "v \<in> V \<Longrightarrow> UnbondTx s v h = Inr s' \<Longrightarrow> staking_step C V s s'"
| finalize: "v \<in> V \<Longrightarrow> FinalizeTx C s v h = Inr s' \<Longrightarrow> staking_step C V s s'"
| slash: "v \<in> V \<Longrightarrow> SlashTx C s v = Inr (s', amt) \<Longrightarrow> staking_step C V s s'"
| miss: "v \<in> V \<Longrightarrow> RecordMiss C s v = Inr (s', n) \<Longrightarrow> staking_step C V s s'"
| transfer: "SenderPubKey t \<notin> escrowAccount C ` V \<Longrightarrow> Value t = Some x \<Longrightarrow> 0 \<le> x \<Longrightarrow>
    TransferTx (ledger s) t = Inr l \<Longrightarrow> staking_step C V s (s\<lparr>ledger := l\<rparr>)"
| burn: "a \<notin> escrowAccount C ` V \<Longrightarrow> 0 \<le> x \<Longrightarrow> BurnTx (ledger s) a x = Inr l \<Longrightarrow>
    staking_step C V s (s\<lparr>ledger := l\<rparr>)"
| credit: "0 \<le> x \<Longrightarrow> CreditTx (ledger s) a x = Inr l \<Longrightarrow> staking_step C V s (s\<lparr>ledger := l\<rparr>)"

inductive_cases staking_stepE: "staking_step C V s s'"

text \<open>An escrow account other than the one a step touches keeps its balance, and records of other
  validators are untouched.\<close>

definition staking_inv :: "crypto \<Rightarrow> bytes32 set \<Rightarrow> StakeDB \<Rightarrow> bool" where
  "staking_inv C V s \<longleftrightarrow> solvent C s \<and> dom (recAt s) \<subseteq> V"

lemma staking_inv_intro:
  assumes "staking_inv C V s" "escrow_separate C V" "v \<in> V" "stake_ok s'"
    and "\<And>w. w \<noteq> v \<Longrightarrow> recAt s' w = recAt s w"
    and "\<And>w. w \<in> V \<Longrightarrow> w \<noteq> v \<Longrightarrow>
      BalanceOfTx (ledger s) (escrowAccount C w) \<le> BalanceOfTx (ledger s') (escrowAccount C w)"
    and "\<And>r. recAt s' v = Some r \<Longrightarrow> BondedAmount r \<le> BalanceOfTx (ledger s') (escrowAccount C v)"
  shows "staking_inv C V s'"
proof -
  have "BondedAmount r \<le> BalanceOfTx (ledger s') (escrowAccount C w)" if "recAt s' w = Some r" for w r
  proof (cases "w = v")
    case True
    with that assms(7) show ?thesis by simp
  next
    case False
    with that assms(5) have "recAt s w = Some r" by simp
    with assms(1) have "w \<in> V" "BondedAmount r \<le> BalanceOfTx (ledger s) (escrowAccount C w)"
      by (auto simp: staking_inv_def solvent_def)
    with assms(6)[OF _ False] show ?thesis by fastforce
  qed
  moreover have "dom (recAt s') \<subseteq> V"
  proof
    fix w assume "w \<in> dom (recAt s')"
    then show "w \<in> V"
      using assms(1,3) assms(5)[of w] by (cases "w = v") (auto simp: staking_inv_def domIff subset_iff)
  qed
  ultimately show ?thesis using assms(4) by (auto simp: staking_inv_def solvent_def)
qed


lemma staking_inv_ledger:
  assumes "staking_inv C V s" "ledger_ok l"
    and "\<And>w. w \<in> V \<Longrightarrow> BalanceOfTx (ledger s) (escrowAccount C w) \<le> BalanceOfTx l (escrowAccount C w)"
  shows "staking_inv C V (s\<lparr>ledger := l\<rparr>)"
proof -
  have "BondedAmount r \<le> BalanceOfTx l (escrowAccount C w)" if "recAt s w = Some r" for w r
    using assms(1) assms(3)[of w] that by (fastforce simp: staking_inv_def solvent_def)
  then show ?thesis
    using assms(1,2) stake_ok_ledger by (auto simp: staking_inv_def solvent_def)
qed

lemma escrow_neq:
  assumes "escrow_separate C V" "v \<in> V" "w \<in> V"
  shows "escrowAccount C v \<noteq> w" "v \<noteq> w \<Longrightarrow> escrowAccount C v \<noteq> escrowAccount C w"
  using assms by (auto simp: escrow_separate_def inj_on_def)

lemma inv_ok: "staking_inv C V s \<Longrightarrow> stake_ok s" "staking_inv C V s \<Longrightarrow> ledger_ok (ledger s)"
  by (simp_all add: staking_inv_def solvent_def stake_ok_def)

lemma inv_amount:
  "staking_inv C V s \<Longrightarrow> recAt s v = Some r \<Longrightarrow> BondedAmount r \<le> BalanceOfTx (ledger s) (escrowAccount C v)"
  by (simp add: staking_inv_def solvent_def)

lemma bond_inv:
  assumes "staking_inv C V s" "escrow_separate C V" "v \<in> V" "BondTx C s v x h = Inr s'"
  shows "staking_inv C V s'"
proof (rule BondTx_law[OF inv_ok(1)[OF assms(1)] assms(4)])
  fix a
  assume mv: "moveAll (ledger s) v (escrowAccount C v) a = Inr (ledger s')"
    and rec: "recAt s' = (recAt s)(v := Some (newBond a h))" and ok: "stake_ok s'"
  note law = moveAll_law[OF inv_ok(2)[OF assms(1)] mv] moveAll_range[OF mv]
  show ?thesis
  proof (rule staking_inv_intro[OF assms(1-3) ok])
    show "recAt s' w = recAt s w" if "w \<noteq> v" for w using that rec by simp
    show "BalanceOfTx (ledger s) (escrowAccount C w) \<le> BalanceOfTx (ledger s') (escrowAccount C w)"
      if "w \<in> V" "w \<noteq> v" for w
      using escrow_neq[OF assms(2) that(1) assms(3)] escrow_neq(2)[OF assms(2,3) that(1)] that law by auto
    show "BondedAmount r \<le> BalanceOfTx (ledger s') (escrowAccount C v)" if "recAt s' v = Some r" for r
      using that rec law tokens.bal_nonneg[of "ledger s" "escrowAccount C v"] by (auto simp: newBond_def)
  qed
qed

lemma unbond_inv:
  assumes "staking_inv C V s" "escrow_separate C V" "v \<in> V" "UnbondTx s v h = Inr s'"
  shows "staking_inv C V s'"
proof (rule UnbondTx_law[OF inv_ok(1)[OF assms(1)] assms(4)])
  fix r
  assume "recAt s v = Some r" "ledger s' = ledger s" "stake_ok s'"
    and "recAt s' = (recAt s)(v := Some (r\<lparr>State := stateUnbonding, UnbondingAtBlock := h\<rparr>))"
  then show ?thesis
    using inv_amount[OF assms(1), of v r] by (intro staking_inv_intro[OF assms(1-3)]) auto
qed

lemma finalize_inv:
  assumes "staking_inv C V s" "escrow_separate C V" "v \<in> V" "FinalizeTx C s v h = Inr s'"
  shows "staking_inv C V s'"
  using inv_ok(1)[OF assms(1)] assms(4)
proof (cases rule: FinalizeTx_law)
  case noop
  then show ?thesis using assms(1) by simp
next
  case (release r)
  note law = moveAll_law[OF inv_ok(2)[OF assms(1)] release(3)] moveAll_range[OF release(3)]
  show ?thesis
  proof (rule staking_inv_intro[OF assms(1-3) release(5)])
    show "BalanceOfTx (ledger s) (escrowAccount C w) \<le> BalanceOfTx (ledger s') (escrowAccount C w)"
      if "w \<in> V" "w \<noteq> v" for w
      using escrow_neq[OF assms(2) that(1) assms(3)] escrow_neq(2)[OF assms(2,3) that(1)] that law by auto
  qed (use release(4) in auto)
qed

lemma burn_escrow_inv:
  assumes "staking_inv C V s" "escrow_separate C V" "v \<in> V" "stake_ok s'"
    and "0 \<le> x" "BurnTx (ledger s) (escrowAccount C v) x = Inr (ledger s')"
    and "\<And>w. w \<noteq> v \<Longrightarrow> recAt s' w = recAt s w"
    and "\<And>r. recAt s' v = Some r \<Longrightarrow> BondedAmount r + x \<le> BalanceOfTx (ledger s) (escrowAccount C v)"
  shows "staking_inv C V s'"
proof (rule staking_inv_intro[OF assms(1-4)])
  note law = BurnTx_law[OF inv_ok(2)[OF assms(1)] assms(5,6)]
  show "recAt s' w = recAt s w" if "w \<noteq> v" for w using that by (rule assms(7))
  show "BalanceOfTx (ledger s) (escrowAccount C w) \<le> BalanceOfTx (ledger s') (escrowAccount C w)"
    if "w \<in> V" "w \<noteq> v" for w
    using escrow_neq(2)[OF assms(2) that(1) assms(3)] that law by auto
  show "BondedAmount r \<le> BalanceOfTx (ledger s') (escrowAccount C v)" if "recAt s' v = Some r" for r
    using assms(8)[OF that] law by simp
qed

lemma slash_inv:
  assumes "staking_inv C V s" "escrow_separate C V" "v \<in> V" "SlashTx C s v = Inr (s', amt)"
  shows "staking_inv C V s'"
proof (rule SlashTx_law[OF inv_ok(1)[OF assms(1)] assms(4)])
  fix r
  assume r: "recAt s v = Some r" and burn: "BurnTx (ledger s) (escrowAccount C v) (BondedAmount r) = Inr (ledger s')"
    and rec: "recAt s' = (recAt s)(v := None)" and ok: "stake_ok s'"
  have "0 \<le> BondedAmount r" using recAt_ok[OF inv_ok(1)[OF assms(1)] r] by (simp add: record_ok_def)
  then show ?thesis
    using burn by (rule burn_escrow_inv[OF assms(1-3) ok]) (simp_all add: rec)
qed

lemma miss_inv:
  assumes "staking_inv C V s" "escrow_separate C V" "v \<in> V" "RecordMiss C s v = Inr (s', n)"
  shows "staking_inv C V s'"
proof -
  from assms(4) obtain u amt where u: "RecordMissTx s v = Inr (u, n, amt)"
    and s': "(if amt > 0 then onLedger u (Burn (ledger u) (EscrowAccount C v) (Some amt)) else Inr u) = Inr s'"
    by (auto simp: RecordMiss_def res_simps)
  from RecordMissTx_law[OF inv_ok(1)[OF assms(1)] u] obtain r where r: "recAt s v = Some r"
    and amt: "amt = BondedAmount r - BondedAmount (missed r)" "0 \<le> amt"
    and rec: "recAt u = (recAt s)(v := Some (missed r))" "ledger u = ledger s" "stake_ok u" by metis
  have le: "BondedAmount (missed r) + amt \<le> BalanceOfTx (ledger s) (escrowAccount C v)"
    using inv_amount[OF assms(1) r] amt by simp
  show ?thesis
  proof (cases "amt > 0")
    case True
    with s' obtain l where burn: "BurnTx (ledger s) (escrowAccount C v) amt = Inr l"
      and eq: "s' = u\<lparr>ledger := l\<rparr>"
      by (auto simp: res_simps Burn_def EscrowAccount_def rec)
    have "ledger_ok l" using BurnTx_law[OF inv_ok(2)[OF assms(1)] amt(2) burn] by simp
    then have "stake_ok s'" using rec(3) by (simp add: eq stake_ok_ledger)
    then show ?thesis
      by (rule burn_escrow_inv[OF assms(1-3) _ amt(2)]) (use burn le in \<open>auto simp: eq rec\<close>)
  next
    case False
    with s' amt have "s' = u" "BondedAmount (missed r) = BondedAmount r" by auto
    then show ?thesis
      using inv_amount[OF assms(1) r] rec by (intro staking_inv_intro[OF assms(1-3)]) auto
  qed
qed

lemma staking_step_inv:
  assumes "staking_step C V s s'" "staking_inv C V s" "escrow_separate C V"
  shows "staking_inv C V s'"
  using assms(1)
proof cases
  case (transfer t x l)
  have ok: "ledger_ok (ledger s)" using inv_ok(2)[OF assms(2)] .
  from transfer TransferTx_refines[OF ok transfer(3,4)] have
    "specTransfer (absLedger (ledger s)) (SenderPubKey t) (ReceiverPubKey t) x (Nonce t) = Inr (absLedger l)"
    by simp
  then have bal: "BalanceOfTx l = (BalanceOfTx (ledger s))(SenderPubKey t := BalanceOfTx (ledger s) (SenderPubKey t) - x,
      ReceiverPubKey t := BalanceOfTx (ledger s) (ReceiverPubKey t) + x)"
    by (auto simp: specTransfer_def absLedger_def split: if_splits)
  have "ledger_ok l" using TransferTx_law[OF ok transfer(3-5)] by simp
  moreover have "escrowAccount C w \<noteq> SenderPubKey t" if "w \<in> V" for w
    using transfer(2) that by (metis imageI)
  ultimately show ?thesis
    using bal transfer(4) unfolding transfer(1) by (intro staking_inv_ledger[OF assms(2)]) auto
next
  case (burn a x l)
  have "escrowAccount C w \<noteq> a" if "w \<in> V" for w using burn(2) that by (metis imageI)
  with BurnTx_law[OF inv_ok(2)[OF assms(2)] burn(3,4)] show ?thesis
    unfolding burn(1) by (intro staking_inv_ledger[OF assms(2)]) auto
next
  case (credit x a l)
  from CreditTx_law[OF inv_ok(2)[OF assms(2)] credit(2,3)] credit(2) show ?thesis
    unfolding credit(1) by (intro staking_inv_ledger[OF assms(2)]) auto
next
  case (bond v a h)
  then show ?thesis using bond_inv[OF assms(2,3)] by simp
next
  case (unbond v h)
  then show ?thesis using unbond_inv[OF assms(2,3)] by simp
next
  case (finalize v h)
  then show ?thesis using finalize_inv[OF assms(2,3)] by simp
next
  case (slash v amt)
  then show ?thesis using slash_inv[OF assms(2,3)] by simp
next
  case (miss v n)
  then show ?thesis using miss_inv[OF assms(2,3)] by simp
qed

lemma staking_reachable_inv:
  assumes "(staking_step C V)\<^sup>*\<^sup>* s s'" "staking_inv C V s" "escrow_separate C V"
  shows "staking_inv C V s'"
  using assms by (induction rule: rtranclp_induct) (auto intro: staking_step_inv)


section \<open>The validator set\<close>

lemma bondedEntries_eq:
  assumes "\<forall>(k, v)\<in>set b. \<exists>r. record_ok r \<and> v = rawRecord r"
  shows "bondedEntries b = Inr (List.map_filter (\<lambda>(k, v). case decodeRecord v of
     Inr r \<Rightarrow> if State r = stateBonded then Some (k, BondedAmount r) else None | _ \<Rightarrow> None) b)"
  using assms by (induction b) (auto simp: decodeRecord_raw List.map_filter_simps)

lemma bondedEntries_set:
  assumes "stake_ok s" "bondedEntries (validatorsBucket s) = Inr es"
  shows "set es = {(v, BondedAmount r) | v r. recAt s v = Some r \<and> State r = stateBonded}"
proof -
  have mem: "(k, v) \<in> set (validatorsBucket s) \<longleftrightarrow> bget (validatorsBucket s) k = Some v" for k v
    using assms(1) by (simp add: stake_ok_def bucket_ok_mem_iff)
  have raw: "\<forall>(k, v)\<in>set (validatorsBucket s). \<exists>r. record_ok r \<and> v = rawRecord r"
    using assms(1) by (simp add: stake_ok_def)
  have "(v, a) \<in> set es \<longleftrightarrow> (\<exists>r. recAt s v = Some r \<and> State r = stateBonded \<and> a = BondedAmount r)" for v a
  proof -
    have "(v, a) \<in> set es \<longleftrightarrow>
        (\<exists>w r. (v, w) \<in> set (validatorsBucket s) \<and> decodeRecord w = Inr r \<and> State r = stateBonded \<and> a = BondedAmount r)"
      using assms(2) unfolding bondedEntries_eq[OF raw]
      by (force simp: List.map_filter_def split: sum.splits if_splits)
    then show ?thesis
      unfolding mem by (auto simp: recAt_def getRecord_def rbind_def split: option.splits sum.splits)
  qed
  then show ?thesis by auto
qed

lemma bondedEntries_sorted:
  assumes "bucket_ok b" "bondedEntries b = Inr es"
  shows "sorted_wrt (<) (map fst es) \<and> fst ` set es \<subseteq> fst ` set b"
  using assms
proof (induction b arbitrary: es)
  case Nil
  then show ?case by simp
next
  case (Cons x b)
  obtain k v where x: "x = (k, v)" by force
  from Cons.prems(2) x obtain r fs where "decodeRecord v = Inr r" and fs: "bondedEntries b = Inr fs"
    and es: "es = (if State r = stateBonded then (k, BondedAmount r) # fs else fs)"
    by (auto simp: res_simps)
  have "bucket_ok b" "\<forall>j\<in>fst ` set b. k < j" using Cons.prems(1) x by (auto simp: bucket_ok_def)
  with Cons.IH[OF _ fs] es x show ?case by (auto 4 4)
qed

lemma bonded_ok:
  assumes "stake_ok s"
  obtains es where "bondedEntries (validatorsBucket s) = Inr es"
  using assms bondedEntries_eq[of "validatorsBucket s"] by (auto simp: stake_ok_def)

lemma BondTx_succeeds:
  assumes "stake_ok s" "minBondAmount \<le> a" "recAt s v = None" "a \<le> BalanceOfTx (ledger s) v"
    and "v \<noteq> escrowAccount C v" "supplyOf (ledger s) \<le> UINT256_MAX"
  obtains s' where "BondTx C s v (Some a) h = Inr s'"
proof -
  have ok: "ledger_ok (ledger s)" using assms(1) by (simp add: stake_ok_def)
  have "0 \<le> a" using assms(2) by (simp add: minBondAmount_def QuantaPerFRG_def)
  then obtain l where l: "moveAll (ledger s) v (escrowAccount C v) a = Inr l"
    using moveAll_succeeds[OF ok _ assms(4,5,6)] by blast
  have "record_ok (newBond a h)" using moveAll_range[OF l] by (simp add: record_ok_def newBond_def)
  then have "\<exists>s'. BondTx C s v (Some a) h = Inr s'"
    using assms(2,3) l by (simp add: BondTx_def getRecord_eq[OF assms(1)] Update_MoveTx onLedger_def setRecord_eq)
  with that show ?thesis by blast
qed

lemma UnbondTx_succeeds:
  assumes "stake_ok s" "recAt s v = Some r" "State r = stateBonded"
  obtains s' where "UnbondTx s v h = Inr s'"
proof -
  have "record_ok (r\<lparr>State := stateUnbonding, UnbondingAtBlock := h\<rparr>)"
    using recAt_ok[OF assms(1,2)] by (simp add: record_ok_def)
  then have "\<exists>s'. UnbondTx s v h = Inr s'"
    using assms(2,3) by (simp add: UnbondTx_def getRecord_eq[OF assms(1)] setRecord_eq)
  with that show ?thesis by blast
qed


section \<open>Properties of staking\<close>

definition sampleStore :: StakeDB where
  "sampleStore = NewStore \<lparr>balances = [(3, be_bytes 32 (3000 * 10 ^ 18))], nonces = []\<rparr>"

lemma sampleStore_inv: "staking_inv sample_crypto {3} sampleStore" "escrow_separate sample_crypto {3}"
proof -
  show "staking_inv sample_crypto {3} sampleStore"
    by (auto simp: staking_inv_def solvent_def stake_ok_def sampleStore_def NewStore_def ledger_ok_def
        balances_ok_def bucket_ok_def recAt_def getRecord_def)
  have "escrowAccount sample_crypto 3 \<noteq> 3" by code_simp
  then show "escrow_separate sample_crypto {3}" by (simp add: escrow_separate_def)
qed

lemma sampleStore_total: "supplyOf (ledger sampleStore) = 3000 * 10 ^ 18"
proof -
  have "{a. bget (balances (ledger sampleStore)) a \<noteq> None} = {3}"
    by (auto simp: sampleStore_def NewStore_def bget_def split: if_splits)
  moreover have "be_val (the (bget (balances (ledger sampleStore)) 3)) = 3000 * 10 ^ 18" by code_simp
  ultimately show ?thesis by (simp add: totalBalances_def)
qed

lemma sampleBond:
  obtains s where "BondTx sample_crypto sampleStore 3 (Some (2000 * 10 ^ 18)) 7 = Inr s" "stake_ok s"
    "recAt s 3 = Some (newBond (2000 * 10 ^ 18) 7)" "supplyOf (ledger s) \<le> UINT256_MAX"
proof -
  have ok: "stake_ok sampleStore" using inv_ok(1)[OF sampleStore_inv(1)] .
  have ne: "escrowAccount sample_crypto 3 \<noteq> 3" by code_simp
  have none: "recAt sampleStore 3 = None"
    by (simp add: sampleStore_def NewStore_def recAt_def getRecord_def)
  have bal: "2000 * 10 ^ 18 \<le> BalanceOfTx (ledger sampleStore) 3" by code_simp
  have tot: "supplyOf (ledger sampleStore) \<le> UINT256_MAX"
    by (simp add: sampleStore_total UINT256_MAX_def)
  have min: "minBondAmount \<le> 2000 * 10 ^ 18" by (simp add: minBondAmount_def QuantaPerFRG_def)
  obtain s where s: "BondTx sample_crypto sampleStore 3 (Some (2000 * 10 ^ 18)) 7 = Inr s"
    using BondTx_succeeds[OF ok min none bal ne[symmetric] tot] .
  obtain a where a: "Some (2000 * 10 ^ 18) = Some a" and "minBondAmount \<le> a" and "recAt sampleStore 3 = None"
    and "moveAll (ledger sampleStore) 3 (escrowAccount sample_crypto 3) a = Inr (ledger s)"
    and "recAt s = (recAt sampleStore)(3 := Some (newBond a 7))" and sok: "stake_ok s"
    using BondTx_law[OF ok s] .
  then have mv: "moveAll (ledger sampleStore) 3 (escrowAccount sample_crypto 3) (2000 * 10 ^ 18) = Inr (ledger s)"
    and r: "recAt s 3 = Some (newBond (2000 * 10 ^ 18) 7)" "stake_ok s" by simp_all
  have "supplyOf (ledger s) = 3000 * 10 ^ 18"
    using moveAll_law[OF _ mv] ok ne sampleStore_total by (auto simp: stake_ok_def)
  then have "supplyOf (ledger s) \<le> UINT256_MAX" by (simp add: UINT256_MAX_def)
  with that[OF s] r show ?thesis by blast
qed

text \<open>C7. Bonded funds can always be recovered: from a solvent state, whatever staking operations run
  and whatever transfers, burns and credits that do not debit an escrow account, every validator
  record stays covered by its escrow account.  Hence a validator whose lockup has elapsed is paid
  its whole remaining bond, and a bonded or unbonding validator can be slashed.\<close>

theorem staking_bonds_recoverable:
  assumes "(staking_step C V)\<^sup>*\<^sup>* s s'" "staking_inv C V s" "escrow_separate C V"
    and "recAt s' v = Some r" "supplyOf (ledger s') \<le> UINT256_MAX"
  shows "BondedAmount r \<le> BalanceOfTx (ledger s') (escrowAccount C v) \<and>
    (released r h \<longrightarrow> (\<exists>u. FinalizeTx C s' v h = Inr u \<and> recAt u = (recAt s')(v := None) \<and>
       BalanceOfTx (ledger u) v = BalanceOfTx (ledger s') v + BondedAmount r)) \<and>
    (State r \<noteq> 0 \<longrightarrow> (\<exists>u. SlashTx C s' v = Inr (u, BondedAmount r) \<and> recAt u = (recAt s')(v := None)))"
proof -
  have inv: "staking_inv C V s'" using assms(1-3) by (rule staking_reachable_inv)
  note ok = inv_ok[OF inv]
  have v: "v \<in> V" using inv assms(4) by (auto simp: staking_inv_def)
  have amt: "0 \<le> BondedAmount r" "BondedAmount r \<le> BalanceOfTx (ledger s') (escrowAccount C v)"
    using recAt_ok[OF ok(1) assms(4)] inv_amount[OF inv assms(4)] by (auto simp: record_ok_def)
  have ne: "escrowAccount C v \<noteq> v" using escrow_neq(1)[OF assms(3) v v] .
  have "\<exists>u. FinalizeTx C s' v h = Inr u \<and> recAt u = (recAt s')(v := None) \<and>
       BalanceOfTx (ledger u) v = BalanceOfTx (ledger s') v + BondedAmount r" if "released r h"
  proof -
    obtain l where l: "moveAll (ledger s') (escrowAccount C v) v (BondedAmount r) = Inr l"
      using moveAll_succeeds[OF ok(2) amt ne assms(5)] .
    then show ?thesis
      using moveAll_law[OF ok(2) l] recAt_del[of "s'\<lparr>ledger := l\<rparr>" v]
      by (simp add: FinalizeTx_release[OF ok(1) assms(4) that])
  qed
  moreover have "\<exists>u. SlashTx C s' v = Inr (u, BondedAmount r) \<and> recAt u = (recAt s')(v := None)"
    if "State r \<noteq> 0"
  proof -
    obtain l where l: "BurnTx (ledger s') (escrowAccount C v) (BondedAmount r) = Inr l"
      using tokens.burn_succeeds[OF ok(2) amt] by blast
    then show ?thesis
      using that assms(4) recAt_del[of "s'\<lparr>ledger := l\<rparr>" v]
      by (simp add: SlashTx_def getRecord_eq[OF ok(1)] Let_def onLedger_def)
  qed
  ultimately show ?thesis using amt by blast
qed

theorem staking_bonds_recoverable_witness:
  "\<exists>s' r. staking_step sample_crypto {3} sampleStore s' \<and> recAt s' 3 = Some r \<and>
     BondedAmount r = 2000 * 10 ^ 18 \<and>
     (\<exists>u. SlashTx sample_crypto s' 3 = Inr (u, 2000 * 10 ^ 18))"
proof -
  obtain s' where s': "BondTx sample_crypto sampleStore 3 (Some (2000 * 10 ^ 18)) 7 = Inr s'"
    and r: "recAt s' 3 = Some (newBond (2000 * 10 ^ 18) 7)" and tot: "supplyOf (ledger s') \<le> UINT256_MAX"
    by (rule sampleBond)
  then have step: "staking_step sample_crypto {3} sampleStore s'" by (auto intro: staking_step.bond)
  then have "(staking_step sample_crypto {3})\<^sup>*\<^sup>* sampleStore s'" by blast
  from staking_bonds_recoverable[OF this sampleStore_inv r tot, of 0]
  have "\<exists>u. SlashTx sample_crypto s' 3 = Inr (u, 2000 * 10 ^ 18)" by (auto simp: newBond_def)
  with step r show ?thesis by (intro exI[of _ s'] exI[of _ "newBond (2000 * 10 ^ 18) 7"]) (simp add: newBond_def)
qed

text \<open>C26. The lockup: after a validator starts unbonding at height \<open>h\<close>, finalizing changes nothing
  before height \<open>h + 1000\<close> and moves exactly the bonded amount out of escrow from then on; the record
  is then gone.\<close>

theorem staking_lockup:
  assumes "stake_ok s" "UnbondTx s v h = Inr s1" "unat h + 1000 < 2 ^ 64"
  shows "(unat h' < unat h + 1000 \<longrightarrow> FinalizeTx C s1 v h' = Inr s1) \<and>
    (unat h + 1000 \<le> unat h' \<longrightarrow> (\<exists>r. recAt s v = Some r \<and>
       FinalizeTx C s1 v h' = rbind (moveAll (ledger s) (escrowAccount C v) v (BondedAmount r)) (\<lambda>l.
         Inr (s1\<lparr>ledger := l, validatorsBucket := bdel (validatorsBucket s1) v\<rparr>))))"
proof -
  obtain r where r: "recAt s v = Some r" "State r \<noteq> 0" "State r \<noteq> stateUnbonding"
    and rec: "recAt s1 = (recAt s)(v := Some (r\<lparr>State := stateUnbonding, UnbondingAtBlock := h\<rparr>))"
    and led: "ledger s1 = ledger s" and ok: "stake_ok s1"
    using UnbondTx_law[OF assms(1,2)] .
  have s1: "recAt s1 v = Some (r\<lparr>State := stateUnbonding, UnbondingAtBlock := h\<rparr>)"
      "ledger s1 = ledger s" "stake_ok s1" using rec led ok by simp_all
  have "unat (h + UnbondingBlocks) = unat h + 1000"
    using assms(3) unat_word_ariths(1)[of h UnbondingBlocks] by simp
  then have rel: "released (r\<lparr>State := stateUnbonding, UnbondingAtBlock := h\<rparr>) h' \<longleftrightarrow> unat h + 1000 \<le> unat h'"
    by (simp add: released_def word_le_nat_alt)
  show ?thesis
  proof (cases "unat h + 1000 \<le> unat h'")
    case True
    then show ?thesis
      using FinalizeTx_release[OF s1(3,1), of h' C] rel s1(2) r by simp
  next
    case False
    then have "FinalizeTx C s1 v h' = Inr s1"
      using rel s1(1) by (intro FinalizeTx_noop[OF s1(3)]) simp
    with False show ?thesis by simp
  qed
qed

theorem staking_lockup_witness:
  "\<exists>s s1. BondTx sample_crypto sampleStore 3 (Some (2000 * 10 ^ 18)) 7 = Inr s \<and>
     UnbondTx s 3 50 = Inr s1 \<and> FinalizeTx sample_crypto s1 3 1049 = Inr s1"
proof -
  obtain s where s: "BondTx sample_crypto sampleStore 3 (Some (2000 * 10 ^ 18)) 7 = Inr s"
    and ok: "stake_ok s" and r: "recAt s 3 = Some (newBond (2000 * 10 ^ 18) 7)" by (rule sampleBond)
  obtain s1 where s1: "UnbondTx s 3 50 = Inr s1"
    using UnbondTx_succeeds[OF ok r] by (auto simp: newBond_def)
  from staking_lockup[OF ok s1, of 1049 sample_crypto] s s1 show ?thesis by auto
qed

text \<open>The miss counter: \<open>n\<close> recorded misses of a validator succeed, leave its counter at the number
  of misses modulo five, and cut the bond by a tenth, rounded down, once for every five misses.\<close>

theorem staking_miss_schedule:
  assumes "stake_ok s" "recAt s v = Some r" "State r \<noteq> 0" "unat (MissCount r) < 5"
  shows "\<exists>s' r'. recordMisses s v n = Inr s' \<and> recAt s' v = Some r' \<and>
    unat (MissCount r') = (unat (MissCount r) + n) mod 5 \<and>
    BondedAmount r' = ((\<lambda>a. a - a * 10 div 100) ^^ ((unat (MissCount r) + n) div 5)) (BondedAmount r)"
proof -
  have "slashed = (\<lambda>a. a - a * 10 div 100)" by (simp add: slashed_def fun_eq_iff)
  then show ?thesis
    using recordMisses_eq[OF assms, of n] missed_pow[OF assms(4), of n] by auto
qed

theorem staking_miss_schedule_witness:
  "\<exists>s s' r'. BondTx sample_crypto sampleStore 3 (Some (2000 * 10 ^ 18)) 7 = Inr s \<and>
     recordMisses s 3 11 = Inr s' \<and> recAt s' 3 = Some r' \<and> BondedAmount r' = 1620 * 10 ^ 18"
proof -
  obtain s where s: "BondTx sample_crypto sampleStore 3 (Some (2000 * 10 ^ 18)) 7 = Inr s"
    and ok: "stake_ok s" and r: "recAt s 3 = Some (newBond (2000 * 10 ^ 18) 7)" by (rule sampleBond)
  from staking_miss_schedule[OF ok r, of 11] s show ?thesis
    by (auto simp: newBond_def numeral_2_eq_2)
qed

end
