(* ===== verification/FRG_Economics.thy ===== *)
theory FRG_Economics
  imports FRG_Staking "HOL-Library.Multiset"
begin

text \<open>
  Packages \<^verbatim>\<open>core/gas\<close>, \<^verbatim>\<open>core/mint\<close> and \<^verbatim>\<open>core/leader\<close>: the base fee and the fee accounts, the
  block reward, and the rotation of proposers.
\<close>

section \<open>core/gas\<close>

abbreviation (input) TargetGasPerBlock :: u64 where "TargetGasPerBlock \<equiv> 32768"
abbreviation (input) MinBaseFee :: int where "MinBaseFee \<equiv> 1"

definition FeeAccount :: "crypto \<Rightarrow> bytes32 \<Rightarrow> account" where
  "FeeAccount C validator = sha256 C (str ''FRG_GAS_FEE_V1'' @ [0] @ arr32 validator)"

definition BaseFee :: "int option \<Rightarrow> u64 \<Rightarrow> int" where
  "BaseFee prevBaseFee gasUsed =
     (case prevBaseFee of None \<Rightarrow> MinBaseFee
      | Some prev \<Rightarrow>
         (let next =
            (if gasUsed > TargetGasPerBlock
               then prev + prev * uint (gasUsed - TargetGasPerBlock) div 32768 div 8
             else if gasUsed < TargetGasPerBlock
               then prev - prev * uint (TargetGasPerBlock - gasUsed) div 32768 div 8
             else prev) in
          if next < MinBaseFee then MinBaseFee else next))"

text \<open>The loop of \<^verbatim>\<open>Accrue\<close> over the validators and their bonds, from index \<open>i\<close>.\<close>

fun accrueLoop ::
  "crypto \<Rightarrow> int \<Rightarrow> int \<Rightarrow> int \<Rightarrow> int \<Rightarrow> int \<Rightarrow> (bytes32 \<times> int) list \<Rightarrow> LedgerDB \<Rightarrow> LedgerDB res" where
  "accrueLoop C equalShare remainderCount stakerPool totalBonded i [] l = Inr l"
| "accrueLoop C equalShare remainderCount stakerPool totalBonded i ((validator, bonded) # rest) l =
     (let share = (if i < remainderCount then equalShare + 1 else equalShare);
          share = (if totalBonded > 0 then share + stakerPool * bonded div totalBonded else share);
          feeAcc = FeeAccount C validator;
          current = BalanceOf l feeAcc + share in
      rbind (Seed l feeAcc (Some current))
        (accrueLoop C equalShare remainderCount stakerPool totalBonded (i + 1) rest))"

definition Accrue ::
  "crypto \<Rightarrow> LedgerDB \<Rightarrow> int option \<Rightarrow> bytes32 list \<Rightarrow> int option list \<Rightarrow> LedgerDB res" where
  "Accrue C l totalFees validatorSet bondedAmounts =
     (case totalFees of None \<Rightarrow> Inl (GoError ''total fees is nil'')
      | Some fees \<Rightarrow>
        rguard (fees < 0) (GoError ''total fees must be non-negative'')
        (rguard (length validatorSet \<noteq> length bondedAmounts)
           (GoError ''validator set and bonded amounts length mismatch'')
        (if validatorSet = [] \<or> fees = 0 then Inr l else
         let validatorPool = fees * 70 div 100;
             stakerPool = fees - validatorPool;
             n = int (length validatorSet);
             equalShare = validatorPool div n;
             remainderCount = validatorPool - equalShare * n in
         rguard (None \<in> set bondedAmounts) (GoError ''bonded amount is nil'')
         (let bonds = map the bondedAmounts in
          accrueLoop C equalShare remainderCount stakerPool (sum_list bonds) 0
            (zip validatorSet bonds) l))))"

definition Claim :: "crypto \<Rightarrow> LedgerDB \<Rightarrow> bytes32 \<Rightarrow> LedgerDB res" where
  "Claim C l validator =
     (let feeAcc = FeeAccount C validator; bal = BalanceOf l feeAcc in
      if bal = 0 then Inr l else Move l feeAcc validator (Some bal))"

definition ClaimTx :: "crypto \<Rightarrow> LedgerDB \<Rightarrow> bytes32 \<Rightarrow> LedgerDB res" where
  "ClaimTx C l validator =
     (let feeAcc = FeeAccount C validator; bal = BalanceOfTx l feeAcc in
      if bal = 0 then Inr l else Update (MoveTx l feeAcc validator (Some bal)))"

definition Claimable :: "crypto \<Rightarrow> LedgerDB \<Rightarrow> bytes32 \<Rightarrow> int" where
  "Claimable C l validator = BalanceOf l (FeeAccount C validator)"


section \<open>core/mint\<close>

definition MintPerBlock :: "int option \<Rightarrow> int option \<Rightarrow> int" where
  "MintPerBlock totalSupply totalStaked =
     (case (totalSupply, totalStaked) of
        (Some supply, Some staked) \<Rightarrow>
          (if supply \<le> 0 then 0 else
           let targetStaked = supply * 50 div 100 in
           if targetStaked = 0 \<or> staked \<ge> targetStaked then 0 else
           let deficit = targetStaked - staked;
               maxPerBlock = supply * 10 div 100 div 5256000 in
           maxPerBlock * deficit div targetStaked)
      | _ \<Rightarrow> 0)"

definition SplitReward :: "int option \<Rightarrow> nat \<Rightarrow> int list" where
  "SplitReward blockReward validatorCount =
     (if validatorCount = 0 then [] else
      case blockReward of None \<Rightarrow> replicate validatorCount 0
      | Some reward \<Rightarrow>
         if reward \<le> 0 then replicate validatorCount 0 else
         let n = int validatorCount;
             share = reward div n;
             remainder = reward - share * n;
             shares = replicate validatorCount share in
         shares[0 := shares ! 0 + remainder])"

definition Mint :: "crypto \<Rightarrow> LedgerDB \<Rightarrow> bytes32 \<Rightarrow> int option \<Rightarrow> LedgerDB res" where
  "Mint C l validator amount =
     (case amount of None \<Rightarrow> Inr l
      | Some a \<Rightarrow> if a \<le> 0 then Inr l else
          let feeAcc = FeeAccount C validator; cur = BalanceOf l feeAcc in
          Seed l feeAcc (Some (cur + a)))"


section \<open>core/leader\<close>

definition computeSeed :: "crypto \<Rightarrow> bytes32 \<Rightarrow> u64 \<Rightarrow> bytes32" where
  "computeSeed C prevStateRoot blockHeight = Hash C (arr32 prevStateRoot @ PutUint64 blockHeight)"

text \<open>\<^verbatim>\<open>sort.Slice\<close> orders equal keys arbitrarily; equal keys are equal values here.\<close>

definition SkipProposer :: "crypto \<Rightarrow> bytes32 \<Rightarrow> u64 \<Rightarrow> bytes32 list \<Rightarrow> u32 \<Rightarrow> bytes32 res" where
  "SkipProposer C prevStateRoot blockHeight validators skipCount =
     rguard (validators = []) (RGError ErrEmptyValidatorSet)
     (let sorted = sort validators;
          seed = computeSeed C prevStateRoot blockHeight;
          base = Uint64 (take 8 (arr32 seed));
          n = of_nat (length sorted) :: u64;
          idx = (base mod n + ucast skipCount) mod n in
      Inr (sorted ! unat idx))"

definition ElectedProposer :: "crypto \<Rightarrow> bytes32 \<Rightarrow> u64 \<Rightarrow> bytes32 list \<Rightarrow> bytes32 res" where
  "ElectedProposer C prevStateRoot blockHeight validators =
     SkipProposer C prevStateRoot blockHeight validators 0"


lemma unat_of_nat_u64: "n < 2 ^ 64 \<Longrightarrow> unat (of_nat n :: u64) = n"
  by (simp add: unsigned_of_nat take_bit_nat_eq_self)

section \<open>Base fee\<close>

lemma BaseFee_min: "1 \<le> BaseFee prev g"
  by (simp add: BaseFee_def Let_def split: option.splits)

text \<open>A gas usage of at most twice the target moves the fee by at most an eighth.\<close>

lemma BaseFee_step:
  assumes "1 \<le> p" "uint g \<le> 65536"
  shows "p - p div 8 \<le> BaseFee (Some p) g \<and> BaseFee (Some p) g \<le> p + p div 8"
proof -
  have *: "0 \<le> p * d div 32768 div 8 \<and> p * d div 32768 div 8 \<le> p div 8" if "0 \<le> d" "d \<le> 32768" for d :: int
  proof -
    have "p * d \<le> p * 32768" using that assms(1) by (intro mult_left_mono) auto
    then have "p * d div 32768 \<le> p" by linarith
    moreover have "0 \<le> p * d" using that assms(1) by (intro mult_nonneg_nonneg) auto
    then have "0 \<le> p * d div 32768" by (simp add: pos_imp_zdiv_nonneg_iff)
    ultimately show ?thesis by (auto intro: zdiv_mono1)
  qed
  have up: "uint (g - TargetGasPerBlock) = uint g - 32768" if "g > TargetGasPerBlock"
    using that by (simp add: uint_minus_simple_alt[THEN iffD1] word_less_def word_le_def)
  have dn: "uint (TargetGasPerBlock - g) = 32768 - uint g" if "g < TargetGasPerBlock"
    using that by (simp add: uint_minus_simple_alt[THEN iffD1] word_less_def word_le_def)
  have low: "1 \<le> p - p div 8" using assms(1) by linarith
  consider (more) "32768 < uint g" | (less) "uint g < 32768" | (eq) "uint g = 32768" by linarith
  then show ?thesis
  proof cases
    case more
    then have g: "g > TargetGasPerBlock" by (simp add: word_less_def)
    let ?d = "p * (uint g - 32768) div 32768 div 8"
    have "0 \<le> ?d \<and> ?d \<le> p div 8" using more assms(2) by (intro *) auto
    moreover have "BaseFee (Some p) g = max 1 (p + ?d)"
      using g by (simp add: BaseFee_def Let_def up[OF g])
    ultimately show ?thesis using low assms(1) by simp
  next
    case less
    then have g: "g < TargetGasPerBlock" "\<not> g > TargetGasPerBlock" by (simp_all add: word_less_def)
    let ?d = "p * (32768 - uint g) div 32768 div 8"
    have "0 \<le> ?d \<and> ?d \<le> p div 8" using less by (intro *) auto
    moreover have "BaseFee (Some p) g = max 1 (p - ?d)"
      using g by (simp add: BaseFee_def Let_def dn[OF g(1)])
    ultimately show ?thesis using low assms(1) by simp
  next
    case eq
    then have "\<not> g < TargetGasPerBlock" "\<not> g > TargetGasPerBlock" by (simp_all add: word_less_def)
    then show ?thesis using low assms(1) by (simp add: BaseFee_def Let_def)
  qed
qed

lemma BaseFee_stuck:
  assumes "1 \<le> p" "p < 8" "uint g \<le> 65536"
  shows "BaseFee (Some p) g = p"
proof -
  have "p div 8 = 0" using assms(1,2) by simp
  with BaseFee_step[OF assms(1,3)] show ?thesis by simp
qed

section \<open>Block reward\<close>

lemma MintPerBlock_bounds:
  assumes "0 \<le> staked"
  shows "0 \<le> MintPerBlock (Some supply) (Some staked) \<and>
    5256000 * MintPerBlock (Some supply) (Some staked) \<le> max 0 (supply * 10 div 100)"
proof (cases "0 < supply \<and> 0 < supply * 50 div 100 \<and> staked < supply * 50 div 100")
  case True
  define t m where "t = supply * 50 div 100" and "m = supply * 10 div 100 div 5256000"
  have t: "0 < t" "staked < t" using True by (simp_all add: t_def)
  have m: "0 \<le> m" using True by (simp add: m_def pos_imp_zdiv_nonneg_iff)
  have "m * (t - staked) \<le> m * t" using m assms by (intro mult_left_mono) auto
  then have "m * (t - staked) div t \<le> m * t div t" using t(1) by (intro zdiv_mono1) auto
  then have le: "m * (t - staked) div t \<le> m" using t(1) by simp
  have ge: "0 \<le> m * (t - staked) div t" using m t by (simp add: pos_imp_zdiv_nonneg_iff)
  have "5256000 * m \<le> supply * 10 div 100" unfolding m_def by linarith
  then have "5256000 * (m * (t - staked) div t) \<le> supply * 10 div 100" using le by linarith
  moreover have "MintPerBlock (Some supply) (Some staked) = m * (t - staked) div t"
    using True unfolding MintPerBlock_def Let_def t_def m_def by simp
  ultimately show ?thesis using ge by simp
next
  case False
  moreover have "0 \<le> supply * 50 div 100" if "0 < supply" using that by simp
  ultimately have "MintPerBlock (Some supply) (Some staked) = 0"
    unfolding MintPerBlock_def Let_def by (simp add: not_less) linarith
  then show ?thesis by simp
qed

lemma SplitReward_sum:
  assumes "0 < n" "0 \<le> r"
  shows "length (SplitReward (Some r) n) = n \<and> sum_list (SplitReward (Some r) n) = r \<and>
    (\<forall>x\<in>set (SplitReward (Some r) n). 0 \<le> x)"
proof (cases "0 < r")
  case True
  define q where "q = r div int n"
  obtain m where n: "n = Suc m" using assms(1) by (cases n) auto
  have eq: "SplitReward (Some r) n = (q + (r - q * int n)) # replicate m q"
    using True by (simp add: SplitReward_def n Let_def q_def)
  have "0 \<le> r - q * int n" using assms(1) by (simp add: minus_div_mult_eq_mod q_def)
  moreover have "0 \<le> q" using assms by (simp add: pos_imp_zdiv_nonneg_iff q_def)
  moreover have "q + (r - q * int n) + int m * q = r" by (simp add: n algebra_simps)
  ultimately show ?thesis unfolding eq by (simp add: sum_list_replicate n)
next
  case False
  with assms have "SplitReward (Some r) n = replicate n 0" "r = 0" by (simp_all add: SplitReward_def)
  then show ?thesis by (simp add: sum_list_replicate)
qed

section \<open>Proposers\<close>

lemma SkipProposer_perm:
  "mset vs = mset vs' \<Longrightarrow> SkipProposer C root h vs k = SkipProposer C root h vs' k"
proof -
  assume m: "mset vs = mset vs'"
  then have "sort vs = sort vs'" by (metis properties_for_sort sorted_sort mset_sort)
  moreover have "vs = [] \<longleftrightarrow> vs' = []" using m by auto
  ultimately show ?thesis by (simp add: SkipProposer_def)
qed

lemma SkipProposer_idx:
  assumes "vs \<noteq> []" "length vs \<le> 2 ^ 32"
  obtains b where "\<And>k. SkipProposer C root h vs k = Inr (sort vs ! ((b + unat k) mod length vs))"
    and "b < length vs"
proof -
  let ?base = "Uint64 (take 8 (arr32 (computeSeed C root h)))"
  let ?n = "of_nat (length vs) :: u64"
  have n: "unat ?n = length vs" using assms(2) by (intro unat_of_nat_u64) simp
  have pos: "0 < length vs" using assms(1) by simp
  let ?b = "unat ?base mod length vs"
  have bn: "?b < length vs" using pos by simp
  have "unat ((?base mod ?n + ucast k) mod ?n) = (?b + unat k) mod length vs" for k :: u32
  proof -
    have k32: "unat k < 2 ^ 32" using unsigned_less[of k] by simp
    then have k: "unat (ucast k :: u64) = unat k" by (simp add: unsigned_ucast_eq take_bit_nat_eq_self)
    have "?b + unat k < 2 ^ 64" using bn assms(2) k32 by simp
    then have "unat (?base mod ?n + ucast k) = ?b + unat k"
      using k n by (subst unat_plus_simple[THEN iffD1]) (auto simp: unat_mod no_olen_add_nat)
    then show ?thesis by (simp add: unat_mod n)
  qed
  then have "SkipProposer C root h vs k = Inr (sort vs ! ((?b + unat k) mod length vs))" for k
    using assms(1) by (simp add: SkipProposer_def Let_def)
  with bn that show ?thesis by blast
qed


lemma SkipProposer_bij:
  assumes "vs \<noteq> []" "distinct vs" "length vs \<le> 2 ^ 32" "v \<in> set vs"
  shows "\<exists>!k. k < length vs \<and> SkipProposer C root h vs (of_nat k) = Inr v"
proof -
  let ?n = "length vs"
  obtain b where b: "\<And>k. SkipProposer C root h vs k = Inr (sort vs ! ((b + unat k) mod ?n))" "b < ?n"
    using SkipProposer_idx[OF assms(1,3)] by blast
  have dist: "distinct (sort vs)" using assms(2) by simp
  obtain i where i: "i < ?n" "sort vs ! i = v"
    using assms(4) by (metis in_set_conv_nth length_sort set_sort)
  have at: "SkipProposer C root h vs (of_nat k) = Inr v \<longleftrightarrow> (b + k) mod ?n = i" if "k < ?n" for k
  proof -
    have "unat (of_nat k :: u32) = k" using that assms(3) by (intro unat_of_nat_u32) simp
    moreover have "(b + k) mod ?n < ?n" using assms(1) by simp
    ultimately show ?thesis
      using dist i by (simp add: b(1) nth_eq_iff_index_eq flip: i(2))
  qed
  let ?k = "if b \<le> i then i - b else i + ?n - b"
  have k: "?k < ?n" "(b + ?k) mod ?n = i" using i(1) b(2) by auto
  show ?thesis
  proof (rule ex1I[of _ ?k])
    show "?k < ?n \<and> SkipProposer C root h vs (of_nat ?k) = Inr v" using k at by blast
    fix j assume "j < ?n \<and> SkipProposer C root h vs (of_nat j) = Inr v"
    then have j: "j < ?n" "(b + j) mod ?n = i" using at by auto
    show "j = ?k"
    proof (cases "b + j < ?n")
      case True
      then show ?thesis using j by auto
    next
      case False
      then have "(b + j) mod ?n = b + j - ?n" using b(2) j(1) by (simp add: mod_if)
      then show ?thesis using j False b(2) by auto
    qed
  qed
qed

section \<open>Fee accounts\<close>

lemma Seed_credit:
  assumes "0 \<le> x"
  shows "Seed l a (Some (BalanceOf l a + x)) = CreditTx l a x"
proof -
  have "0 \<le> readBalance (balances l) a + x" using assms readBalance_nonneg[of "balances l" a] by linarith
  then show ?thesis
    by (simp add: Seed_def SeedTx_def CreditTx_def BalanceOf_def BalanceOfTx_def validateUint256_cases
        writeBalance_eq setBalances_def Let_def)
qed

text \<open>The share that \<^verbatim>\<open>Accrue\<close> gives to the validator at position \<open>i\<close>.\<close>

definition accrueShare :: "int \<Rightarrow> int \<Rightarrow> int \<Rightarrow> int \<Rightarrow> int \<Rightarrow> int \<Rightarrow> int" where
  "accrueShare e r pool tot i b =
     (if i < r then e + 1 else e) + (if tot > 0 then pool * b div tot else 0)"

lemma accrueLoop_credits:
  assumes "0 \<le> e" "0 \<le> pool" "\<forall>(v, b)\<in>set ps. 0 \<le> b"
  shows "accrueLoop C e r pool tot i ps l =
    rfold (\<lambda>(a, x) l. CreditTx l a x)
      (map (\<lambda>(k, v, b). (FeeAccount C v, accrueShare e r pool tot (i + int k) b)) (enumerate 0 ps)) l"
  using assms
proof (induction ps arbitrary: i l)
  case Nil
  then show ?case by simp
next
  case (Cons p ps)
  obtain v b where p: "p = (v, b)" by force
  have "0 \<le> accrueShare e r pool tot i b"
    using Cons.prems p by (auto simp: accrueShare_def pos_imp_zdiv_nonneg_iff)
  then have step: "Seed l (FeeAccount C v) (Some (BalanceOf l (FeeAccount C v) + accrueShare e r pool tot i b))
      = CreditTx l (FeeAccount C v) (accrueShare e r pool tot i b)"
    by (rule Seed_credit)
  have IH: "accrueLoop C e r pool tot (i + 1) ps = rfold (\<lambda>(a, x) l. CreditTx l a x)
      (map (\<lambda>(k, v, b). (FeeAccount C v, accrueShare e r pool tot (i + 1 + int k) b)) (enumerate 0 ps))"
    using Cons by (intro ext Cons.IH) auto
  have shift: "map (\<lambda>(k, v, b). (FeeAccount C v, accrueShare e r pool tot (i + int k) b)) (enumerate (Suc 0) ps)
      = map (\<lambda>(k, v, b). (FeeAccount C v, accrueShare e r pool tot (i + 1 + int k) b)) (enumerate 0 ps)"
    by (simp add: enumerate_Suc_eq o_def case_prod_beta algebra_simps)
  have "accrueLoop C e r pool tot i (p # ps) l =
      rbind (Seed l (FeeAccount C v) (Some (BalanceOf l (FeeAccount C v) + accrueShare e r pool tot i b)))
        (accrueLoop C e r pool tot (i + 1) ps)"
    by (simp add: p accrueShare_def Let_def)
  then show ?case by (simp only: step IH) (simp add: p shift)
qed


lemma accrueShares_sum:
  assumes "0 < tot"
  shows "sum_list (map (\<lambda>(k, v, b). accrueShare e r pool tot (int k) b) (enumerate i ps)) =
    e * int (length ps) + max 0 (min (r - int i) (int (length ps))) +
    sum_list (map (\<lambda>(v, b). pool * b div tot) ps)"
proof (induction ps arbitrary: i)
  case Nil
  then show ?case by simp
next
  case (Cons p ps)
  obtain v b where p: "p = (v, b)" by force
  have head: "accrueShare e r pool tot (int i) b = e + (if int i < r then 1 else 0) + pool * b div tot"
    using assms by (simp add: accrueShare_def)
  have ind: "(if int i < r then 1 else 0) + max 0 (min (r - int (Suc i)) (int (length ps)))
      = max 0 (min (r - int i) (int (length (p # ps))))" by (simp add: min_def max_def)
  have "sum_list (map (\<lambda>(k, v, b). accrueShare e r pool tot (int k) b) (enumerate i (p # ps)))
      = accrueShare e r pool tot (int i) b
        + sum_list (map (\<lambda>(k, v, b). accrueShare e r pool tot (int k) b) (enumerate (Suc i) ps))"
    by (simp add: p)
  also have "\<dots> = e * int (length (p # ps)) + ((if int i < r then 1 else 0)
        + max 0 (min (r - int (Suc i)) (int (length ps))))
        + sum_list (map (\<lambda>(v, b). pool * b div tot) (p # ps))"
    unfolding head Cons.IH by (simp add: p distrib_left)
  finally show ?case unfolding ind .
qed

lemma floor_sum:
  fixes P t :: int
  assumes "0 < t" "0 \<le> P"
  shows "t * sum_list (map (\<lambda>b. P * b div t) bs) \<le> P * sum_list bs \<and>
    P * sum_list bs \<le> t * sum_list (map (\<lambda>b. P * b div t) bs) + int (length bs) * (t - 1)"
proof (induction bs)
  case Nil
  then show ?case by simp
next
  case (Cons b bs)
  define q S B where "q = P * b div t" and "S = sum_list (map (\<lambda>b. P * b div t) bs)" and "B = P * sum_list bs"
  have "P * b = t * q + P * b mod t" by (simp add: q_def)
  moreover have "0 \<le> P * b mod t" "P * b mod t \<le> t - 1"
    using assms(1) by (simp_all add: pos_mod_bound zle_diff1_eq)
  moreover have "t * S \<le> B" "B \<le> t * S + int (length bs) * (t - 1)"
    using Cons by (simp_all add: S_def B_def)
  ultimately have "t * q + t * S \<le> P * b + B" "P * b + B \<le> t * q + t * S + (t - 1) + int (length bs) * (t - 1)"
    by linarith+
  then show ?case by (simp add: q_def S_def B_def distrib_left distrib_right)
qed

lemma floor_sum_bounds:
  fixes P t :: int
  assumes "0 < t" "0 \<le> P" "sum_list bs = t"
  shows "sum_list (map (\<lambda>b. P * b div t) bs) \<le> P \<and>
    P \<le> sum_list (map (\<lambda>b. P * b div t) bs) + int (length bs)"
proof -
  let ?S = "sum_list (map (\<lambda>b. P * b div t) bs)"
  have "t * ?S \<le> t * P" "t * P \<le> t * ?S + int (length bs) * (t - 1)"
    using floor_sum[OF assms(1,2), of bs] assms(3) by (simp_all add: mult.commute)
  moreover have "int (length bs) * (t - 1) \<le> t * int (length bs)" by (simp add: algebra_simps)
  ultimately have "t * ?S \<le> t * P" "t * P \<le> t * (?S + int (length bs))"
    by (simp_all add: algebra_simps)
  then show ?thesis using assms(1) by simp
qed

lemma Accrue_supply:
  assumes "ledger_ok l" "0 < fees" "vs \<noteq> []" "length bs = length vs" "\<forall>b\<in>set bs. 0 \<le> b"
    and "0 < sum_list bs" "Accrue C l (Some fees) vs (map Some bs) = Inr l'"
  shows "ledger_ok l' \<and> supplyOf l' \<le> supplyOf l + fees \<and>
    supplyOf l + fees \<le> supplyOf l' + int (length vs)"
proof -
  define n where "n = int (length vs)"
  define vp where "vp = fees * 70 div 100"
  define e where "e = vp div n"
  define r where "r = vp - e * n"
  define pool where "pool = fees - vp"
  have n: "0 < n" using assms(3) by (simp add: n_def)
  have vp: "0 \<le> vp" "vp \<le> fees" unfolding vp_def using assms(2) by linarith+
  have e: "0 \<le> e" using vp n by (simp add: e_def pos_imp_zdiv_nonneg_iff)
  have r: "0 \<le> r" "r < n" using n by (simp_all add: r_def e_def minus_div_mult_eq_mod)
  have p: "0 \<le> pool" using vp by (simp add: pool_def)
  let ?ps = "zip vs bs" and ?tot = "sum_list bs"
  let ?cs = "map (\<lambda>(k, v, b). (FeeAccount C v, accrueShare e r pool ?tot (int k) b)) (enumerate 0 ?ps)"
  have nonneg: "\<forall>(v, b)\<in>set ?ps. 0 \<le> b" using assms(5) by (auto dest: set_zip_rightD)
  have "accrueLoop C e r pool ?tot 0 ?ps l = Inr l'"
    using assms(2-4,7) unfolding Accrue_def
    by (auto simp: Let_def res_simps n_def vp_def e_def r_def pool_def)
  then have loop: "rfold (\<lambda>(a, x) l. CreditTx l a x) ?cs l = Inr l'"
    using accrueLoop_credits[OF e p nonneg, of C r ?tot 0 l] by simp
  have pos: "\<forall>(a, x)\<in>set ?cs. 0 \<le> x"
  proof -
    have "0 \<le> accrueShare e r pool ?tot i b" if "(v, b) \<in> set ?ps" for i v b
      using that nonneg e p assms(6) by (auto simp: accrueShare_def pos_imp_zdiv_nonneg_iff)
    then show ?thesis by (auto simp: in_set_enumerate_eq) (metis nth_mem length_zip min_less_iff_conj nth_zip)
  qed
  have "sum_list (map snd ?cs) = e * n + r + sum_list (map (\<lambda>b. pool * b div ?tot) bs)"
  proof -
    have "sum_list (map snd ?cs) = sum_list (map (\<lambda>(k, v, b). accrueShare e r pool ?tot (int k) b) (enumerate 0 ?ps))"
      by (simp add: o_def case_prod_beta')
    also have "\<dots> = e * n + r + sum_list (map (\<lambda>(v, b). pool * b div ?tot) ?ps)"
      using r assms(4) by (simp add: accrueShares_sum[OF assms(6)] n_def)
    also have "map (\<lambda>(v, b). pool * b div ?tot) ?ps = map (\<lambda>b. pool * b div ?tot) (map snd ?ps)"
      by (simp add: case_prod_beta')
    also have "map snd ?ps = bs" using assms(4) by simp
    finally show ?thesis .
  qed
  then show ?thesis
    using tokens.credit_loop[OF loop assms(1) pos] floor_sum_bounds[OF assms(6) p refl] assms(4)
    by (auto simp: r_def pool_def n_def)
qed


section \<open>Properties of the economics\<close>



text \<open>C28. The block reward: it is never negative, a year of rewards at one supply is at most a tenth
  of that supply, and its split over the validators adds up to the reward exactly.\<close>

theorem mint_reward_split:
  fixes total staked :: int
  assumes "0 \<le> staked" "0 < n"
  defines "reward \<equiv> MintPerBlock (Some total) (Some staked)"
  shows "0 \<le> reward \<and> 5256000 * reward \<le> max 0 (total * 10 div 100) \<and>
    length (SplitReward (Some reward) n) = n \<and> sum_list (SplitReward (Some reward) n) = reward \<and>
    (\<forall>x\<in>set (SplitReward (Some reward) n). 0 \<le> x)"
  using MintPerBlock_bounds[OF assms(1), of total] SplitReward_sum[OF assms(2), of reward]
  unfolding reward_def by blast

theorem mint_reward_split_witness:
  "MintPerBlock (Some (10 ^ 12)) (Some 0) = 19025 \<and>
   sum_list (SplitReward (Some (MintPerBlock (Some (10 ^ 12)) (Some 0))) 3) = 19025"
proof -
  have "MintPerBlock (Some (10 ^ 12)) (Some 0) = 19025" by code_simp
  with mint_reward_split[of 0 3 "10 ^ 12"] show ?thesis by simp
qed

text \<open>C29. Proposer rotation: the order in which the validator set is listed does not matter, and every
  validator proposes at exactly one of the first \<open>n\<close> skip counts.\<close>

theorem leader_rotation_covers:
  assumes "vs \<noteq> []" "distinct vs" "length vs \<le> 2 ^ 32" "v \<in> set vs" "mset vs' = mset vs"
  shows "(\<exists>!k. k < length vs \<and> SkipProposer C root h vs (of_nat k) = Inr v) \<and>
    SkipProposer C root h vs' skip = SkipProposer C root h vs skip"
  using SkipProposer_bij[OF assms(1-4)] SkipProposer_perm[OF assms(5)] by blast

theorem leader_rotation_covers_witness:
  "\<exists>k<3. SkipProposer sample_crypto 5 7 [11, 22, 33] (of_nat k) = Inr 33"
proof -
  let ?vs = "[11, 22, 33] :: bytes32 list"
  have "distinct ?vs" "length ?vs \<le> 2 ^ 32" by simp_all
  then have "\<exists>!k. k < length ?vs \<and> SkipProposer sample_crypto 5 7 ?vs (of_nat k) = Inr 33"
    using leader_rotation_covers[of ?vs 33 ?vs sample_crypto 5 7] by simp
  then obtain k where "k < length ?vs" "SkipProposer sample_crypto 5 7 ?vs (of_nat k) = Inr 33" by blast
  moreover have "length ?vs = 3" by simp
  ultimately show ?thesis by metis
qed

text \<open>Distribution of fees: crediting a fee total to validators with positive bonds raises the
  supply by no more than the total, and the part lost to rounding is at most one quantum for each
  validator.\<close>

theorem gas_accrue_conserves:
  assumes "ledger_ok l" "0 < fees" "vs \<noteq> []" "length bs = length vs" "\<forall>b\<in>set bs. 0 \<le> b"
    and "0 < sum_list bs" "Accrue C l (Some fees) vs (map Some bs) = Inr l'"
  shows "ledger_ok l' \<and> supplyOf l' \<le> supplyOf l + fees \<and>
    supplyOf l + fees \<le> supplyOf l' + int (length vs)"
  using assms by (rule Accrue_supply)

theorem gas_accrue_conserves_witness:
  "\<exists>l'. Accrue sample_crypto sampleLedger (Some 100) [3] [Some 8] = Inr l' \<and>
     supplyOf l' \<le> supplyOf sampleLedger + 100 \<and> supplyOf sampleLedger + 99 \<le> supplyOf l'"
proof -
  have b: "BalanceOfTx sampleLedger (FeeAccount sample_crypto 3) = 0" by code_simp
  have "Accrue sample_crypto sampleLedger (Some 100) [3] (map Some [8]) =
      CreditTx sampleLedger (FeeAccount sample_crypto 3) 100"
    using accrueLoop_credits[of 70 30 "[(3, 8)]" sample_crypto 0 8 0 sampleLedger]
    by (simp add: Accrue_def accrueShare_def Let_def rbind_def split: sum.splits)
  moreover obtain l' where "CreditTx sampleLedger (FeeAccount sample_crypto 3) 100 = Inr l'"
    using CreditTx_eq[of 100 sampleLedger "FeeAccount sample_crypto 3"] b by (auto simp: UINT256_MAX_def)
  ultimately have acc: "Accrue sample_crypto sampleLedger (Some 100) [3] (map Some [8]) = Inr l'" by simp
  from gas_accrue_conserves[OF sampleLedger_ok(1) _ _ _ _ _ this] acc show ?thesis by auto
qed

end
