(* ===== verification/FRG_Contract.thy ===== *)
theory FRG_Contract
  imports FRG_Ledger
begin

text \<open>
  Package \<^verbatim>\<open>core/contract\<close>: the key/value state of a contract and its encoding, the host functions a
  contract calls, the runtime that meters them, and deployment and calls. Two parts of it are not in
  the repository and are parameters: the Wasm engine (record \<open>wasmtime\<close>) and the BN254 curve
  arithmetic (record \<open>bn254\<close>). A module's execution is an interaction tree \<open>wasm\<close>: it ends, traps, or
  calls a host function with its current memory and remaining fuel and continues from the answer.
  Execution is fuelled, so every run is finite and the tree is well founded.
\<close>

unbundle bit_operations_syntax

type_synonym i32 = "32 word"
type_synonym i64 = "64 word"

section \<open>state.go\<close>

abbreviation (input) maxStateKeyLen :: nat where "maxStateKeyLen \<equiv> 32"
abbreviation (input) maxStateValLen :: nat where "maxStateValLen \<equiv> 65536"

text \<open>The Go map, with its keys kept in the order of \<^verbatim>\<open>sort.Strings\<close>.\<close>

type_synonym StateStore = "(bytes, bytes) bucket"

definition NewStateStore :: StateStore where
  "NewStateStore = []"

definition StateGet :: "StateStore \<Rightarrow> bytes \<Rightarrow> bytes option" where
  "StateGet s key = bget s key"

definition StateSet :: "StateStore \<Rightarrow> bytes \<Rightarrow> bytes \<Rightarrow> StateStore res" where
  "StateSet s key val =
     rguard (length key = 0 \<or> length key > maxStateKeyLen) (GoError ''contract state key length exceeds bounds'')
     (rguard (length val > maxStateValLen) (GoError ''contract state value length exceeds max'')
      (if length val = 0 then Inr (bdel s key) else Inr (bput s key val)))"

definition StateDelete :: "StateStore \<Rightarrow> bytes \<Rightarrow> StateStore" where
  "StateDelete s key = bdel s key"

definition StateClone :: "StateStore \<Rightarrow> StateStore" where
  "StateClone s = s"

definition StateLen :: "StateStore \<Rightarrow> nat" where
  "StateLen s = length s"

definition StateRoot :: "crypto \<Rightarrow> StateStore \<Rightarrow> bytes32" where
  "StateRoot C s = Hash C (DomainContractState @ concat (map (\<lambda>(k, v). k @ v) s))"

definition serializeEntry :: "bytes \<times> bytes \<Rightarrow> bytes" where
  "serializeEntry kv = (case kv of (k, v) \<Rightarrow>
     [of_nat (length k)] @ k @ PutUint16 (of_nat (length v)) @ v)"

text \<open>\<open>None\<close> is the nil slice returned for an entry out of bounds.\<close>

definition SerializeState :: "StateStore \<Rightarrow> bytes option" where
  "SerializeState s =
     (if \<exists>kv\<in>set s. length (fst kv) = 0 \<or> length (fst kv) > maxStateKeyLen \<or> length (snd kv) > maxStateValLen
      then None
      else Some (PutUint16 (of_nat (length s)) @ concat (map serializeEntry s)))"

fun readEntries :: "nat \<Rightarrow> bytes \<Rightarrow> StateStore \<Rightarrow> StateStore" where
  "readEntries 0 raw s = s"
| "readEntries (Suc n) raw s =
     (case raw of [] \<Rightarrow> s
      | b # r1 \<Rightarrow>
         let keyLen = unat b in
         if keyLen = 0 \<or> keyLen > maxStateKeyLen then s
         else if keyLen > length r1 then s
         else let key = take keyLen r1; r2 = drop keyLen r1 in
           if length r2 < 2 then s
           else let valLen = unat (Uint16 r2); r3 = drop 2 r2 in
             if valLen > length r3 then s
             else readEntries n (drop valLen r3) (bput s key (take valLen r3)))"

definition DeserializeState :: "bytes \<Rightarrow> StateStore" where
  "DeserializeState raw =
     (if length raw < 2 then NewStateStore
      else readEntries (unat (Uint16 raw)) (drop 2 raw) NewStateStore)"


section \<open>gas.go and bn254.go\<close>

definition DeployGas :: "u32 \<Rightarrow> int \<Rightarrow> int" where
  "DeployGas wasmLen baseFee = baseFee * 100 + baseFee * (uint wasmLen * 1)"

definition CallGas :: "nat \<Rightarrow> int \<Rightarrow> int" where
  "CallGas dataLen baseFee = baseFee * 10"

definition WasmFuelToGas :: "u64 \<Rightarrow> int \<Rightarrow> int" where
  "WasmFuelToGas fuelConsumed baseFee = uint fuelConsumed * baseFee"

abbreviation (input) Bn254PairingInputBytes :: nat where "Bn254PairingInputBytes \<equiv> 192"
abbreviation (input) Bn254PairingBaseFuel :: u64 where "Bn254PairingBaseFuel \<equiv> 100000"
abbreviation (input) Bn254PairingPerPairFuel :: u64 where "Bn254PairingPerPairFuel \<equiv> 12000000"

definition Bn254PairingFuel :: "int \<Rightarrow> u64 res" where
  "Bn254PairingFuel inputLen =
     rguard (inputLen < 0 \<or> inputLen mod 192 \<noteq> 0) (GoError ''bn254 pairing input length'')
     (let pairs = (word_of_int (inputLen div 192) :: u64) in
      rguard (pairs > (- 1 - Bn254PairingBaseFuel) div Bn254PairingPerPairFuel) (GoError ''bn254 pairing input too large'')
      (Inr (Bn254PairingBaseFuel + pairs * Bn254PairingPerPairFuel)))"

text \<open>The curve package: canonical field elements, curve and subgroup membership of a point given by its
  coordinate bytes, and the pairing product.\<close>

record bn254 =
  canonicalFp :: "bytes \<Rightarrow> bool"
  validG1 :: "bytes \<Rightarrow> bool"
  validG2 :: "bytes \<Rightarrow> bool"
  PairingCheck :: "bytes list \<Rightarrow> bytes list \<Rightarrow> bool res"

definition zeroBytes :: "bytes \<Rightarrow> bool" where
  "zeroBytes bs \<longleftrightarrow> (\<forall>b\<in>set bs. b = 0)"

definition checkPair :: "bn254 \<Rightarrow> bytes \<Rightarrow> unit \<Rightarrow> unit res" where
  "checkPair B chunk _ =
     rguard (\<not> canonicalFp B (go_slice 0 32 chunk)) (GoError ''invalid bn254 G1 point'')
     (rguard (\<not> canonicalFp B (go_slice 32 64 chunk)) (GoError ''invalid bn254 G1 point'')
     (rguard (\<not> zeroBytes (go_slice 0 64 chunk) \<and> \<not> validG1 B (go_slice 0 64 chunk)) (GoError ''invalid bn254 G1 point'')
     (rguard (\<not> canonicalFp B (go_slice 64 96 chunk)) (GoError ''invalid bn254 G2 point'')
     (rguard (\<not> canonicalFp B (go_slice 96 128 chunk)) (GoError ''invalid bn254 G2 point'')
     (rguard (\<not> canonicalFp B (go_slice 128 160 chunk)) (GoError ''invalid bn254 G2 point'')
     (rguard (\<not> canonicalFp B (go_slice 160 192 chunk)) (GoError ''invalid bn254 G2 point'')
     (rguard (\<not> zeroBytes (go_slice 64 192 chunk) \<and> \<not> validG2 B (go_slice 64 192 chunk)) (GoError ''invalid bn254 G2 point'')
      (Inr ()))))))))"

definition Bn254PairingCheck :: "bn254 \<Rightarrow> bytes \<Rightarrow> bool res" where
  "Bn254PairingCheck B input =
     rguard (length input mod Bn254PairingInputBytes \<noteq> 0) (GoError ''bn254 pairing input length'')
     (if input = [] then Inr True
      else let pairs = length input div Bn254PairingInputBytes;
               chunk = (\<lambda>i. go_slice (i * Bn254PairingInputBytes) ((i + 1) * Bn254PairingInputBytes) input);
               cs = map chunk [0..<pairs] in
        rbind (rfold (checkPair B) cs ()) (\<lambda>_.
        PairingCheck B (map (go_slice 0 64) cs) (map (go_slice 64 192) cs)))"


section \<open>runtime.go: memory, fuel and host functions\<close>

abbreviation (input) FuelUnitsPerGas :: u64 where "FuelUnitsPerGas \<equiv> 1000"
abbreviation (input) maxFuel :: u64 where "maxFuel \<equiv> 100000000000"
abbreviation (input) HostMemoryByteFuel :: u64 where "HostMemoryByteFuel \<equiv> 10"
abbreviation (input) HostContextReadFuel :: u64 where "HostContextReadFuel \<equiv> 1000"
abbreviation (input) HostStorageReadFuel :: u64 where "HostStorageReadFuel \<equiv> 1000"
abbreviation (input) HostStorageWriteFuel :: u64 where "HostStorageWriteFuel \<equiv> 50000"
abbreviation (input) HostBalanceReadFuel :: u64 where "HostBalanceReadFuel \<equiv> 2000"
abbreviation (input) HostLogFuel :: u64 where "HostLogFuel \<equiv> 1000"
abbreviation (input) HostTransferFuel :: u64 where "HostTransferFuel \<equiv> 50000"

text \<open>The imports of module \<^verbatim>\<open>frg\<close>, with their arguments, and their result values.\<close>

datatype hostcall =
    state_get i32 i32 i32 i32
  | state_set i32 i32 i32 i32
  | self_balance i32
  | balance_of i32 i32 i32
  | block_height
  | host_caller i32
  | self_address i32
  | calldata_len
  | calldata_copy i32 i32 i32
  | host_log i32 i32
  | host_transfer i32 i32 i64 i64
  | bn254_pairing_check i32 i32

datatype hostret = RetVoid | RetI32 i32 | RetI64 i64

text \<open>An execution of a module: it ends with its remaining fuel and its exported functions, traps with its
  remaining fuel (out of fuel or otherwise), or calls the host with its memory (\<open>None\<close> without an
  exported memory) and fuel and continues with the result, the new memory and the new fuel.\<close>

datatype wasm =
    WDone u64 "bytes \<Rightarrow> wasm option"
  | WTrap u64 bool
  | WHost hostcall "bytes option" u64 "hostret \<Rightarrow> bytes option \<Rightarrow> u64 \<Rightarrow> wasm"

text \<open>The engine: the imports of a module (\<open>None\<close> when it does not compile) and its instantiation with an
  amount of fuel.\<close>

record wasmtime =
  moduleImports :: "bytes \<Rightarrow> (bytes \<times> bytes option) list option"
  Instantiate :: "bytes \<Rightarrow> u64 \<Rightarrow> wasm"

record RuntimeConfig =
  CfgWasmBytes :: bytes
  CfgCaller :: bytes32
  CfgSelfAddr :: bytes32
  CfgValue :: "int option"
  CfgBlockHeight :: u64
  CfgCallData :: bytes
  CfgGasLimit :: u64

text \<open>What a run changes: the fuel of the store, the first host error, the contract's state and the ledger.\<close>

record HostState =
  storeFuel :: u64
  hostErr :: "goerr option"
  hsState :: StateStore
  hsLedger :: LedgerDB

fun hostFuel :: "u64 \<Rightarrow> i32 list \<Rightarrow> u64" where
  "hostFuel tot [] = tot"
| "hostFuel tot (l # ls) =
     (if sint l \<le> 0 then hostFuel tot ls
      else if (ucast l :: u64) > (- 1 - tot) div HostMemoryByteFuel then - 1
      else hostFuel (tot + ucast l * HostMemoryByteFuel) ls)"

definition chargeFuelFor :: "u64 \<Rightarrow> HostState \<Rightarrow> HostState \<times> goerr option" where
  "chargeFuelFor fuel st =
     (if storeFuel st < fuel then (st\<lparr>storeFuel := 0\<rparr>, Some (RGError ErrContractOutOfGas))
      else (st\<lparr>storeFuel := storeFuel st - fuel\<rparr>, None))"

definition chargeFuel :: "u64 \<Rightarrow> HostState \<Rightarrow> HostState \<times> goerr option" where
  "chargeFuel fuel st = chargeFuelFor fuel st"

text \<open>The slice bound \<open>ptr + length\<close> is computed in 32 bits.\<close>

definition readMem :: "bytes option \<Rightarrow> i32 \<Rightarrow> i32 \<Rightarrow> bytes option res" where
  "readMem mem ptr len =
     (case mem of None \<Rightarrow> Inr None
      | Some data \<Rightarrow>
          if sint ptr < 0 \<or> sint len < 0 then Inr None
          else if sint ptr + sint len > int (length data) then Inr None
          else rguard (sint (ptr + len) < sint ptr) Panic
            (Inr (Some (go_slice (nat (sint ptr)) (nat (sint (ptr + len))) data))))"

definition writeMem :: "bytes option \<Rightarrow> i32 \<Rightarrow> i32 \<Rightarrow> bytes \<Rightarrow> (bytes option \<times> i32) res" where
  "writeMem mem ptr maxLen data =
     (case mem of None \<Rightarrow> Inr (mem, 0)
      | Some raw \<Rightarrow>
          if sint ptr < 0 then Inr (mem, 0)
          else let writeLen = (if int (length data) > sint maxLen then sint maxLen else int (length data)) in
            if sint ptr + writeLen > int (length raw) then Inr (mem, 0)
            else rguard (sint ptr > int (length raw) \<or> writeLen < 0) Panic
              (Inr (Some (go_copy (nat (sint ptr)) (take (nat writeLen) data) raw), word_of_int writeLen)))"

definition padBigToLE :: "int \<Rightarrow> nat \<Rightarrow> bytes" where
  "padBigToLE n width =
     (let raw = nat_bytes n in
      rev (if length raw > width then drop (length raw - width) raw
           else replicate (width - length raw) 0 @ raw))"

text \<open>A host function: the new state, and the new memory and result, or a panic.\<close>

type_synonym hostres = "HostState \<times> (bytes option \<times> hostret) res"

text \<open>Charge and continue, or note the error and return.\<close>

definition charged :: "u64 \<Rightarrow> bytes option \<Rightarrow> hostret \<Rightarrow> HostState \<Rightarrow> (HostState \<Rightarrow> hostres) \<Rightarrow> hostres" where
  "charged fuel mem bad st k =
     (case chargeFuelFor fuel st of
        (st, Some e) \<Rightarrow> (st\<lparr>hostErr := Some e\<rparr>, Inr (mem, bad))
      | (st, None) \<Rightarrow> k st)"

definition writeBack :: "HostState \<Rightarrow> (bytes option \<times> i32) res \<Rightarrow> (i32 \<Rightarrow> hostret) \<Rightarrow> hostres" where
  "writeBack st w f = (st, rbind w (\<lambda>(mem, n). Inr (mem, f n)))"

text \<open>Read bytes from memory and continue; out of bounds returns the given value.\<close>

definition withMem :: "bytes option \<Rightarrow> i32 \<Rightarrow> i32 \<Rightarrow> hostret \<Rightarrow> HostState \<Rightarrow> (bytes \<Rightarrow> hostres) \<Rightarrow> hostres" where
  "withMem mem ptr len bad st k =
     (case readMem mem ptr len of
        Inl e \<Rightarrow> (st, Inl e)
      | Inr None \<Rightarrow> (st, Inr (mem, bad))
      | Inr (Some bs) \<Rightarrow> k bs)"

definition host_state_get :: "i32 \<Rightarrow> i32 \<Rightarrow> i32 \<Rightarrow> i32 \<Rightarrow> bytes option \<Rightarrow> HostState \<Rightarrow> hostres" where
  "host_state_get keyPtr keyLen outPtr outLen mem st =
     (if sint keyLen < 0 \<or> sint outLen < 0 then (st, Inr (mem, RetI32 (- 1)))
      else charged (hostFuel HostStorageReadFuel [keyLen]) mem (RetI32 (- 1)) st (\<lambda>st.
        withMem mem keyPtr keyLen (RetI32 (- 1)) st (\<lambda>key.
          case StateGet (hsState st) key of
            None \<Rightarrow> (st, Inr (mem, RetI32 0))
          | Some val \<Rightarrow>
              let writeLen = min (int (length val)) (sint outLen) in
              charged (hostFuel 0 [word_of_int writeLen]) mem (RetI32 (- 1)) st (\<lambda>st.
                writeBack st (writeMem mem outPtr outLen val) RetI32))))"

definition host_state_set :: "i32 \<Rightarrow> i32 \<Rightarrow> i32 \<Rightarrow> i32 \<Rightarrow> bytes option \<Rightarrow> HostState \<Rightarrow> hostres" where
  "host_state_set keyPtr keyLen valPtr valLen mem st =
     (if sint keyLen < 0 \<or> sint valLen < 0 then (st, Inr (mem, RetI32 1))
      else charged (hostFuel HostStorageWriteFuel [keyLen, valLen]) mem (RetI32 1) st (\<lambda>st.
        withMem mem keyPtr keyLen (RetI32 1) st (\<lambda>key.
        withMem mem valPtr valLen (RetI32 1) st (\<lambda>val.
          case StateSet (hsState st) key val of
            Inl e \<Rightarrow> (st\<lparr>hostErr := Some e\<rparr>, Inr (mem, RetI32 1))
          | Inr s \<Rightarrow> (st\<lparr>hsState := s\<rparr>, Inr (mem, RetI32 0))))))"

definition host_self_balance :: "RuntimeConfig \<Rightarrow> i32 \<Rightarrow> bytes option \<Rightarrow> HostState \<Rightarrow> hostres" where
  "host_self_balance cfg outPtr mem st =
     charged HostBalanceReadFuel mem RetVoid st (\<lambda>st.
       let bal = BalanceOfTx (hsLedger st) (CfgSelfAddr cfg) in
       writeBack st (writeMem mem outPtr 16 (padBigToLE bal 16)) (\<lambda>_. RetVoid))"

definition host_balance_of :: "i32 \<Rightarrow> i32 \<Rightarrow> i32 \<Rightarrow> bytes option \<Rightarrow> HostState \<Rightarrow> hostres" where
  "host_balance_of addrPtr addrLen outPtr mem st =
     (if sint addrLen < 0 then (st, Inr (mem, RetVoid))
      else charged (hostFuel HostBalanceReadFuel [addrLen]) mem RetVoid st (\<lambda>st.
        withMem mem addrPtr addrLen RetVoid st (\<lambda>addr.
          if length addr \<noteq> 32 then (st, Inr (mem, RetVoid))
          else let bal = BalanceOfTx (hsLedger st) (to32 addr) in
            writeBack st (writeMem mem outPtr 16 (padBigToLE bal 16)) (\<lambda>_. RetVoid))))"

definition host_block_height :: "RuntimeConfig \<Rightarrow> bytes option \<Rightarrow> HostState \<Rightarrow> hostres" where
  "host_block_height cfg mem st =
     charged HostContextReadFuel mem (RetI64 0) st (\<lambda>st. (st, Inr (mem, RetI64 (CfgBlockHeight cfg))))"

definition host_address :: "bytes32 \<Rightarrow> i32 \<Rightarrow> bytes option \<Rightarrow> HostState \<Rightarrow> hostres" where
  "host_address addr outPtr mem st =
     charged HostContextReadFuel mem RetVoid st (\<lambda>st.
       writeBack st (writeMem mem outPtr 32 (arr32 addr)) (\<lambda>_. RetVoid))"

definition host_calldata_len :: "RuntimeConfig \<Rightarrow> bytes option \<Rightarrow> HostState \<Rightarrow> hostres" where
  "host_calldata_len cfg mem st =
     charged HostContextReadFuel mem (RetI32 0) st (\<lambda>st.
       (st, Inr (mem, RetI32 (of_nat (length (CfgCallData cfg))))))"

definition host_calldata_copy ::
  "RuntimeConfig \<Rightarrow> i32 \<Rightarrow> i32 \<Rightarrow> i32 \<Rightarrow> bytes option \<Rightarrow> HostState \<Rightarrow> hostres" where
  "host_calldata_copy cfg dstPtr offset maxLen mem st =
     (let callData = CfgCallData cfg in
      if sint offset < 0 \<or> sint maxLen < 0 \<or> sint offset > int (length callData) then (st, Inr (mem, RetI32 (- 1)))
      else let end = min (sint offset + sint maxLen) (int (length callData));
               copyLen = (word_of_int (end - sint offset) :: i32) in
        charged (hostFuel HostContextReadFuel [copyLen]) mem (RetI32 (- 1)) st (\<lambda>st.
          case mem of None \<Rightarrow> (st, Inr (mem, RetI32 (- 1)))
          | Some raw \<Rightarrow>
              if sint dstPtr < 0 \<or> sint dstPtr + sint copyLen > int (length raw) then (st, Inr (mem, RetI32 (- 1)))
              else if copyLen = 0 then (st, Inr (mem, RetI32 0))
              else writeBack st (writeMem mem dstPtr copyLen (go_slice (nat (sint offset)) (nat end) callData))
                     (\<lambda>_. RetI32 copyLen)))"

definition host_log_call :: "i32 \<Rightarrow> i32 \<Rightarrow> bytes option \<Rightarrow> HostState \<Rightarrow> hostres" where
  "host_log_call ptr len mem st =
     (if sint len < 0 then (st, Inr (mem, RetVoid))
      else charged (hostFuel HostLogFuel [len]) mem RetVoid st (\<lambda>st.
        withMem mem ptr len RetVoid st (\<lambda>_. (st, Inr (mem, RetVoid)))))"

text \<open>The amount of a transfer is built from two signed words.\<close>

definition transferAmount :: "i64 \<Rightarrow> i64 \<Rightarrow> int" where
  "transferAmount amtLo amtHi = push_bit 64 (sint amtHi) OR sint amtLo"

definition host_transfer_call ::
  "RuntimeConfig \<Rightarrow> i32 \<Rightarrow> i32 \<Rightarrow> i64 \<Rightarrow> i64 \<Rightarrow> bytes option \<Rightarrow> HostState \<Rightarrow> hostres" where
  "host_transfer_call cfg recvPtr recvLen amtLo amtHi mem st =
     (if sint recvLen < 0 then (st, Inr (mem, RetI64 1))
      else charged (hostFuel HostTransferFuel [recvLen]) mem (RetI64 1) st (\<lambda>st.
        withMem mem recvPtr recvLen (RetI64 1) st (\<lambda>addr.
          if length addr \<noteq> 32 then (st, Inr (mem, RetI64 1))
          else let amount = transferAmount amtLo amtHi in
            if amount \<le> 0 then (st, Inr (mem, RetI64 1))
            else case MoveTx (hsLedger st) (CfgSelfAddr cfg) (to32 addr) (Some amount) of
                (l, Inl _) \<Rightarrow> (st\<lparr>hsLedger := l\<rparr>, Inr (mem, RetI64 1))
              | (l, Inr _) \<Rightarrow> (st\<lparr>hsLedger := l\<rparr>, Inr (mem, RetI64 0)))))"

definition host_pairing_check :: "bn254 \<Rightarrow> i32 \<Rightarrow> i32 \<Rightarrow> bytes option \<Rightarrow> HostState \<Rightarrow> hostres" where
  "host_pairing_check B inputPtr inputLen mem st =
     withMem mem inputPtr inputLen (RetI32 (- 1)) st (\<lambda>input.
       case Bn254PairingFuel (int (length input)) of
         Inl _ \<Rightarrow> (st, Inr (mem, RetI32 (- 1)))
       | Inr cost \<Rightarrow>
           charged cost mem (RetI32 (- 1)) st (\<lambda>st.
             case Bn254PairingCheck B input of
               Inl _ \<Rightarrow> (st, Inr (mem, RetI32 (- 1)))
             | Inr valid \<Rightarrow> (st, Inr (mem, RetI32 (if valid then 1 else 0)))))"

text \<open>The table that \<^verbatim>\<open>defineHostFunctions\<close> builds.\<close>

fun defineHostFunctions :: "bn254 \<Rightarrow> RuntimeConfig \<Rightarrow> hostcall \<Rightarrow> bytes option \<Rightarrow> HostState \<Rightarrow> hostres" where
  "defineHostFunctions B cfg (state_get kp kl op ol) = host_state_get kp kl op ol"
| "defineHostFunctions B cfg (state_set kp kl vp vl) = host_state_set kp kl vp vl"
| "defineHostFunctions B cfg (self_balance p) = host_self_balance cfg p"
| "defineHostFunctions B cfg (balance_of ap al op) = host_balance_of ap al op"
| "defineHostFunctions B cfg block_height = host_block_height cfg"
| "defineHostFunctions B cfg (host_caller p) = host_address (CfgCaller cfg) p"
| "defineHostFunctions B cfg (self_address p) = host_address (CfgSelfAddr cfg) p"
| "defineHostFunctions B cfg calldata_len = host_calldata_len cfg"
| "defineHostFunctions B cfg (calldata_copy d off m) = host_calldata_copy cfg d off m"
| "defineHostFunctions B cfg (host_log p l) = host_log_call p l"
| "defineHostFunctions B cfg (host_transfer p l lo hi) = host_transfer_call cfg p l lo hi"
| "defineHostFunctions B cfg (bn254_pairing_check p l) = host_pairing_check B p l"


section \<open>runtime.go: running a module\<close>

datatype wasmEnd =
    Finished "bytes \<Rightarrow> wasm option"
  | Trapped bool
  | Panicked

primrec runWasm :: "bn254 \<Rightarrow> RuntimeConfig \<Rightarrow> wasm \<Rightarrow> HostState \<Rightarrow> HostState \<times> wasmEnd" where
  "runWasm B cfg (WDone fuel exports) st = (st\<lparr>storeFuel := fuel\<rparr>, Finished exports)"
| "runWasm B cfg (WTrap fuel outOfFuel) st = (st\<lparr>storeFuel := fuel\<rparr>, Trapped outOfFuel)"
| "runWasm B cfg (WHost call mem fuel k) st =
     (case defineHostFunctions B cfg call mem (st\<lparr>storeFuel := fuel\<rparr>) of
        (st', Inl _) \<Rightarrow> (st', Panicked)
      | (st', Inr (mem', ret)) \<Rightarrow> runWasm B cfg (k ret mem' (storeFuel st')) st')"

record Runtime =
  exportsOf :: "bytes \<Rightarrow> wasm option"
  initialFuel :: u64

definition validateModule :: "(bytes \<times> bytes option) list \<Rightarrow> unit res" where
  "validateModule imports =
     rfold (\<lambda>(m, name) _.
       rguard (m \<noteq> str ''frg'' \<and> m \<noteq> str ''env'') (RGError ErrContractNonDeterministic)
       (rguard (m = str ''env'' \<and> name \<noteq> None \<and> name \<noteq> Some (str ''memory'')) (RGError ErrContractNonDeterministic)
        (Inr ()))) imports ()"

definition fuelCapOf :: "u64 \<Rightarrow> u64" where
  "fuelCapOf gasLimit =
     (let fuelCap = (if gasLimit \<noteq> 0 then
                       (if gasLimit > (- 1) div FuelUnitsPerGas then - 1 else gasLimit * FuelUnitsPerGas)
                     else maxFuel) in
      if fuelCap = 0 then maxFuel else fuelCap)"

text \<open>Instantiation may run a start function, which can already call the host; what it did stays when a
  later step fails.\<close>

definition NewRuntime ::
  "wasmtime \<Rightarrow> bn254 \<Rightarrow> RuntimeConfig \<Rightarrow> HostState \<Rightarrow> HostState \<times> Runtime res" where
  "NewRuntime W B cfg st =
     (let fuelCap = fuelCapOf (CfgGasLimit cfg); st = st\<lparr>storeFuel := fuelCap\<rparr> in
      case moduleImports W (CfgWasmBytes cfg) of
        None \<Rightarrow> (st, Inl (RGError ErrContractNonDeterministic))
      | Some imports \<Rightarrow>
          (case validateModule imports of Inl e \<Rightarrow> (st, Inl e)
           | Inr _ \<Rightarrow>
               (case runWasm B cfg (Instantiate W (CfgWasmBytes cfg) fuelCap) st of
                  (st, Trapped _) \<Rightarrow> (st, Inl (RGError ErrContractNonDeterministic))
                | (st, Panicked) \<Rightarrow> (st, Inl Panic)
                | (st, Finished exports) \<Rightarrow>
                    (st, Inr \<lparr>exportsOf = exports, initialFuel = storeFuel st\<rparr>))))"

definition RuntimeCall ::
  "bn254 \<Rightarrow> RuntimeConfig \<Rightarrow> Runtime \<Rightarrow> bytes \<Rightarrow> HostState \<Rightarrow> HostState \<times> unit res" where
  "RuntimeCall B cfg rt functionName st =
     (case exportsOf rt functionName of
        None \<Rightarrow> (st, Inl ErrFunctionNotFound)
      | Some run \<Rightarrow>
          (case runWasm B cfg run st of
             (st, Trapped outOfFuel) \<Rightarrow>
               (st, Inl (RGError (if outOfFuel then ErrContractOutOfGas else ErrContractTrap)))
           | (st, Panicked) \<Rightarrow> (st, Inl Panic)
           | (st, Finished _) \<Rightarrow>
               (case hostErr st of
                  None \<Rightarrow> (st, Inr ())
                | Some (RGError e) \<Rightarrow> (st, Inl (RGError e))
                | Some _ \<Rightarrow> (st, Inl (RGError ErrContractStateInvalid)))))"

definition FuelConsumed :: "Runtime \<Rightarrow> HostState \<Rightarrow> u64" where
  "FuelConsumed rt st = (if initialFuel rt > storeFuel st then initialFuel rt - storeFuel st else 0)"


section \<open>contract.go\<close>

text \<open>The two buckets of the package. They are keyed by a contract address.\<close>

record ContractDB =
  contract_bytecode :: "(bytes32, bytes) bucket"
  contract_state :: "(bytes32, bytes) bucket"

definition EnsureBuckets :: ContractDB where
  "EnsureBuckets = \<lparr>contract_bytecode = [], contract_state = []\<rparr>"

definition ContractAddr :: "crypto \<Rightarrow> bytes32 \<Rightarrow> u64 \<Rightarrow> bytes32" where
  "ContractAddr C deployerPubKey nonce =
     Hash C (DomainContractDeploy @ arr32 deployerPubKey @ PutUint64 nonce)"

definition storeBytecode :: "ContractDB \<Rightarrow> bytes32 \<Rightarrow> bytes \<Rightarrow> ContractDB" where
  "storeBytecode db addr wasm = db\<lparr>contract_bytecode := bput (contract_bytecode db) addr wasm\<rparr>"

definition loadBytecode :: "ContractDB \<Rightarrow> bytes32 \<Rightarrow> bytes res" where
  "loadBytecode db addr =
     (case bget (contract_bytecode db) addr of None \<Rightarrow> Inl (GoError ''no bytecode'') | Some data \<Rightarrow> Inr data)"

definition saveState :: "ContractDB \<Rightarrow> bytes32 \<Rightarrow> StateStore \<Rightarrow> ContractDB" where
  "saveState db addr s =
     (let data = (case SerializeState s of None \<Rightarrow> [] | Some data \<Rightarrow> data) in
      db\<lparr>contract_state := bput (contract_state db) addr data\<rparr>)"

definition loadState :: "ContractDB \<Rightarrow> bytes32 \<Rightarrow> StateStore" where
  "loadState db addr =
     (case bget (contract_state db) addr of None \<Rightarrow> NewStateStore | Some data \<Rightarrow> DeserializeState data)"

definition LoadStateRoot :: "crypto \<Rightarrow> ContractDB \<Rightarrow> bytes32 \<Rightarrow> bytes32" where
  "LoadStateRoot C db addr = StateRoot C (loadState db addr)"

definition IsContract :: "ContractDB \<Rightarrow> bytes32 \<Rightarrow> bool" where
  "IsContract db addr \<longleftrightarrow> bget (contract_bytecode db) addr \<noteq> None"

definition contractExists :: "ContractDB \<Rightarrow> bytes32 \<Rightarrow> bool" where
  "contractExists db addr \<longleftrightarrow> bget (contract_bytecode db) addr \<noteq> None"

definition LoadStateValue ::
  "crypto \<Rightarrow> ContractDB \<Rightarrow> bytes32 \<Rightarrow> bytes \<Rightarrow> bool \<times> bytes option \<times> bytes32" where
  "LoadStateValue C db addr key =
     (if \<not> IsContract db addr then (False, None, 0)
      else let s = loadState db addr; stateRoot = StateRoot C s in
        if length key = 0 then (True, None, stateRoot) else (True, StateGet s key, stateRoot))"

text \<open>The value sent along with a deployment or a call.\<close>

definition fundContract :: "LedgerDB \<Rightarrow> Tx \<Rightarrow> bytes32 \<Rightarrow> LedgerDB \<times> unit res" where
  "fundContract l t addr =
     (case Value t of None \<Rightarrow> (l, Inr ())
      | Some v \<Rightarrow> if v > 0 then MoveTx l (SenderPubKey t) addr (Value t) else (l, Inr ()))"

definition Deploy ::
  "crypto \<Rightarrow> wasmtime \<Rightarrow> bn254 \<Rightarrow> ContractDB \<Rightarrow> LedgerDB \<Rightarrow> Tx \<Rightarrow> u64 \<Rightarrow> u64 \<Rightarrow>
   ContractDB \<times> LedgerDB \<times> (bytes32 \<times> u64) res" where
  "Deploy C W B db l t blockHeight gasLimit =
     (let contractAddr = ContractAddr C (SenderPubKey t) (Nonce t) in
      if WasmBytes t = [] then (db, l, Inl (GoError ''contract deploy requires wasm bytes''))
      else if contractExists db contractAddr then (db, l, Inl (GoError ''contract already deployed''))
      else case fundContract l t contractAddr of
        (l, Inl e) \<Rightarrow> (db, l, Inl e)
      | (l, Inr _) \<Rightarrow>
          (let cfg = \<lparr>CfgWasmBytes = WasmBytes t, CfgCaller = SenderPubKey t, CfgSelfAddr = contractAddr,
                      CfgValue = Value t, CfgBlockHeight = blockHeight, CfgCallData = [], CfgGasLimit = gasLimit\<rparr>;
               st = \<lparr>storeFuel = 0, hostErr = None, hsState = loadState db contractAddr, hsLedger = l\<rparr> in
           case NewRuntime W B cfg st of
             (st, Inl e) \<Rightarrow> (db, hsLedger st, Inl e)
           | (st, Inr rt) \<Rightarrow>
               (case RuntimeCall B cfg rt (str ''init'') st of
                  (st, Inl e) \<Rightarrow> (db, hsLedger st, Inl e)
                | (st, Inr _) \<Rightarrow>
                    (saveState (storeBytecode db contractAddr (WasmBytes t)) contractAddr (hsState st),
                     hsLedger st, Inr (StateRoot C (hsState st), FuelConsumed rt st)))))"

definition callTarget :: "bytes \<Rightarrow> bytes \<times> bytes" where
  "callTarget callData =
     (if length callData \<ge> 4 then (take 4 callData, drop 4 callData) else (str ''call'', callData))"

definition Call ::
  "crypto \<Rightarrow> wasmtime \<Rightarrow> bn254 \<Rightarrow> ContractDB \<Rightarrow> LedgerDB \<Rightarrow> Tx \<Rightarrow> u64 \<Rightarrow> u64 \<Rightarrow>
   ContractDB \<times> LedgerDB \<times> (bytes32 \<times> u64) res" where
  "Call C W B db l t blockHeight gasLimit =
     (let contractAddr = ReceiverPubKey t in
      case loadBytecode db contractAddr of
        Inl _ \<Rightarrow> (db, l, Inl (GoError ''contract not found''))
      | Inr wasmBytes \<Rightarrow>
          (let (funcName, callData) = callTarget (CallData t);
               cfg = \<lparr>CfgWasmBytes = wasmBytes, CfgCaller = SenderPubKey t, CfgSelfAddr = contractAddr,
                      CfgValue = Value t, CfgBlockHeight = blockHeight, CfgCallData = callData,
                      CfgGasLimit = gasLimit\<rparr>;
               st = \<lparr>storeFuel = 0, hostErr = None, hsState = loadState db contractAddr, hsLedger = l\<rparr> in
           case NewRuntime W B cfg st of
             (st, Inl e) \<Rightarrow> (db, hsLedger st, Inl e)
           | (st, Inr rt) \<Rightarrow>
               if Option.is_none (exportsOf rt funcName) then (db, hsLedger st, Inl ErrFunctionNotFound)
               else case fundContract (hsLedger st) t contractAddr of
                 (l, Inl e) \<Rightarrow> (db, l, Inl e)
               | (l, Inr _) \<Rightarrow>
                   (case RuntimeCall B cfg rt funcName (st\<lparr>hsLedger := l\<rparr>) of
                      (st, Inl e) \<Rightarrow> (db, hsLedger st, Inl e)
                    | (st, Inr _) \<Rightarrow>
                        (saveState db contractAddr (hsState st), hsLedger st,
                         Inr (StateRoot C (hsState st), FuelConsumed rt st)))))"


section \<open>The state encoding\<close>

definition state_wf :: "StateStore \<Rightarrow> bool" where
  "state_wf s \<longleftrightarrow> bucket_ok s \<and> (\<forall>(k, v)\<in>set s. 1 \<le> length k \<and> length k \<le> 32 \<and> 1 \<le> length v \<and> length v \<le> 65536)"

lemma StateSet_wf:
  assumes "state_wf s" "StateSet s k v = Inr s'"
  shows "state_wf s'"
proof -
  have k: "1 \<le> length k" "length k \<le> 32" "length v \<le> 65536"
    using assms(2) by (auto simp: StateSet_def res_simps not_less Suc_le_eq)
  have entries: "\<forall>(k, v)\<in>set s. 1 \<le> length k \<and> length k \<le> 32 \<and> 1 \<le> length v \<and> length v \<le> 65536"
    and ok: "bucket_ok s" using assms(1) by (auto simp: state_wf_def)
  show ?thesis
  proof (cases "v = []")
    case True
    then have "s' = bdel s k" using assms(2) by (auto simp: StateSet_def res_simps)
    then show ?thesis using entries bucket_ok_bdel[OF ok] by (auto simp: state_wf_def bdel_def)
  next
    case False
    then have s': "s' = bput s k v" using assms(2) by (auto simp: StateSet_def res_simps)
    have ok': "bucket_ok s'" using bucket_ok_bput[OF ok] s' by simp
    have "1 \<le> length k' \<and> length k' \<le> 32 \<and> 1 \<le> length v' \<and> length v' \<le> 65536" if m: "(k', v') \<in> set s'" for k' v'
    proof (cases "k' = k")
      case True
      then have "v' = v" using m ok' s' bucket_ok_mem_iff[OF ok', of k' v'] by (simp add: bget_bput)
      with True k False show ?thesis by (simp add: Suc_le_eq)
    next
      case False
      then have "(k', v') \<in> set s" using m s' bucket_ok_mem_iff[OF ok'] bucket_ok_mem_iff[OF ok] by (simp add: bget_bput)
      with entries show ?thesis by auto
    qed
    with ok' show ?thesis by (auto simp: state_wf_def)
  qed
qed

lemma bput_greatest: "\<forall>k'\<in>fst ` set b. k' < k \<Longrightarrow> bput b k v = b @ [(k, v)]"
  by (induction b) auto

lemma Uint16_PutUint16 [simp]: "Uint16 (PutUint16 w @ r) = w"
  by (simp add: codec_simps)

lemma readEntries_step:
  assumes "1 \<le> length k" "length k \<le> 32" "length v < 65536"
  shows "readEntries (Suc n) (serializeEntry (k, v) @ r) s = readEntries n r (bput s k v)"
proof -
  have "unat (of_nat (length k) :: byte) = length k" using assms(2) by (simp add: unat_of_nat take_bit_eq_mod)
  then show ?thesis
    using assms by (auto simp: serializeEntry_def Let_def unat_of_nat_u16)
qed

lemma readEntries_concat:
  assumes "sorted_wrt (<) (map fst (acc @ es))"
    and "\<forall>(k, v)\<in>set es. 1 \<le> length k \<and> length k \<le> 32 \<and> length v < 65536"
  shows "readEntries (length es) (concat (map serializeEntry es)) acc = acc @ es"
  using assms
proof (induction es arbitrary: acc)
  case (Cons e es)
  obtain k v where e: "e = (k, v)" by (cases e)
  have "bput acc k v = acc @ [(k, v)]"
    using Cons.prems(1) e by (intro bput_greatest) (auto simp: sorted_wrt_append)
  then show ?case
    using Cons.IH[of "acc @ [e]"] Cons.prems e readEntries_step[of k v "length es" "concat (map serializeEntry es)" acc]
    by (auto simp: sorted_wrt_append)
qed simp

lemma SerializeState_Some:
  "state_wf s \<Longrightarrow> SerializeState s = Some (PutUint16 (of_nat (length s)) @ concat (map serializeEntry s))"
  by (auto simp: SerializeState_def state_wf_def not_less Suc_le_eq)

lemma state_roundtrip:
  assumes "state_wf s" "length s < 65536" "\<forall>(k, v)\<in>set s. length v < 65536"
  shows "DeserializeState (the (SerializeState s)) = s"
proof -
  have "sorted_wrt (<) (map fst ([] @ s))" "\<forall>(k, v)\<in>set s. 1 \<le> length k \<and> length k \<le> 32 \<and> length v < 65536"
    using assms by (auto simp: state_wf_def bucket_ok_def)
  from readEntries_concat[OF this] show ?thesis
    using assms(2) by (simp add: SerializeState_Some[OF assms(1)] DeserializeState_def NewStateStore_def unat_of_nat_u16)
qed

section \<open>Memory and fuel\<close>

lemma chargeFuelFor_le: "chargeFuelFor f st = (st', r) \<Longrightarrow> storeFuel st' \<le> storeFuel st"
  by (auto simp: chargeFuelFor_def not_less word_le_sub1 word_sub_le split: if_splits)

lemma sint_add_nonneg:
  fixes p l :: i32
  assumes "0 \<le> sint p" "0 \<le> sint l"
  shows "sint (p + l) < sint p \<longleftrightarrow> sint p + sint l \<ge> 2147483648"
    and "sint p + sint l < 2147483648 \<Longrightarrow> sint (p + l) = sint p + sint l"
proof -
  have b: "sint p < 2147483648" "sint l < 2147483648"
    using sint_range_size[of p] sint_range_size[of l] by (simp_all add: word_size)
  have "sint (p + l) = signed_take_bit 31 (sint p + sint l)" by (simp add: signed_take_bit_add sint_word_ariths)
  moreover have "signed_take_bit 31 x = (if x < 2147483648 then x else x - 4294967296)" if "0 \<le> x" "x < 4294967296" for x :: int
  proof -
    have "(x + 2147483648) mod 4294967296 = (x - 2147483648) mod 4294967296"
      using minus_mod_self2[of "x + 2147483648" 4294967296] by simp
    then have "(x + 2147483648) mod 4294967296 = (if x < 2147483648 then x + 2147483648 else x - 2147483648)"
      using that by (auto intro: mod_pos_pos_trivial)
    then show ?thesis by (simp add: signed_take_bit_eq_take_bit_shift take_bit_eq_mod)
  qed
  ultimately show "sint (p + l) < sint p \<longleftrightarrow> sint p + sint l \<ge> 2147483648"
    and "sint p + sint l < 2147483648 \<Longrightarrow> sint (p + l) = sint p + sint l"
    using assms b by auto
qed


lemma readMem_panics_iff:
  "readMem mem ptr len = Inl e \<longleftrightarrow> e = Panic \<and> 0 \<le> sint ptr \<and> 0 \<le> sint len \<and> sint ptr + sint len \<ge> 2 ^ 31 \<and>
     (\<exists>data. mem = Some data \<and> sint ptr + sint len \<le> int (length data))"
  using sint_add_nonneg(1)[of ptr len] by (auto simp: readMem_def res_simps split: option.splits)

lemma readMem_Inr:
  assumes "readMem mem ptr len = Inr (Some bs)"
  shows "\<exists>data. mem = Some data \<and> bs = take (nat (sint len)) (drop (nat (sint ptr)) data) \<and> length bs = nat (sint len)"
proof -
  from assms obtain data where d: "mem = Some data" "0 \<le> sint ptr" "0 \<le> sint len" "sint ptr + sint len \<le> int (length data)"
    "\<not> sint (ptr + len) < sint ptr" "bs = go_slice (nat (sint ptr)) (nat (sint (ptr + len))) data"
    by (auto simp: readMem_def res_simps split: option.splits if_splits)
  then have "sint (ptr + len) = sint ptr + sint len" using sint_add_nonneg[of ptr len] by auto
  with d show ?thesis by (auto simp: go_slice_def nat_add_distrib drop_take)
qed

section \<open>What a host call can change\<close>

text \<open>A host call changes the state store only by \<open>StateSet\<close> and the ledger only by a \<open>MoveTx\<close> out of the
  contract's own account.\<close>

lemma charged_cases:
  assumes "charged f mem bad st k = (st', r)"
  obtains "storeFuel st < f" "st' = st\<lparr>storeFuel := 0, hostErr := Some (RGError ErrContractOutOfGas)\<rparr>" "r = Inr (mem, bad)"
  | "f \<le> storeFuel st" "k (st\<lparr>storeFuel := storeFuel st - f\<rparr>) = (st', r)"
  using assms by (cases "storeFuel st < f") (auto simp: charged_def chargeFuelFor_def not_less)

lemma withMem_cases:
  assumes "withMem mem ptr len bad st k = (st', r)"
  obtains "st' = st" | bs where "readMem mem ptr len = Inr (Some bs)" "k bs = (st', r)"
  using assms by (auto simp: withMem_def split: sum.splits option.splits)

definition hostEffect :: "RuntimeConfig \<Rightarrow> HostState \<Rightarrow> HostState \<Rightarrow> bool" where
  "hostEffect cfg st st' \<longleftrightarrow> storeFuel st' \<le> storeFuel st \<and>
     (hsState st' = hsState st \<or> (\<exists>k v. StateSet (hsState st) k v = Inr (hsState st'))) \<and>
     (hsLedger st' = hsLedger st \<or>
       (\<exists>to v r. v > 0 \<and> MoveTx (hsLedger st) (CfgSelfAddr cfg) to (Some v) = (hsLedger st', r)))"

lemma hostEffect_refl [simp]: "hostEffect cfg st st"
  by (simp add: hostEffect_def)

lemma hostEffect_charged:
  assumes "charged f mem bad st k = (st', r)"
    and "\<And>st1 st' r. k st1 = (st', r) \<Longrightarrow> hostEffect cfg st1 st'"
  shows "hostEffect cfg st st'"
  using assms(1)
proof (cases rule: charged_cases)
  case 1
  then show ?thesis by (simp add: hostEffect_def)
next
  case 2
  have "storeFuel st - f \<le> storeFuel st" using 2(1) by (simp add: word_sub_le)
  then show ?thesis using assms(2)[OF 2(2)] by (auto simp: hostEffect_def)
qed

lemma hostEffect_withMem:
  assumes "withMem mem ptr len bad st k = (st', r)"
    and "\<And>bs st' r. k bs = (st', r) \<Longrightarrow> hostEffect cfg st st'"
  shows "hostEffect cfg st st'"
  using assms(1) by (cases rule: withMem_cases) (use assms(2) in auto)

lemma hostEffect_writeBack: "writeBack st w f = (st', r) \<Longrightarrow> hostEffect cfg st st'"
  by (auto simp: writeBack_def)

lemmas hostEffect_rules = hostEffect_charged hostEffect_withMem hostEffect_writeBack

lemma host_effect:
  assumes "defineHostFunctions B cfg call mem st = (st', r)"
  shows "hostEffect cfg st st'"
  using assms
proof (cases call)
  case (state_get a b c d)
  with assms show ?thesis
    by (auto simp: host_state_get_def Let_def elim!: hostEffect_rules split: if_splits option.splits)
next
  case (state_set a b c d)
  with assms show ?thesis
    by (auto simp: host_state_set_def hostEffect_def[of cfg _ "_\<lparr>hostErr := _\<rparr>"] hostEffect_def[of cfg _ "_\<lparr>hsState := _\<rparr>"]
        elim!: hostEffect_rules split: if_splits sum.splits)
next
  case (host_transfer p l lo hi)
  with assms show ?thesis
    by (auto simp: host_transfer_call_def Let_def hostEffect_def[of cfg _ "_\<lparr>hsLedger := _\<rparr>"] not_le
        elim!: hostEffect_rules split: if_splits prod.splits sum.splits)
next
  case (bn254_pairing_check p l)
  with assms show ?thesis
    by (auto simp: host_pairing_check_def elim!: hostEffect_rules split: sum.splits if_splits)
qed (auto simp: host_self_balance_def host_balance_of_def host_block_height_def host_address_def
      host_calldata_len_def host_calldata_copy_def host_log_call_def Let_def
      elim!: hostEffect_rules split: if_splits option.splits)


section \<open>Running a module\<close>

text \<open>An invariant of the host state that every host function keeps is kept by instantiation and by every
  call of an exported function.\<close>

locale host_invariant =
  fixes B :: bn254 and cfg :: RuntimeConfig and P :: "HostState \<Rightarrow> bool"
  assumes host: "P st \<Longrightarrow> defineHostFunctions B cfg call mem st = (st', r) \<Longrightarrow> P st'"
    and fuel: "P st \<Longrightarrow> P (st\<lparr>storeFuel := f\<rparr>)"
begin

lemma run: "P st \<Longrightarrow> runWasm B cfg w st = (st', e) \<Longrightarrow> P st'"
proof (induction w arbitrary: st)
  case (WDone f ex)
  then show ?case using fuel by auto
next
  case (WTrap f b)
  then show ?case using fuel by auto
next
  case (WHost call mem f k)
  obtain st1 r where h: "defineHostFunctions B cfg call mem (st\<lparr>storeFuel := f\<rparr>) = (st1, r)" by fastforce
  have P1: "P st1" using host[OF fuel[OF WHost.prems(1)] h] .
  show ?case
  proof (cases r)
    case (Inl x)
    then show ?thesis using WHost.prems(2) h P1 by simp
  next
    case (Inr q)
    obtain mem' ret where "q = (mem', ret)" by (cases q)
    then show ?thesis using WHost.prems(2) h Inr P1 WHost.IH[of "k ret" "k ret mem'" "k ret mem' (storeFuel st1)" st1]
      by (auto simp: rangeI)
  qed
qed

lemma runtime: "P st \<Longrightarrow> NewRuntime W B cfg st = (st', r) \<Longrightarrow> P st'"
  by (auto simp: NewRuntime_def Let_def fuel dest: run[OF fuel] split: option.splits sum.splits prod.splits wasmEnd.splits)

lemma rt_call: "P st \<Longrightarrow> RuntimeCall B cfg rt f st = (st', r) \<Longrightarrow> P st'"
  by (auto simp: RuntimeCall_def dest: run split: option.splits prod.splits wasmEnd.splits goerr.splits)

end

lemma MoveTx_frame:
  assumes "ledger_ok l" "0 \<le> v" "MoveTx l from to (Some v) = (l', r)"
  shows "ledger_ok l' \<and> nonces l' = nonces l \<and> (\<forall>a. a \<noteq> from \<longrightarrow> BalanceOfTx l a \<le> BalanceOfTx l' a) \<and>
    BalanceOfTx l from - v \<le> BalanceOfTx l' from"
proof -
  have b: "balances_ok (balances l)" using assms(1) by (simp add: ledger_ok_def)
  have nn: "0 \<le> BalanceOfTx l a" "BalanceOfTx l a \<le> UINT256_MAX" for a
    using readBalance_nonneg readBalance_le_MAX[OF b] by (simp_all add: BalanceOfTx_def)
  consider "UINT256_MAX < v \<or> BalanceOfTx l from < v"
    | "v \<le> UINT256_MAX" "v \<le> BalanceOfTx l from" "UINT256_MAX < BalanceOfTx l to + v"
    | "v \<le> UINT256_MAX" "v \<le> BalanceOfTx l from" "BalanceOfTx l to + v \<le> UINT256_MAX" by linarith
  then show ?thesis
  proof cases
    case 1
    then have "l' = l" using assms(3) by (auto simp: MoveTx_eq[OF assms(1,2)] split: if_splits)
    then show ?thesis using assms by simp
  next
    case 2
    then have l': "l' = l\<lparr>balances := bput (balances l) from (be_bytes 32 (BalanceOfTx l from - v))\<rparr>"
      using assms(3) by (simp add: MoveTx_eq[OF assms(1,2)])
    have w: "0 \<le> BalanceOfTx l from - v" "BalanceOfTx l from - v \<le> UINT256_MAX" using 2(2) nn[of "from"] assms(2) by auto
    then show ?thesis
      using assms(1,2) balances_ok_bput[OF b] l'
      by (auto simp: ledger_ok_def BalanceOfTx_def readBalance_bput[OF w[unfolded BalanceOfTx_def]])
  next
    case 3
    then have l': "l' = l\<lparr>balances := moved (balances l) from to v\<rparr>"
      using assms(3) by (simp add: MoveTx_eq[OF assms(1,2)])
    note m = moved_facts[OF b assms(2), of "from" to, unfolded BalanceOfTx_def[symmetric], OF 3(2,3)]
    from m(1) have "BalanceOfTx l' = (BalanceOfTx l)(from := BalanceOfTx l from - v, to := BalanceOfTx l to + v)"
      using l' by (simp add: BalanceOfTx_def fun_eq_iff)
    moreover have "ledger_ok l'" using m(3) l' assms(1) by (simp add: ledger_ok_def)
    ultimately show ?thesis using assms(2) l' by auto
  qed
qed

definition ownSpending :: "bytes32 \<Rightarrow> LedgerDB \<Rightarrow> HostState \<Rightarrow> bool" where
  "ownSpending self l0 st \<longleftrightarrow> ledger_ok (hsLedger st) \<and> nonces (hsLedger st) = nonces l0 \<and>
     (\<forall>a. a \<noteq> self \<longrightarrow> BalanceOfTx l0 a \<le> BalanceOfTx (hsLedger st) a)"

interpretation own: host_invariant B cfg "ownSpending (CfgSelfAddr cfg) l0" for B cfg l0
proof
  fix st call mem st' r
  assume P: "ownSpending (CfgSelfAddr cfg) l0 st" and h: "defineHostFunctions B cfg call mem st = (st', r)"
  from host_effect[OF h] consider "hsLedger st' = hsLedger st"
    | to v r where "v > 0" "MoveTx (hsLedger st) (CfgSelfAddr cfg) to (Some v) = (hsLedger st', r)"
    by (auto simp: hostEffect_def)
  then show "ownSpending (CfgSelfAddr cfg) l0 st'"
  proof cases
    case 1
    then show ?thesis using P by (simp add: ownSpending_def)
  next
    case 2
    have ok: "ledger_ok (hsLedger st)" using P by (simp add: ownSpending_def)
    from MoveTx_frame[OF ok _ 2(2)] 2(1) P show ?thesis
      by (auto simp: ownSpending_def intro: order_trans)
  qed
qed (simp add: ownSpending_def)

interpretation statewf: host_invariant B cfg "\<lambda>st. state_wf (hsState st)" for B cfg
proof
  fix st call mem st' r
  assume "state_wf (hsState st)" "defineHostFunctions B cfg call mem st = (st', r)"
  then show "state_wf (hsState st')" using host_effect[of B cfg call mem st st' r] StateSet_wf by (auto simp: hostEffect_def)
qed simp


section \<open>Deployment and calls\<close>

definition sentValue :: "Tx \<Rightarrow> int" where
  "sentValue t = (case Value t of None \<Rightarrow> 0 | Some v \<Rightarrow> max 0 v)"

lemma fundContract_frame:
  assumes "ledger_ok l" "fundContract l t addr = (l', r)"
  shows "ledger_ok l' \<and> nonces l' = nonces l \<and> (\<forall>a. a \<noteq> SenderPubKey t \<longrightarrow> BalanceOfTx l a \<le> BalanceOfTx l' a) \<and>
    BalanceOfTx l (SenderPubKey t) - sentValue t \<le> BalanceOfTx l' (SenderPubKey t)"
proof (cases "Value t")
  case None
  then show ?thesis using assms by (simp add: fundContract_def sentValue_def)
next
  case (Some v)
  show ?thesis
  proof (cases "v > 0")
    case True
    then have "MoveTx l (SenderPubKey t) addr (Some v) = (l', r)" using assms(2) Some by (simp add: fundContract_def)
    from MoveTx_frame[OF assms(1) _ this] True Some show ?thesis by (simp add: sentValue_def)
  next
    case False
    then show ?thesis using assms Some by (simp add: fundContract_def sentValue_def)
  qed
qed

text \<open>What a contract transaction may do to the ledger: it spends from the contract's own account, and from
  the sender at most the value sent along.\<close>

definition ledgerFrame :: "bytes32 \<Rightarrow> Tx \<Rightarrow> LedgerDB \<Rightarrow> LedgerDB \<Rightarrow> bool" where
  "ledgerFrame addr t l l' \<longleftrightarrow> ledger_ok l' \<and> nonces l' = nonces l \<and>
     (\<forall>a. a \<noteq> addr \<longrightarrow> a \<noteq> SenderPubKey t \<longrightarrow> BalanceOfTx l a \<le> BalanceOfTx l' a) \<and>
     (SenderPubKey t \<noteq> addr \<longrightarrow> BalanceOfTx l (SenderPubKey t) - sentValue t \<le> BalanceOfTx l' (SenderPubKey t))"

lemma ledgerFrame_fund: "ledger_ok l \<Longrightarrow> fundContract l t addr = (l', r) \<Longrightarrow> ledgerFrame addr t l l'"
  using fundContract_frame[of l t addr l' r] by (auto simp: ledgerFrame_def)

lemma ledgerFrame_own: "ledgerFrame addr t l l1 \<Longrightarrow> ownSpending addr l1 st \<Longrightarrow> ledgerFrame addr t l (hsLedger st)"
  by (auto simp: ledgerFrame_def ownSpending_def intro: order_trans)

lemma ledgerFrame_own_fund:
  assumes "ownSpending addr l st" "fundContract (hsLedger st) t addr = (l', r)"
  shows "ledgerFrame addr t l l'"
proof -
  have ok: "ledger_ok (hsLedger st)" using assms(1) by (simp add: ownSpending_def)
  from fundContract_frame[OF ok assms(2)] assms(1) show ?thesis
    by (auto simp: ledgerFrame_def ownSpending_def intro: order_trans)
qed

lemma sentValue_nonneg [simp]: "0 \<le> sentValue t"
  by (simp add: sentValue_def split: option.splits)

lemma ledgerFrame_from_own:
  assumes "ownSpending addr l st"
  shows "ledgerFrame addr t l (hsLedger st)"
proof -
  have "BalanceOfTx l (SenderPubKey t) - sentValue t \<le> BalanceOfTx (hsLedger st) (SenderPubKey t)"
    if "SenderPubKey t \<noteq> addr"
  proof -
    have "BalanceOfTx l (SenderPubKey t) \<le> BalanceOfTx (hsLedger st) (SenderPubKey t)"
      using that assms by (simp add: ownSpending_def)
    then show ?thesis using sentValue_nonneg[of t] by linarith
  qed
  then show ?thesis using assms by (simp add: ledgerFrame_def ownSpending_def)
qed

lemma ownSpending_start: "ledger_ok (hsLedger st) \<Longrightarrow> ownSpending addr (hsLedger st) st"
  by (simp add: ownSpending_def)

lemma Deploy_cases:
  assumes "Deploy C W B db l t h g = (db', l', r)" "ledger_ok l"
  shows "ledgerFrame (ContractAddr C (SenderPubKey t) (Nonce t)) t l l'"
    "db' = db \<or> \<not> contractExists db (ContractAddr C (SenderPubKey t) (Nonce t)) \<and>
       (\<exists>s. db' = saveState (storeBytecode db (ContractAddr C (SenderPubKey t) (Nonce t)) (WasmBytes t))
                 (ContractAddr C (SenderPubKey t) (Nonce t)) s)"
proof -
  let ?addr = "ContractAddr C (SenderPubKey t) (Nonce t)"
  let ?cfg = "\<lparr>CfgWasmBytes = WasmBytes t, CfgCaller = SenderPubKey t, CfgSelfAddr = ?addr,
                      CfgValue = Value t, CfgBlockHeight = h, CfgCallData = [], CfgGasLimit = g\<rparr>"
  obtain l1 r1 where f: "fundContract l t ?addr = (l1, r1)" by fastforce
  let ?st = "\<lparr>storeFuel = 0, hostErr = None, hsState = loadState db ?addr, hsLedger = l1\<rparr>"
  obtain st2 r2 where n: "NewRuntime W B ?cfg ?st = (st2, r2)" by fastforce
  have l0: "ledgerFrame ?addr t l l" using assms(2) by (simp add: ledgerFrame_def)
  have l1: "ledgerFrame ?addr t l l1" using ledgerFrame_fund[OF assms(2) f] .
  then have "ownSpending ?addr l1 ?st" by (simp add: ownSpending_def ledgerFrame_def)
  with own.runtime[of ?cfg l1 ?st W B st2 r2] n have o2: "ownSpending ?addr l1 st2" by simp
  have o3: "ownSpending ?addr l1 st3" if "RuntimeCall B ?cfg rt f st2 = (st3, r3)" for rt f st3 r3
    using own.rt_call[of ?cfg l1 st2 B rt f st3 r3] o2 that by simp
  show "ledgerFrame ?addr t l l'"
    using assms(1) l0 l1 ledgerFrame_own[OF l1 o2] ledgerFrame_own[OF l1 o3]
    by (auto simp: Deploy_def Let_def f n split: if_splits sum.splits prod.splits)
  show "db' = db \<or> \<not> contractExists db ?addr \<and> (\<exists>s. db' = saveState (storeBytecode db ?addr (WasmBytes t)) ?addr s)"
    using assms(1) by (auto simp: Deploy_def Let_def f n split: if_splits sum.splits prod.splits)
qed

lemma Call_cases:
  assumes "Call C W B db l t h g = (db', l', r)" "ledger_ok l"
  shows "ledgerFrame (ReceiverPubKey t) t l l'"
    "db' = db \<or> (\<exists>s. db' = saveState db (ReceiverPubKey t) s)"
proof -
  let ?addr = "ReceiverPubKey t"
  obtain fn cd where ct: "callTarget (CallData t) = (fn, cd)" by fastforce
  have l0: "ledgerFrame ?addr t l l" using assms(2) by (simp add: ledgerFrame_def)
  have "ledgerFrame ?addr t l l' \<and> (db' = db \<or> (\<exists>s. db' = saveState db ?addr s))"
  proof (cases "loadBytecode db ?addr")
    case (Inl e)
    then show ?thesis using assms(1) l0 by (simp add: Call_def Let_def)
  next
    case (Inr w)
    let ?cfg = "\<lparr>CfgWasmBytes = w, CfgCaller = SenderPubKey t, CfgSelfAddr = ?addr,
                      CfgValue = Value t, CfgBlockHeight = h, CfgCallData = cd, CfgGasLimit = g\<rparr>"
    let ?st = "\<lparr>storeFuel = 0, hostErr = None, hsState = loadState db ?addr, hsLedger = l\<rparr>"
    obtain st2 r2 where n: "NewRuntime W B ?cfg ?st = (st2, r2)" by fastforce
    obtain l3 r3 where f: "fundContract (hsLedger st2) t ?addr = (l3, r3)" by fastforce
    have "ownSpending ?addr l ?st" using assms(2) by (simp add: ownSpending_def)
    with own.runtime[of ?cfg l ?st W B st2 r2] n have o2: "ownSpending ?addr l st2" by simp
    have l3: "ledgerFrame ?addr t l l3" using ledgerFrame_own_fund[OF o2 f] .
    then have "ownSpending ?addr l3 (st2\<lparr>hsLedger := l3\<rparr>)" by (simp add: ownSpending_def ledgerFrame_def)
    then have o4: "ownSpending ?addr l3 st4" if "RuntimeCall B ?cfg rt fn (st2\<lparr>hsLedger := l3\<rparr>) = (st4, r4)" for rt st4 r4
      using own.rt_call[of ?cfg l3 "st2\<lparr>hsLedger := l3\<rparr>" B rt fn st4 r4] that by simp
    show ?thesis
      using assms(1) l3 ledgerFrame_from_own[OF o2] ledgerFrame_own[OF l3 o4]
      by (auto simp: Call_def Let_def Inr ct n f split: if_splits sum.splits prod.splits)
  qed
  then show "ledgerFrame ?addr t l l'" "db' = db \<or> (\<exists>s. db' = saveState db ?addr s)" by blast+
qed


section \<open>Fuel\<close>

text \<open>The engine never gives fuel back: a run reports at most the fuel it was given, and continues a host
  call from at most the fuel the call left.\<close>

inductive fuelled :: "wasm \<Rightarrow> u64 \<Rightarrow> bool" where
  ended: "fuel \<le> f \<Longrightarrow> (\<And>name w. exports name = Some w \<Longrightarrow> fuelled w fuel) \<Longrightarrow> fuelled (WDone fuel exports) f"
| trap: "fuel \<le> f \<Longrightarrow> fuelled (WTrap fuel outOfFuel) f"
| host: "fuel \<le> f \<Longrightarrow> (\<And>ret mem' f'. f' \<le> fuel \<Longrightarrow> fuelled (k ret mem' f') f') \<Longrightarrow> fuelled (WHost call mem fuel k) f"

inductive_cases fuelled_WDoneE: "fuelled (WDone fuel exports) f"
inductive_cases fuelled_WTrapE: "fuelled (WTrap fuel b) f"
inductive_cases fuelled_WHostE: "fuelled (WHost call mem fuel k) f"

lemma host_fuel: "defineHostFunctions B cfg call mem st = (st', r) \<Longrightarrow> storeFuel st' \<le> storeFuel st"
  using host_effect[of B cfg call mem st st' r] by (simp add: hostEffect_def)

lemma runWasm_fuel:
  assumes "fuelled w f" "runWasm B cfg w st = (st', e)"
  shows "storeFuel st' \<le> f \<and> (\<forall>ex name w. e = Finished ex \<longrightarrow> ex name = Some w \<longrightarrow> fuelled w (storeFuel st'))"
  using assms
proof (induction arbitrary: st rule: fuelled.induct)
  case (host fuel f k call mem)
  obtain st1 r where h: "defineHostFunctions B cfg call mem (st\<lparr>storeFuel := fuel\<rparr>) = (st1, r)" by fastforce
  have le: "storeFuel st1 \<le> fuel" using host_fuel[OF h] by simp
  show ?case
  proof (cases r)
    case (Inl x)
    then show ?thesis using host.prems h le host.hyps(1) by (auto intro: order_trans)
  next
    case (Inr q)
    obtain mem' ret where q: "q = (mem', ret)" by (cases q)
    then have "runWasm B cfg (k ret mem' (storeFuel st1)) st1 = (st', e)" using host.prems h Inr by simp
    from host.IH[OF le this] le host.hyps(1) show ?thesis by (meson order_trans)
  qed
qed auto

definition engine_fuelled :: "wasmtime \<Rightarrow> bool" where
  "engine_fuelled W \<longleftrightarrow> (\<forall>wasm f. fuelled (Instantiate W wasm f) f)"

lemma NewRuntime_fuel:
  assumes "engine_fuelled W" "NewRuntime W B cfg st = (st', Inr rt)"
  shows "initialFuel rt = storeFuel st' \<and> initialFuel rt \<le> fuelCapOf (CfgGasLimit cfg) \<and>
    (\<forall>name w. exportsOf rt name = Some w \<longrightarrow> fuelled w (storeFuel st'))"
proof -
  let ?st = "st\<lparr>storeFuel := fuelCapOf (CfgGasLimit cfg)\<rparr>"
  obtain exports where run: "runWasm B cfg (Instantiate W (CfgWasmBytes cfg) (fuelCapOf (CfgGasLimit cfg))) ?st =
      (st', Finished exports)" "rt = \<lparr>exportsOf = exports, initialFuel = storeFuel st'\<rparr>"
    using assms(2) by (auto simp: NewRuntime_def Let_def split: option.splits sum.splits prod.splits wasmEnd.splits)
  from runWasm_fuel[OF _ run(1), of "fuelCapOf (CfgGasLimit cfg)"] assms(1) run(2) show ?thesis
    by (auto simp: engine_fuelled_def)
qed

lemma unat_max_u64: "unat (- 1 :: u64) = 18446744073709551615"
  by (simp add: unsigned_minus_1_eq_mask mask_eq_exp_minus_1)

lemma fuelCapOf_bound: "g \<noteq> 0 \<Longrightarrow> unat (fuelCapOf g) \<le> unat g * 1000"
proof -
  assume g: "g \<noteq> 0"
  show ?thesis
  proof (cases "g > (- 1) div 1000")
    case True
    then have c: "fuelCapOf g = - 1" using g by (simp add: fuelCapOf_def Let_def)
    have "unat ((- 1 :: u64) div 1000) = 18446744073709551615 div 1000" by (simp add: unat_div unat_max_u64)
    then have "18446744073709551615 div 1000 < unat g" using True by (simp add: word_less_nat_alt)
    then have "18446744073709551615 \<le> unat g * 1000" by simp
    then show ?thesis using c by (simp add: unat_max_u64)
  next
    case False
    have "unat (g * 1000) \<le> unat g * 1000" by (simp add: unat_word_ariths)
    moreover have "fuelCapOf g = g * 1000 \<or> fuelCapOf g = 100000000000 \<and> g * 1000 = 0"
      using g False by (simp add: fuelCapOf_def Let_def)
    ultimately show ?thesis
    proof (elim disjE conjE)
      assume z: "g * 1000 = 0" 
      have "unat g \<le> 18446744073709551615 div 1000" using False by (simp add: word_less_nat_alt unat_div unat_max_u64 not_less)
      then have "unat g * 1000 < 18446744073709551616" by simp
      then have "unat (g * 1000) = unat g * 1000" by (simp add: unat_word_ariths)
      then have "g = 0" using z by (simp add: unat_eq_0)
      with g show ?thesis by simp
    qed auto
  qed
qed

lemma FuelConsumed_le: "FuelConsumed rt st \<le> initialFuel rt"
  by (auto simp: FuelConsumed_def word_sub_le less_imp_le)

lemma contract_fuel:
  assumes "engine_fuelled W" "Deploy C W B db l t h g = (db', l', Inr (root, used)) \<or> Call C W B db l t h g = (db', l', Inr (root, used))"
  shows "used \<le> fuelCapOf g"
proof -
  have "\<exists>cfg st st' rt st2. CfgGasLimit cfg = g \<and> NewRuntime W B cfg st = (st', Inr rt) \<and> used = FuelConsumed rt st2"
    using assms(2)
  proof
    assume "Deploy C W B db l t h g = (db', l', Inr (root, used))"
    then show ?thesis
      by (auto simp: Deploy_def Let_def split: if_splits sum.splits prod.splits) (metis RuntimeConfig.simps(7))
  next
    assume "Call C W B db l t h g = (db', l', Inr (root, used))"
    then show ?thesis
      by (auto simp: Call_def Let_def split: if_splits sum.splits prod.splits) (metis RuntimeConfig.simps(7))
  qed
  then obtain cfg st st' rt st2 where "CfgGasLimit cfg = g" "NewRuntime W B cfg st = (st', Inr rt)" "used = FuelConsumed rt st2"
    by blast
  with NewRuntime_fuel[OF assms(1)] FuelConsumed_le[of rt st2] show ?thesis by (metis order_trans)
qed


section \<open>A small module\<close>

definition sampleWasm :: wasmtime where
  "sampleWasm = \<lparr>moduleImports = (\<lambda>_. Some [(str ''frg'', Some (str ''block_height''))]),
     Instantiate = (\<lambda>_ f. WDone f (\<lambda>name. if name = str ''init'' \<or> name = str ''call''
       then Some (WHost block_height None f (\<lambda>ret mem f'. WDone f' (\<lambda>_. None))) else None))\<rparr>"

definition sampleCurve :: bn254 where
  "sampleCurve = \<lparr>canonicalFp = (\<lambda>_. True), validG1 = (\<lambda>_. True), validG2 = (\<lambda>_. True),
     PairingCheck = (\<lambda>_ _. Inr True)\<rparr>"

definition sampleConfig :: RuntimeConfig where
  "sampleConfig = \<lparr>CfgWasmBytes = [1], CfgCaller = 3, CfgSelfAddr = 9, CfgValue = None, CfgBlockHeight = 1,
     CfgCallData = [], CfgGasLimit = 100\<rparr>"

definition sampleDeploy :: Tx where
  "sampleDeploy = sampleTx\<lparr>Type := TxTypeContractDeploy, SenderPubKey := 3, Value := Some 0, WasmBytes := [1]\<rparr>"

lemma sampleWasm_fuelled: "engine_fuelled sampleWasm"
proof -
  have "fuelled (WHost block_height None f (\<lambda>ret mem f'. WDone f' (\<lambda>_. None))) f" for f
    by (intro fuelled.host fuelled.ended) auto
  then show ?thesis
    by (auto simp: engine_fuelled_def sampleWasm_def intro!: fuelled.ended split: if_splits)
qed

lemma sampleDeploy_runs:
  obtains db' l' root where "Deploy sample_crypto sampleWasm sampleCurve EnsureBuckets sampleLedger sampleDeploy 1 100 =
    (db', l', Inr (root, 1000))"
proof -
  have "case Deploy sample_crypto sampleWasm sampleCurve EnsureBuckets sampleLedger sampleDeploy 1 100 of
      (_, _, Inr (_, used)) \<Rightarrow> used = 1000 | _ \<Rightarrow> False" by code_simp
  with that show ?thesis by (auto split: prod.splits sum.splits)
qed


section \<open>Properties\<close>

text \<open>C15. A contract transaction stays within its authority, whatever the module does and whether it
succeeds or not: no account but the contract's own and the sender's loses funds, the sender loses at
most the value sent along, nonces do not change, no deployed code is ever replaced, and the code and
state of every other contract stay as they were.\<close>

theorem contract_authority:
  assumes "ledger_ok l"
    and "Deploy C W B db l t h g = (db', l', r) \<and> addr = ContractAddr C (SenderPubKey t) (Nonce t) \<or>
      Call C W B db l t h g = (db', l', r) \<and> addr = ReceiverPubKey t"
  shows "ledger_ok l' \<and> nonces l' = nonces l \<and>
    (\<forall>a. a \<noteq> addr \<and> a \<noteq> SenderPubKey t \<longrightarrow> BalanceOfTx l a \<le> BalanceOfTx l' a) \<and>
    (SenderPubKey t \<noteq> addr \<longrightarrow> BalanceOfTx l (SenderPubKey t) - sentValue t \<le> BalanceOfTx l' (SenderPubKey t)) \<and>
    (\<forall>a w. bget (contract_bytecode db) a = Some w \<longrightarrow> bget (contract_bytecode db') a = Some w) \<and>
    (\<forall>a. a \<noteq> addr \<longrightarrow> bget (contract_bytecode db') a = bget (contract_bytecode db) a \<and>
       bget (contract_state db') a = bget (contract_state db) a)"
proof -
  have "ledgerFrame addr t l l'" using assms(2) Deploy_cases(1)[OF _ assms(1)] Call_cases(1)[OF _ assms(1)] by metis
  moreover have "db' = db \<or> (\<exists>s. db' = saveState db addr s) \<or>
      \<not> contractExists db addr \<and> (\<exists>s. db' = saveState (storeBytecode db addr (WasmBytes t)) addr s)"
    using assms(2) Deploy_cases(2)[OF _ assms(1)] Call_cases(2)[OF _ assms(1)] by metis
  ultimately show ?thesis
    by (auto simp: ledgerFrame_def saveState_def storeBytecode_def contractExists_def bget_bput Let_def)
qed

theorem contract_authority_witness:
  "\<exists>db' l' r. Deploy sample_crypto sampleWasm sampleCurve EnsureBuckets sampleLedger sampleDeploy 1 100 = (db', l', r) \<and>
     ledger_ok l' \<and> nonces l' = nonces sampleLedger"
proof -
  obtain db' l' root where d: "Deploy sample_crypto sampleWasm sampleCurve EnsureBuckets sampleLedger sampleDeploy 1 100 =
    (db', l', Inr (root, 1000))" by (rule sampleDeploy_runs)
  from contract_authority[OF sampleLedger_ok(1), of sample_crypto sampleWasm sampleCurve EnsureBuckets sampleDeploy 1 100] d
  show ?thesis by blast
qed



text \<open>C33. Metering: when the engine never returns fuel, a successful deployment or call reports at most the
fuel it was given, so a transaction with a non-zero gas limit is charged at most that many units of
contract gas.\<close>

theorem contract_fuel_bounded:
  assumes "engine_fuelled W"
    and "Deploy C W B db l t h g = (db', l', Inr (root, used)) \<or> Call C W B db l t h g = (db', l', Inr (root, used))"
  shows "used \<le> fuelCapOf g \<and> (g \<noteq> 0 \<longrightarrow> unat (used div 1000) \<le> unat g)"
proof -
  have u: "used \<le> fuelCapOf g" using contract_fuel[OF assms] .
  moreover have "unat (used div 1000) \<le> unat g" if "g \<noteq> 0"
  proof -
    have "unat used \<le> unat g * 1000" using u fuelCapOf_bound[OF that] by (simp add: word_le_nat_alt)
    then have "unat used div 1000 \<le> unat g" by simp
    then show ?thesis by (simp add: unat_div)
  qed
  ultimately show ?thesis by blast
qed

theorem contract_fuel_bounded_witness:
  "engine_fuelled sampleWasm \<and>
   (\<exists>db' l' root. Deploy sample_crypto sampleWasm sampleCurve EnsureBuckets sampleLedger sampleDeploy 1 100 =
      (db', l', Inr (root, 1000))) \<and> unat ((1000 :: u64) div 1000) \<le> unat (100 :: u64)"
proof -
  obtain db' l' root where d: "Deploy sample_crypto sampleWasm sampleCurve EnsureBuckets sampleLedger sampleDeploy 1 100 =
    (db', l', Inr (root, 1000))" by (rule sampleDeploy_runs)
  from contract_fuel_bounded[OF sampleWasm_fuelled, of sample_crypto sampleCurve EnsureBuckets sampleLedger sampleDeploy 1 100
      db' l' root 1000] d sampleWasm_fuelled show ?thesis by auto
qed

text \<open>The amount of a contract's transfer is the 128-bit number of its two words as long as both words are
non-negative as signed integers. When the low word has its top bit set, the amount is negative, and the
transfer is refused without any effect on the ledger.\<close>

theorem contract_transfer_amount:
  "(0 \<le> sint lo \<and> 0 \<le> sint hi \<longrightarrow> transferAmount lo hi = 2 ^ 64 * sint hi + sint lo) \<and>
   (sint lo < 0 \<and> defineHostFunctions B cfg (host_transfer p n lo hi) mem st = (st', r) \<longrightarrow>
      transferAmount lo hi < 0 \<and> hsLedger st' = hsLedger st)"
proof (intro conjI impI)
  assume a: "0 \<le> sint lo \<and> 0 \<le> sint hi"
  have "sint lo < 2 ^ 63" using sint_lt[of lo] by simp
  then have "take_bit 64 (sint lo) = sint lo" using a by (intro take_bit_int_eq_self) simp_all
  moreover have "push_bit 64 (sint hi) AND take_bit 64 (sint lo) = 0"
    by (rule bit_eqI) (auto simp: bit_and_iff bit_push_bit_iff bit_take_bit_iff)
  ultimately have "push_bit 64 (sint hi) AND sint lo = 0" by simp
  then show "transferAmount lo hi = 2 ^ 64 * sint hi + sint lo"
    by (simp add: transferAmount_def disjunctive_add_eq_or[symmetric] push_bit_eq_mult)
next
  assume a: "sint lo < 0 \<and> defineHostFunctions B cfg (host_transfer p n lo hi) mem st = (st', r)"
  then show neg: "transferAmount lo hi < 0" by (simp add: transferAmount_def)
  from a have "host_transfer_call cfg p n lo hi mem st = (st', r)" by simp
  then show "hsLedger st' = hsLedger st"
    using neg by (auto simp: host_transfer_call_def charged_def chargeFuelFor_def withMem_def
        split: if_splits sum.splits option.splits)
qed

theorem contract_transfer_amount_witness:
  "transferAmount 7 1 = 2 ^ 64 + 7 \<and> transferAmount (2 ^ 63) 0 < 0"
proof -
  obtain st' r where h: "defineHostFunctions sampleCurve sampleConfig (host_transfer 0 32 (2 ^ 63) 0) None
      \<lparr>storeFuel = 0, hostErr = None, hsState = [], hsLedger = sampleLedger\<rparr> = (st', r)" by fastforce
  have "sint ((2 :: i64) ^ 63) < 0" "0 \<le> sint (7 :: i64)" "0 \<le> sint (1 :: i64)" "0 \<le> sint (0 :: i64)" by simp_all
  with contract_transfer_amount[of 7 1 sampleCurve sampleConfig 0 32 None] contract_transfer_amount[of "2 ^ 63" 0] h
  show ?thesis by auto
qed

text \<open>The memory access of the host functions bounds-checks in 64 bits and then computes the slice bound in
32 bits: reading panics for exactly those ranges that lie inside the memory and end at or beyond two
gibibytes, and otherwise reads the range or reports it out of bounds.\<close>

theorem contract_read_panics_exactly:
  "readMem mem ptr len = Inl e \<longleftrightarrow> e = Panic \<and> 0 \<le> sint ptr \<and> 0 \<le> sint len \<and> sint ptr + sint len \<ge> 2 ^ 31 \<and>
     (\<exists>data. mem = Some data \<and> sint ptr + sint len \<le> int (length data))"
  by (rule readMem_panics_iff)

end
