(* ===== verification/FRG_StateMachine.thy ===== *)
theory FRG_StateMachine
  imports FRG_BlockStore FRG_Economics FRG_Contract
begin

text \<open>
  Package \<^verbatim>\<open>core/statemachine\<close> (\<^verbatim>\<open>statemachine.go\<close>, and the queries of \<^verbatim>\<open>blockstore.go\<close> and
  \<^verbatim>\<open>telemetry.go\<close>): the shared database and the atomic application of a block. A database transaction
  that fails leaves the database as it was, so an operation either returns the new database or an
  error. The signature checks and prechecks that the code spreads over goroutines only read, and are
  run here in list order; which of several errors is reported is the one thing that depends on their
  schedule. The iteration order of the Go map of touched contracts is the argument \<open>iter\<close>.
\<close>

section \<open>The database\<close>

record StateDB =
  stake :: StakeDB
  contracts :: ContractDB
  meta :: "(bytes, bytes) bucket"
  blocks :: "(bytes, bytes) bucket"
  block_telemetry :: "(bytes, bytes) bucket"

definition heightKey :: bytes where "heightKey = str ''height''"
definition stateRootKey :: bytes where "stateRootKey = str ''stateRoot''"
definition baseFeeKey :: bytes where "baseFeeKey = str ''baseFee''"
definition genesisAppliedKey :: bytes where "genesisAppliedKey = str ''genesisApplied''"
definition consensusVotePrefix :: bytes where "consensusVotePrefix = str ''consensusVote/''"
definition consensusStateKey :: bytes where "consensusStateKey = str ''consensusState''"
definition totalSupplyKey :: bytes where "totalSupplyKey = str ''totalSupply''"

text \<open>\<^verbatim>\<open>New\<close> writes an empty value under the supply key, which later reads find.\<close>

definition NewStateMachine :: "StakeDB \<Rightarrow> StateDB" where
  "NewStateMachine s = \<lparr>stake = s, contracts = EnsureBuckets, meta = bput [] totalSupplyKey [], blocks = [],
     block_telemetry = []\<rparr>"

definition CurrentHeight :: "StateDB \<Rightarrow> u64 res" where
  "CurrentHeight db = (case bget (meta db) heightKey of None \<Rightarrow> Inr 0
     | Some v \<Rightarrow> rguard (length v < 8) Panic (Inr (Uint64 v)))"

definition CurrentStateRoot :: "StateDB \<Rightarrow> bytes32" where
  "CurrentStateRoot db = (case bget (meta db) stateRootKey of None \<Rightarrow> 0
     | Some v \<Rightarrow> to32 (v @ replicate (32 - length v) 0))"

definition ContractState :: "crypto \<Rightarrow> StateDB \<Rightarrow> bytes32 \<Rightarrow> bytes \<Rightarrow> bool \<times> bytes option \<times> bytes32" where
  "ContractState C db contractAddr key = LoadStateValue C (contracts db) contractAddr key"

definition GenesisApplied :: "StateDB \<Rightarrow> bool" where
  "GenesisApplied db \<longleftrightarrow> bget (meta db) genesisAppliedKey = Some [1]"

definition MarkGenesisAppliedTx :: "StateDB \<Rightarrow> StateDB" where
  "MarkGenesisAppliedTx db = db\<lparr>meta := bput (meta db) genesisAppliedKey [1]\<rparr>"

definition SetTotalSupplyTx :: "StateDB \<Rightarrow> int \<Rightarrow> StateDB res" where
  "SetTotalSupplyTx db total_supply =
     rguard (total_supply < 0) overflowErr (Inr (db\<lparr>meta := bput (meta db) totalSupplyKey (nat_bytes total_supply)\<rparr>))"

definition CurrentTotalSupply :: "StateDB \<Rightarrow> int \<times> bool" where
  "CurrentTotalSupply db = (case bget (meta db) totalSupplyKey of None \<Rightarrow> (0, False) | Some v \<Rightarrow> (be_val v, True))"

definition consensusVoteKey :: "u64 \<Rightarrow> u32 \<Rightarrow> u8 \<Rightarrow> bytes" where
  "consensusVoteKey height round voteType = consensusVotePrefix @ PutUint64 height @ PutUint32 round @ [voteType]"

definition RecordConsensusVote :: "StateDB \<Rightarrow> u64 \<Rightarrow> u32 \<Rightarrow> u8 \<Rightarrow> bytes32 \<Rightarrow> StateDB \<times> bool" where
  "RecordConsensusVote db height round voteType blockHash =
     (let key = consensusVoteKey height round voteType in
      case bget (meta db) key of
        Some _ \<Rightarrow> (db, False)
      | None \<Rightarrow> (db\<lparr>meta := bput (meta db) key (arr32 blockHash)\<rparr>, True))"

definition LoadConsensusState :: "StateDB \<Rightarrow> bytes" where
  "LoadConsensusState db = (case bget (meta db) consensusStateKey of None \<Rightarrow> [] | Some v \<Rightarrow> v)"

definition SaveConsensusState :: "StateDB \<Rightarrow> bytes \<Rightarrow> StateDB" where
  "SaveConsensusState db st = db\<lparr>meta := bput (meta db) consensusStateKey st\<rparr>"

definition ClearConsensusState :: "StateDB \<Rightarrow> StateDB" where
  "ClearConsensusState db = db\<lparr>meta := bdel (meta db) consensusStateKey\<rparr>"

definition BlockAt :: "crypto \<Rightarrow> StateDB \<Rightarrow> u64 \<Rightarrow> Block option res" where
  "BlockAt C db height = (case bget (blocks db) (blockKey height) of None \<Rightarrow> Inr None
     | Some data \<Rightarrow> rbind (deserializeBlock C data) (\<lambda>b. Inr (Some b)))"

fun blocksFrom :: "crypto \<Rightarrow> StateDB \<Rightarrow> nat \<Rightarrow> u64 \<Rightarrow> Block list res" where
  "blocksFrom C db 0 height = Inr []"
| "blocksFrom C db (Suc n) height =
     rbind (BlockAt C db height) (\<lambda>b.
       case b of None \<Rightarrow> Inr []
       | Some block \<Rightarrow> rbind (blocksFrom C db n (height + 1)) (\<lambda>rest. Inr (block # rest)))"

definition Blocks :: "crypto \<Rightarrow> StateDB \<Rightarrow> u64 \<Rightarrow> u64 \<Rightarrow> Block list res" where
  "Blocks C db from to =
     rguard (to < from) (GoError ''invalid block range'')
     (rguard (to - from \<ge> maxBlockRange) (GoError ''block range exceeds limit'')
      (blocksFrom C db (unat (to - from) + 1) from))"

definition BlockTelemetryAt :: "json \<Rightarrow> StateDB \<Rightarrow> u64 \<Rightarrow> BlockTelemetry option res" where
  "BlockTelemetryAt J db height = (case bget (block_telemetry db) (blockKey height) of None \<Rightarrow> Inr None
     | Some data \<Rightarrow> rbind (Unmarshal J data) (\<lambda>t. Inr (Some t)))"


section \<open>Evidence and stateless checks\<close>

record evidenceVote =
  EvType :: u8
  EvHeight :: u64
  EvRound :: u32
  EvBlockHash :: bytes32
  EvValidatorPK :: bytes32
  EvSig :: bytes64

definition deserializeEvidenceVote :: "bytes \<Rightarrow> evidenceVote res" where
  "deserializeEvidenceVote data =
     rguard (length data \<noteq> 141) canonErr
     (Inr \<lparr>EvType = data ! 0, EvHeight = Uint64 (drop 1 data), EvRound = Uint32 (drop 9 data),
           EvBlockHash = to32 (drop 13 data), EvValidatorPK = to32 (drop 45 data), EvSig = to64 (drop 77 data)\<rparr>)"

definition evidenceSignBytes :: "evidenceVote \<Rightarrow> bytes \<Rightarrow> bytes" where
  "evidenceSignBytes v chainID =
     str ''FRG_VOTE_V1'' @ [0] @ PutUint16 (of_nat (length chainID)) @ chainID @ [EvType v]
       @ PutUint64 (EvHeight v) @ PutUint32 (EvRound v) @ arr32 (EvBlockHash v)"

definition verifyEvidenceVote :: "crypto \<Rightarrow> evidenceVote \<Rightarrow> bytes \<Rightarrow> bool" where
  "verifyEvidenceVote C v chainID =
     (if EvType v \<noteq> 1 \<and> EvType v \<noteq> 2 then False
      else let chainID = (if chainID = [] then DefaultChainID else chainID) in
        Verify C (EvValidatorPK v) (evidenceSignBytes v chainID) (EvSig v))"

definition validateZeroValueTx :: "Tx \<Rightarrow> unit res" where
  "validateZeroValueTx t = rguard (Value t \<noteq> Some 0) canonErr (Inr ())"

definition noMissFields :: "Tx \<Rightarrow> bool" where
  "noMissFields t \<longleftrightarrow> MissedHeight t = 0 \<and> MissedProposer t = 0 \<and> SkipIndex t = 0"

definition validateBondTx :: "Tx \<Rightarrow> unit res" where
  "validateBondTx t =
     rguard (Value t = None \<or> the (Value t) \<le> 0) canonErr
     (rguard (ReceiverPubKey t \<noteq> SenderPubKey t) canonErr
     (rguard (\<not> noMissFields t) canonErr (Inr ())))"

definition validateZeroValueSelfTx :: "Tx \<Rightarrow> unit res" where
  "validateZeroValueSelfTx t =
     rbind (validateZeroValueTx t) (\<lambda>_.
     rguard (ReceiverPubKey t \<noteq> 0 \<and> ReceiverPubKey t \<noteq> SenderPubKey t) canonErr
     (rguard (\<not> noMissFields t) canonErr
     (rguard (WasmBytes t \<noteq> [] \<or> InitArgs t \<noteq> [] \<or> CallData t \<noteq> [] \<or> EvidenceA t \<noteq> [] \<or> EvidenceB t \<noteq> []) canonErr
      (Inr ()))))"

definition validateEquivocationEvidenceTx :: "crypto \<Rightarrow> Tx \<Rightarrow> bytes \<Rightarrow> bytes32 res" where
  "validateEquivocationEvidenceTx C t chainID =
     rguard (\<not> noMissFields t) canonErr
     (rguard (WasmBytes t \<noteq> [] \<or> InitArgs t \<noteq> [] \<or> CallData t \<noteq> []) canonErr
     (rbind (deserializeEvidenceVote (EvidenceA t)) (\<lambda>a.
      rbind (deserializeEvidenceVote (EvidenceB t)) (\<lambda>b.
      rguard (\<not> verifyEvidenceVote C a chainID \<or> \<not> verifyEvidenceVote C b chainID) (RGError ErrInvalidSignature)
      (rguard (EvValidatorPK a \<noteq> EvValidatorPK b) canonErr
      (rguard (EvType a \<noteq> EvType b \<or> EvHeight a \<noteq> EvHeight b \<or> EvRound a \<noteq> EvRound b) canonErr
      (rguard (EvBlockHash a = EvBlockHash b) canonErr
      (rguard (EvBlockHash a = 0 \<or> EvBlockHash b = 0) canonErr
      (Inr (EvValidatorPK a))))))))))"

definition validateMissEvidenceTx :: "crypto \<Rightarrow> Tx \<Rightarrow> u64 \<Rightarrow> bytes32 \<Rightarrow> bytes32 list \<Rightarrow> unit res" where
  "validateMissEvidenceTx C t blockHeight prevStateRoot vals =
     rguard (Value t \<noteq> Some 0) canonErr
     (rguard (MissedHeight t \<noteq> blockHeight) canonErr
     (rguard (ReceiverPubKey t \<noteq> MissedProposer t) canonErr
     (rguard (SkipIndex t = - 1) canonErr
     (rbind (SkipProposer C prevStateRoot blockHeight vals (SkipIndex t)) (\<lambda>expectedMissed.
      rguard (MissedProposer t \<noteq> expectedMissed) (RGError ErrInvalidSignature)
      (rbind (SkipProposer C prevStateRoot blockHeight vals (SkipIndex t + 1)) (\<lambda>expectedReporter.
       rguard (SenderPubKey t \<noteq> expectedReporter) (RGError ErrInvalidSignature) (Inr ()))))))))"

definition missEvidenceKey :: "Tx \<Rightarrow> bytes" where
  "missEvidenceKey t = PutUint64 (MissedHeight t) @ PutUint32 (SkipIndex t) @ arr32 (MissedProposer t)"

definition verifyTxSigsParallel :: "crypto \<Rightarrow> Tx list \<Rightarrow> bytes \<Rightarrow> unit res" where
  "verifyTxSigsParallel C txs chainID = rfold (\<lambda>t _. VerifySigsForChain C chainID t) txs ()"

text \<open>The precheck of one transaction; its value is the validator named by equivocation evidence.\<close>

definition precheckTx :: "crypto \<Rightarrow> bytes \<Rightarrow> u64 \<Rightarrow> bytes32 \<Rightarrow> bytes32 list \<Rightarrow> Tx \<Rightarrow> bytes32 res" where
  "precheckTx C chainID blockHeight prevStateRoot vals t =
     (if Type t = TxTypeBond then rbind (validateBondTx t) (\<lambda>_. Inr 0)
      else if Type t = TxTypeUnbond \<or> Type t = TxTypeFinalizeUnbond \<or> Type t = TxTypeClaimRewards
        then rbind (validateZeroValueSelfTx t) (\<lambda>_. Inr 0)
      else if Type t = TxTypeEquivEvidence
        then rbind (validateZeroValueTx t) (\<lambda>_. validateEquivocationEvidenceTx C t chainID)
      else if Type t = TxTypeMissEvidence
        then rbind (validateMissEvidenceTx C t blockHeight prevStateRoot vals) (\<lambda>_. Inr 0)
      else Inr 0)"

definition precheckTxsParallel ::
  "crypto \<Rightarrow> Tx list \<Rightarrow> bytes \<Rightarrow> u64 \<Rightarrow> bytes32 \<Rightarrow> bytes32 list \<Rightarrow> bytes32 res list" where
  "precheckTxsParallel C txs chainID blockHeight prevStateRoot vals =
     map (precheckTx C chainID blockHeight prevStateRoot vals) txs"

fun checkMissEvidence :: "(Tx \<times> bytes32 res) list \<Rightarrow> bytes list \<Rightarrow> unit res" where
  "checkMissEvidence [] seen = Inr ()"
| "checkMissEvidence ((t, pre) # rest) seen =
     (if Type t = TxTypeMissEvidence then
        rbind pre (\<lambda>_.
        rguard (missEvidenceKey t \<in> set seen) canonErr
        (checkMissEvidence rest (missEvidenceKey t # seen)))
      else checkMissEvidence rest seen)"

definition isSequenceFault :: "goerr \<Rightarrow> bool" where
  "isSequenceFault e \<longleftrightarrow> e = RGError ErrSequenceFault"


section \<open>Applying a block\<close>

text \<open>What the loop over the transactions changes: balances, nonces and bonds, contract code and state, the
  touched contracts in order of first touch, the fuel of contract transactions by index, and the slashed
  amount.\<close>

record ExecState =
  exStake :: StakeDB
  exContracts :: ContractDB
  touched :: "bytes32 list"
  txFuels :: "(nat \<times> u64) list"
  totalSlashed :: int

definition currentBaseFee :: "StateDB \<Rightarrow> int" where
  "currentBaseFee db = (case bget (meta db) baseFeeKey of None \<Rightarrow> BaseFee None 0 | Some v \<Rightarrow> be_val v)"

definition contractGasLimit :: "LedgerDB \<Rightarrow> bytes32 \<Rightarrow> int \<Rightarrow> u64 res" where
  "contractGasLimit l sender baseFee =
     (if baseFee \<le> 0 then Inr 0
      else let affordableGas = BalanceOfTx l sender div baseFee in
        rguard (affordableGas \<le> 1) (RGError ErrInsufficientFunds)
        (if affordableGas \<ge> 2 ^ 64 then Inr (- 1) else Inr (word_of_int affordableGas - 1)))"

definition supplyAndStaked :: "StateDB \<Rightarrow> (bytes32 list \<times> int list \<times> int \<times> int \<times> bool) res" where
  "supplyAndStaked db =
     rbind (BondedAmounts (stake db)) (\<lambda>(vals, amounts).
      let (totalSupply, tracked) = CurrentTotalSupply db in
      Inr (vals, amounts, (if tracked then totalSupply else 0), sum_list amounts, tracked))"

text \<open>Consume the sender's nonce and continue, or skip the transaction on a sequence fault.\<close>

definition withNonce :: "Tx \<Rightarrow> ExecState \<Rightarrow> (ExecState \<Rightarrow> ExecState res) \<Rightarrow> ExecState res" where
  "withNonce t st k =
     (case AdvanceNonceTx (ledger (exStake st)) (SenderPubKey t) (Nonce t) of
        Inl e \<Rightarrow> if isSequenceFault e then Inr st else Inl e
      | Inr l \<Rightarrow> k (st\<lparr>exStake := (exStake st)\<lparr>ledger := l\<rparr>\<rparr>))"

definition touch :: "bytes32 \<Rightarrow> ExecState \<Rightarrow> ExecState" where
  "touch addr st = st\<lparr>touched := (if addr \<in> set (touched st) then touched st else touched st @ [addr])\<rparr>"

definition setExecLedger :: "ExecState \<Rightarrow> ContractDB \<Rightarrow> LedgerDB \<Rightarrow> ExecState" where
  "setExecLedger st cdb l = st\<lparr>exStake := (exStake st)\<lparr>ledger := l\<rparr>, exContracts := cdb\<rparr>"

definition applyDeploy ::
  "crypto \<Rightarrow> wasmtime \<Rightarrow> bn254 \<Rightarrow> u64 \<Rightarrow> int \<Rightarrow> nat \<Rightarrow> Tx \<Rightarrow> ExecState \<Rightarrow> ExecState res" where
  "applyDeploy C W B height baseFee i t st =
     rbind (contractGasLimit (ledger (exStake st)) (SenderPubKey t) baseFee) (\<lambda>gasLimit.
      case Deploy C W B (exContracts st) (ledger (exStake st)) t height gasLimit of
        (_, _, Inl e) \<Rightarrow> Inl e
      | (cdb, l, Inr (_, fuelUsed)) \<Rightarrow>
          Inr (touch (ContractAddr C (SenderPubKey t) (Nonce t))
                ((setExecLedger st cdb l)\<lparr>txFuels := (i, fuelUsed) # txFuels st\<rparr>)))"

definition applyCall ::
  "crypto \<Rightarrow> wasmtime \<Rightarrow> bn254 \<Rightarrow> u64 \<Rightarrow> int \<Rightarrow> nat \<Rightarrow> Tx \<Rightarrow> ExecState \<Rightarrow> ExecState res" where
  "applyCall C W B height baseFee i t st =
     rbind (contractGasLimit (ledger (exStake st)) (SenderPubKey t) baseFee) (\<lambda>gasLimit.
      case Call C W B (exContracts st) (ledger (exStake st)) t height gasLimit of
        (cdb, l, Inl e) \<Rightarrow> if e = ErrFunctionNotFound then Inr (setExecLedger st cdb l) else Inl e
      | (cdb, l, Inr (_, fuelUsed)) \<Rightarrow>
          Inr (touch (ReceiverPubKey t)
                ((setExecLedger st cdb l)\<lparr>txFuels := (i, fuelUsed) # txFuels st\<rparr>)))"

definition onStake :: "ExecState \<Rightarrow> StakeDB res \<Rightarrow> ExecState res" where
  "onStake st r = rbind r (\<lambda>s. Inr (st\<lparr>exStake := s\<rparr>))"

definition applyTx ::
  "crypto \<Rightarrow> wasmtime \<Rightarrow> bn254 \<Rightarrow> u64 \<Rightarrow> int \<Rightarrow> nat \<times> Tx \<times> bytes32 res \<Rightarrow> ExecState \<Rightarrow> ExecState res" where
  "applyTx C W B height baseFee itp st = (case itp of (i, t, pre) \<Rightarrow>
     if Type t = TxTypeTransfer then
       (case TransferTx (ledger (exStake st)) t of
          Inl e \<Rightarrow> if isSequenceFault e then Inr st else Inl e
        | Inr l \<Rightarrow> Inr (st\<lparr>exStake := (exStake st)\<lparr>ledger := l\<rparr>\<rparr>))
     else if Type t = TxTypeContractDeploy then withNonce t st (applyDeploy C W B height baseFee i t)
     else if Type t = TxTypeContractCall then withNonce t st (applyCall C W B height baseFee i t)
     else if Type t = TxTypeMissEvidence then withNonce t st Inr
     else if Type t = TxTypeBond then
       rbind pre (\<lambda>_. withNonce t st (\<lambda>st. onStake st (BondTx C (exStake st) (SenderPubKey t) (Value t) height)))
     else if Type t = TxTypeUnbond then
       rbind pre (\<lambda>_. withNonce t st (\<lambda>st. onStake st (UnbondTx (exStake st) (SenderPubKey t) height)))
     else if Type t = TxTypeFinalizeUnbond then
       rbind pre (\<lambda>_. withNonce t st (\<lambda>st. onStake st (FinalizeTx C (exStake st) (SenderPubKey t) height)))
     else if Type t = TxTypeClaimRewards then
       rbind pre (\<lambda>_. withNonce t st (\<lambda>st. onStake st (onLedger (exStake st)
         (ClaimTx C (ledger (exStake st)) (SenderPubKey t)))))
     else if Type t = TxTypeEquivEvidence then
       rbind pre (\<lambda>equivValidator. withNonce t st (\<lambda>st.
         rbind (SlashTx C (exStake st) equivValidator) (\<lambda>(s, slashAmt).
          Inr (st\<lparr>exStake := s, totalSlashed := totalSlashed st + slashAmt\<rparr>))))
     else Inr st)"

definition contractNode :: "crypto \<Rightarrow> ContractDB \<Rightarrow> LedgerDB \<Rightarrow> bytes32 \<Rightarrow> RGNode res" where
  "contractNode C cdb l addr =
     (let stateRoot = LoadStateRoot C cdb addr; bal = BalanceOfTx l addr in
      rbind (Uint256ToBytes (Some bal)) (\<lambda>volume.
      rbind (Uint256ToBytes (Some (bal * bal))) (\<lambda>sumSquares.
      Inr \<lparr>Scale = 1, Volume = volume, Variance = 0, Sig = SigAtomic, Children = [stateRoot],
           SumSquares = sumSquares, Count = 1, ContractCount = 1\<rparr>)))"

definition gasUnitsOf :: "(nat \<times> u64) list \<Rightarrow> nat \<Rightarrow> u64" where
  "gasUnitsOf fuels i = 1 + (case map_of fuels i of None \<Rightarrow> 0 | Some fuelUsed \<Rightarrow> fuelUsed div FuelUnitsPerGas)"

definition chargeTx :: "int \<Rightarrow> (nat \<times> u64) list \<Rightarrow> nat \<times> Tx \<Rightarrow> LedgerDB \<times> u64 \<Rightarrow> (LedgerDB \<times> u64) res" where
  "chargeTx baseFee fuels it lg = (case it of (i, t) \<Rightarrow> case lg of (l, totalGas) \<Rightarrow>
     if baseFee = 0 then Inr (l, totalGas)
     else let gasUnits = gasUnitsOf fuels i; fee = baseFee * uint gasUnits in
       rbind (BurnTx l (SenderPubKey t) fee) (\<lambda>l. Inr (l, totalGas + gasUnits)))"

definition applyMiss :: "crypto \<Rightarrow> Tx \<Rightarrow> StakeDB \<times> int \<Rightarrow> (StakeDB \<times> int) res" where
  "applyMiss C t ss = (case ss of (s, slashTotal) \<Rightarrow>
     if Type t = TxTypeMissEvidence then
       rbind (RecordMissTx s (MissedProposer t)) (\<lambda>(s, _, slashAmt).
       if slashAmt > 0 then
         rbind (onLedger s (BurnTx (ledger s) (EscrowAccount C (MissedProposer t)) slashAmt)) (\<lambda>s.
         Inr (s, slashTotal + slashAmt))
       else Inr (s, slashTotal))
     else Inr (s, slashTotal))"

definition creditShare :: "crypto \<Rightarrow> bytes32 \<times> int \<Rightarrow> LedgerDB \<Rightarrow> LedgerDB res" where
  "creditShare C vs l = (case vs of (v, share) \<Rightarrow>
     if share = 0 then Inr l else CreditTx l (FeeAccount C v) share)"

record Result =
  ResStateRoot :: bytes32
  ResHeight :: u64
  TxsApplied :: nat
  GasBurned :: int
  MintAmount :: int

definition persistBlock ::
  "crypto \<Rightarrow> json \<Rightarrow> StateDB \<Rightarrow> Block \<Rightarrow> Tree \<Rightarrow> bytes32 \<Rightarrow> int \<Rightarrow> u64 \<Rightarrow> bool \<Rightarrow> int \<Rightarrow> StateDB res" where
  "persistBlock C J db b rgTree stateRoot baseFee totalGas supplyTracked nextSupply =
     (let m = bput (meta db) heightKey (PutUint64 (Height b));
          m = bput m stateRootKey (arr32 stateRoot);
          m = bput m baseFeeKey (nat_bytes (BaseFee (Some baseFee) totalGas));
          db = db\<lparr>meta := m\<rparr> in
      rbind (if supplyTracked then SetTotalSupplyTx db nextSupply else Inr db) (\<lambda>db.
      rguard (BlockStateRoot b \<noteq> 0 \<and> BlockStateRoot b \<noteq> stateRoot) (RGError ErrRootMismatch)
      (let b = b\<lparr>BlockStateRoot := stateRoot\<rparr> in
       rbind (buildBlockTelemetryFromTree b rgTree True) (\<lambda>telemetry.
       rbind (putBlockTelemetryTx J (block_telemetry db) telemetry) (\<lambda>tel.
       rbind (putBlockTx C (blocks db) b) (\<lambda>bs.
       Inr (db\<lparr>block_telemetry := tel, blocks := bs\<rparr>)))))))"

definition applyBody ::
  "crypto \<Rightarrow> wasmtime \<Rightarrow> bn254 \<Rightarrow> json \<Rightarrow> (bytes32 list \<Rightarrow> bytes32 list) \<Rightarrow> StateDB \<Rightarrow> Block \<Rightarrow> int \<Rightarrow>
   bytes32 list \<Rightarrow> int \<Rightarrow> bool \<Rightarrow> int \<Rightarrow> int list \<Rightarrow> bytes32 res list \<Rightarrow> (StateDB \<times> Result) res" where
  "applyBody C W B J iter db b baseFee vals totalSupply supplyTracked mintAmount mintShares precheck =
     (let txs = Txs b; idx = [0..<length txs];
          st = \<lparr>exStake = stake db, exContracts = contracts db, touched = [], txFuels = [], totalSlashed = 0\<rparr> in
      rbind (rfold (applyTx C W B (Height b) baseFee) (zip idx (zip txs precheck)) st) (\<lambda>st.
      rbind (rmap (contractNode C (exContracts st) (ledger (exStake st))) (iter (touched st))) (\<lambda>contractNodes.
      rbind (BuildTree C txs contractNodes) (\<lambda>rgTree.
      let stateRoot = snd (treeRoot C rgTree) in
      rbind (rfold (chargeTx baseFee (txFuels st)) (zip idx txs) (ledger (exStake st), 0)) (\<lambda>(l, totalGas).
      rbind (rfold (applyMiss C) txs ((exStake st)\<lparr>ledger := l\<rparr>, totalSlashed st)) (\<lambda>(s, slashTotal).
      rbind (rfold (creditShare C) (zip vals mintShares) (ledger s)) (\<lambda>l.
      let gasBurned = baseFee * uint totalGas in
      rbind (persistBlock C J (db\<lparr>stake := s\<lparr>ledger := l\<rparr>, contracts := exContracts st\<rparr>) b rgTree stateRoot
               baseFee totalGas supplyTracked (totalSupply - gasBurned - slashTotal + mintAmount)) (\<lambda>db.
      Inr (db, \<lparr>ResStateRoot = stateRoot, ResHeight = Height b, TxsApplied = length txs, GasBurned = gasBurned,
                MintAmount = mintAmount\<rparr>)))))))))"

definition ApplyBlockForChain ::
  "crypto \<Rightarrow> wasmtime \<Rightarrow> bn254 \<Rightarrow> json \<Rightarrow> (bytes32 list \<Rightarrow> bytes32 list) \<Rightarrow> StateDB \<Rightarrow> Block \<Rightarrow> bytes \<Rightarrow>
   (StateDB \<times> Result) res" where
  "ApplyBlockForChain C W B J iter db b chainID =
     rbind (CurrentHeight db) (\<lambda>cur.
     rguard (Height b \<noteq> cur + 1) (RGError ErrBlockHeightSequenceFault)
     (let previousRoot = CurrentStateRoot db in
      rguard (PrevStateRoot b \<noteq> 0 \<and> previousRoot \<noteq> PrevStateRoot b) (RGError ErrBlockHeightSequenceFault)
      (rbind (verifyTxSigsParallel C (Txs b) chainID) (\<lambda>_.
       let baseFee = currentBaseFee db in
       rbind (supplyAndStaked db) (\<lambda>(vals, _, totalSupply, totalStaked, supplyTracked).
       let precheck = precheckTxsParallel C (Txs b) chainID (Height b) previousRoot vals in
       rbind (checkMissEvidence (zip (Txs b) precheck) []) (\<lambda>_.
       let mintAmount = (if vals = [] then 0 else MintPerBlock (Some totalSupply) (Some totalStaked));
           mintShares = SplitReward (Some mintAmount) (length vals) in
       applyBody C W B J iter db b baseFee vals totalSupply supplyTracked mintAmount mintShares precheck))))))"

definition ApplyBlock ::
  "crypto \<Rightarrow> wasmtime \<Rightarrow> bn254 \<Rightarrow> json \<Rightarrow> (bytes32 list \<Rightarrow> bytes32 list) \<Rightarrow> StateDB \<Rightarrow> Block \<Rightarrow>
   (StateDB \<times> Result) res" where
  "ApplyBlock C W B J iter db b = ApplyBlockForChain C W B J iter db b DefaultChainID"


section \<open>The stages of a block\<close>

definition startState :: "StateDB \<Rightarrow> ExecState" where
  "startState db = \<lparr>exStake = stake db, exContracts = contracts db, touched = [], txFuels = [], totalSlashed = 0\<rparr>"

definition indexed :: "'a list \<Rightarrow> (nat \<times> 'a) list" where
  "indexed xs = zip [0..<length xs] xs"

text \<open>A successful application of the block body, stage by stage.\<close>

definition bodyStages ::
  "crypto \<Rightarrow> wasmtime \<Rightarrow> bn254 \<Rightarrow> json \<Rightarrow> (bytes32 list \<Rightarrow> bytes32 list) \<Rightarrow> StateDB \<Rightarrow> Block \<Rightarrow> int \<Rightarrow> bytes32 list \<Rightarrow>
   int \<Rightarrow> bool \<Rightarrow> int \<Rightarrow> int list \<Rightarrow> bytes32 res list \<Rightarrow> ExecState \<Rightarrow> RGNode list \<Rightarrow> Tree \<Rightarrow> LedgerDB \<Rightarrow> u64 \<Rightarrow>
   StakeDB \<Rightarrow> int \<Rightarrow> LedgerDB \<Rightarrow> StateDB \<Rightarrow> Result \<Rightarrow> bool" where
  "bodyStages C W B J iter db b fee vals supplyIn tracked mintAmt shares pre st nodes tr l1 gas s2 slash l3 db' res \<longleftrightarrow>
     rfold (applyTx C W B (Height b) fee) (zip [0..<length (Txs b)] (zip (Txs b) pre)) (startState db) = Inr st \<and>
     rmap (contractNode C (exContracts st) (ledger (exStake st))) (iter (touched st)) = Inr nodes \<and>
     BuildTree C (Txs b) nodes = Inr tr \<and>
     rfold (chargeTx fee (txFuels st)) (indexed (Txs b)) (ledger (exStake st), 0) = Inr (l1, gas) \<and>
     rfold (applyMiss C) (Txs b) ((exStake st)\<lparr>ledger := l1\<rparr>, totalSlashed st) = Inr (s2, slash) \<and>
     rfold (creditShare C) (zip vals shares) (ledger s2) = Inr l3 \<and>
     persistBlock C J (db\<lparr>stake := s2\<lparr>ledger := l3\<rparr>, contracts := exContracts st\<rparr>) b tr (snd (treeRoot C tr))
       fee gas tracked (supplyIn - fee * uint gas - slash + mintAmt) = Inr db' \<and>
     res = \<lparr>ResStateRoot = snd (treeRoot C tr), ResHeight = Height b, TxsApplied = length (Txs b),
            GasBurned = fee * uint gas, MintAmount = mintAmt\<rparr>"

lemma applyBody_Inr:
  assumes "applyBody C W B J iter db b fee vals supplyIn tracked mintAmt shares pre = Inr (db', res)"
  obtains st nodes tr l1 gas s2 slash l3 where
    "bodyStages C W B J iter db b fee vals supplyIn tracked mintAmt shares pre st nodes tr l1 gas s2 slash l3 db' res"
proof -
  from assms obtain st where st: "rfold (applyTx C W B (Height b) fee) (zip [0..<length (Txs b)] (zip (Txs b) pre)) (startState db) = Inr st"
    unfolding applyBody_def Let_def startState_def rbind_Inr_iff by blast
  note a1 = assms[unfolded applyBody_def Let_def startState_def[symmetric] st rbind_simps]
  from a1 obtain nodes where nodes: "rmap (contractNode C (exContracts st) (ledger (exStake st))) (iter (touched st)) = Inr nodes"
    unfolding rbind_Inr_iff by blast
  note a2 = a1[unfolded nodes rbind_simps]
  from a2 obtain tr where tr: "BuildTree C (Txs b) nodes = Inr tr" unfolding rbind_Inr_iff by blast
  note a3 = a2[unfolded tr rbind_simps]
  from a3 obtain l1 gas where ch: "rfold (chargeTx fee (txFuels st)) (indexed (Txs b)) (ledger (exStake st), 0) = Inr (l1, gas)"
    unfolding rbind_Inr_iff indexed_def by (metis prod.collapse)
  note a4 = a3[folded indexed_def, unfolded ch rbind_simps prod.case]
  from a4 obtain s2 slash where mi: "rfold (applyMiss C) (Txs b) ((exStake st)\<lparr>ledger := l1\<rparr>, totalSlashed st) = Inr (s2, slash)"
    unfolding rbind_Inr_iff by (metis prod.collapse)
  note a5 = a4[unfolded mi rbind_simps prod.case]
  from a5 obtain l3 where cr: "rfold (creditShare C) (zip vals shares) (ledger s2) = Inr l3" unfolding rbind_Inr_iff by blast
  note a6 = a5[unfolded cr rbind_simps]
  from a6 show thesis
    using st nodes tr ch mi cr by (intro that) (auto simp: bodyStages_def rbind_Inr_iff)
qed

lemma ApplyBlock_Inr:
  assumes "ApplyBlockForChain C W B J iter db b chainID = Inr (db', res)"
  obtains vals amts supplyIn tracked mintAmt pre where
    "CurrentHeight db = Inr (Height b - 1)" "PrevStateRoot b = 0 \<or> PrevStateRoot b = CurrentStateRoot db"
    "verifyTxSigsParallel C (Txs b) chainID = Inr ()" "BondedAmounts (stake db) = Inr (vals, amts)"
    "CurrentTotalSupply db = (supplyIn, tracked)"
    "pre = precheckTxsParallel C (Txs b) chainID (Height b) (CurrentStateRoot db) vals"
    "checkMissEvidence (zip (Txs b) pre) [] = Inr ()"
    "mintAmt = (if vals = [] then 0 else MintPerBlock (Some (if tracked then supplyIn else 0)) (Some (sum_list amts)))"
    "applyBody C W B J iter db b (currentBaseFee db) vals (if tracked then supplyIn else 0) tracked mintAmt
       (SplitReward (Some mintAmt) (length vals)) pre = Inr (db', res)"
proof -
  note a0 = assms[unfolded ApplyBlockForChain_def Let_def rbind_Inr_iff rguard_Inr_iff]
  from a0 obtain cur where h: "CurrentHeight db = Inr cur" "Height b = cur + 1"
    and p: "PrevStateRoot b = 0 \<or> PrevStateRoot b = CurrentStateRoot db"
    and v: "verifyTxSigsParallel C (Txs b) chainID = Inr ()" by auto
  from a0 obtain x where x: "supplyAndStaked db = Inr x" by blast
  from x obtain vals amts where ba: "BondedAmounts (stake db) = Inr (vals, amts)"
    by (auto simp: supplyAndStaked_def rbind_Inr_iff)
  obtain supplyIn tracked where ts: "CurrentTotalSupply db = (supplyIn, tracked)" by fastforce
  have x': "supplyAndStaked db = Inr (vals, amts, if tracked then supplyIn else 0, sum_list amts, tracked)"
    by (simp add: supplyAndStaked_def ba ts)
  from h have h': "CurrentHeight db = Inr (Height b - 1)" by simp
  show thesis
    using a0 by (intro that[OF h' p v ba ts refl _ refl]) (auto simp: x' rbind_Inr_iff)
qed


section \<open>The metadata of a block\<close>

lemmas key_defs = heightKey_def stateRootKey_def baseFeeKey_def genesisAppliedKey_def consensusVotePrefix_def
  consensusStateKey_def totalSupplyKey_def

lemma keys_distinct [simp]:
  "heightKey \<noteq> stateRootKey" "heightKey \<noteq> baseFeeKey" "heightKey \<noteq> totalSupplyKey" "heightKey \<noteq> genesisAppliedKey"
  "stateRootKey \<noteq> baseFeeKey" "stateRootKey \<noteq> totalSupplyKey" "stateRootKey \<noteq> genesisAppliedKey"
  "baseFeeKey \<noteq> totalSupplyKey" "baseFeeKey \<noteq> genesisAppliedKey" "totalSupplyKey \<noteq> genesisAppliedKey"
  "stateRootKey \<noteq> heightKey" "baseFeeKey \<noteq> heightKey" "totalSupplyKey \<noteq> heightKey" "genesisAppliedKey \<noteq> heightKey"
  "baseFeeKey \<noteq> stateRootKey" "totalSupplyKey \<noteq> stateRootKey" "genesisAppliedKey \<noteq> stateRootKey"
  "totalSupplyKey \<noteq> baseFeeKey" "genesisAppliedKey \<noteq> baseFeeKey" "genesisAppliedKey \<noteq> totalSupplyKey"
  by (simp_all add: key_defs str_def)

lemma voteKey_distinct [simp]:
  "consensusVoteKey h r t \<noteq> heightKey" "consensusVoteKey h r t \<noteq> stateRootKey" "consensusVoteKey h r t \<noteq> baseFeeKey"
  "consensusVoteKey h r t \<noteq> totalSupplyKey" "consensusVoteKey h r t \<noteq> genesisAppliedKey" "consensusVoteKey h r t \<noteq> consensusStateKey"
  by (simp_all add: consensusVoteKey_def key_defs str_def)

lemma consensusVoteKey_inject: "consensusVoteKey h r t = consensusVoteKey h' r' t' \<longleftrightarrow> h = h' \<and> r = r' \<and> t = t'"
  by (auto simp: consensusVoteKey_def append_eq_append_conv)

definition metaAfter ::
  "(bytes, bytes) bucket \<Rightarrow> u64 \<Rightarrow> bytes32 \<Rightarrow> int \<Rightarrow> bool \<Rightarrow> int \<Rightarrow> (bytes, bytes) bucket" where
  "metaAfter m h root fee tracked supplyOut =
     (let m = bput (bput (bput m heightKey (PutUint64 h)) stateRootKey (arr32 root)) baseFeeKey (nat_bytes fee) in
      if tracked then bput m totalSupplyKey (nat_bytes supplyOut) else m)"

lemma persistBlock_Inr:
  assumes "persistBlock C J db b tr root fee gas tracked supplyOut = Inr db'"
  obtains d where "serializeBlock C (b\<lparr>BlockStateRoot := root\<rparr>) = Inr d" "stake db' = stake db" "contracts db' = contracts db"
    "blocks db' = bput (blocks db) (blockKey (Height b)) d" "BlockStateRoot b = 0 \<or> BlockStateRoot b = root"
    "tracked \<longrightarrow> 0 \<le> supplyOut" "meta db' = metaAfter (meta db) (Height b) root (BaseFee (Some fee) gas) tracked supplyOut"
proof -
  let ?m = "bput (bput (bput (meta db) heightKey (PutUint64 (Height b))) stateRootKey (arr32 root)) baseFeeKey
      (nat_bytes (BaseFee (Some fee) gas))"
  let ?db = "db\<lparr>meta := ?m\<rparr>"
  note a0 = assms[unfolded persistBlock_def Let_def]
  from a0 obtain db1 where db1: "(if tracked then SetTotalSupplyTx ?db supplyOut else Inr ?db) = Inr db1"
    unfolding rbind_Inr_iff by blast
  have d1: "db1 = db\<lparr>meta := metaAfter (meta db) (Height b) root (BaseFee (Some fee) gas) tracked supplyOut\<rparr>"
    "tracked \<longrightarrow> 0 \<le> supplyOut"
    using db1 by (auto simp: SetTotalSupplyTx_def rguard_Inr_iff metaAfter_def Let_def split: if_splits)
  note a1 = a0[unfolded db1 rbind_simps rguard_Inr_iff]
  then have root: "BlockStateRoot b = 0 \<or> BlockStateRoot b = root" by blast
  from a1 obtain bs tel where bs: "putBlockTx C (blocks db1) (b\<lparr>BlockStateRoot := root\<rparr>) = Inr bs"
      "db' = db1\<lparr>block_telemetry := tel, blocks := bs\<rparr>"
    by (auto simp: rbind_Inr_iff)
  from bs(1) obtain d where d: "serializeBlock C (b\<lparr>BlockStateRoot := root\<rparr>) = Inr d" "bs = bput (blocks db1) (blockKey (Height b)) d"
    by (auto simp: putBlockTx_def rbind_Inr_iff)
  show thesis by (rule that[OF d(1)]) (use d(2) bs(2) d1 root in simp_all)
qed

lemma BaseFee_pos: "1 \<le> BaseFee p g"
  using BaseFee_min by blast

lemma metaAfter_reads:
  "bget (metaAfter m h root fee tracked s) heightKey = Some (PutUint64 h)"
  "bget (metaAfter m h root fee tracked s) stateRootKey = Some (arr32 root)"
  "bget (metaAfter m h root fee tracked s) baseFeeKey = Some (nat_bytes fee)"
  "bget (metaAfter m h root fee tracked s) totalSupplyKey = (if tracked then Some (nat_bytes s) else bget m totalSupplyKey)"
  "k \<notin> {heightKey, stateRootKey, baseFeeKey, totalSupplyKey} \<Longrightarrow> bget (metaAfter m h root fee tracked s) k = bget m k"
  by (auto simp: metaAfter_def Let_def bget_bput)

lemma blockKey_inject [simp]: "blockKey h = blockKey h' \<longleftrightarrow> h = h'"
  by (simp add: blockKey_def)

lemma ApplyBlock_outcome:
  assumes "ApplyBlockForChain C W B J iter db b chainID = Inr (db', res)"
  obtains vals amts supplyIn tracked mintAmt pre st nodes tr l1 gas s2 slash l3 d where
    "CurrentHeight db = Inr (Height b - 1)" "PrevStateRoot b = 0 \<or> PrevStateRoot b = CurrentStateRoot db"
    "BondedAmounts (stake db) = Inr (vals, amts)" "CurrentTotalSupply db = (supplyIn, tracked)"
    "mintAmt = (if vals = [] then 0 else MintPerBlock (Some (if tracked then supplyIn else 0)) (Some (sum_list amts)))"
    "bodyStages C W B J iter db b (currentBaseFee db) vals (if tracked then supplyIn else 0) tracked mintAmt
       (SplitReward (Some mintAmt) (length vals)) pre st nodes tr l1 gas s2 slash l3 db' res"
    "stake db' = s2\<lparr>ledger := l3\<rparr>" "contracts db' = exContracts st"
    "blocks db' = bput (blocks db) (blockKey (Height b)) d"
    "serializeBlock C (b\<lparr>BlockStateRoot := ResStateRoot res\<rparr>) = Inr d"
    "BlockStateRoot b = 0 \<or> BlockStateRoot b = ResStateRoot res"
    "meta db' = metaAfter (meta db) (Height b) (ResStateRoot res) (BaseFee (Some (currentBaseFee db)) gas) tracked
       ((if tracked then supplyIn else 0) - currentBaseFee db * uint gas - slash + mintAmt)"
    "tracked \<longrightarrow> 0 \<le> supplyIn - currentBaseFee db * uint gas - slash + mintAmt"
    "pre = precheckTxsParallel C (Txs b) chainID (Height b) (CurrentStateRoot db) vals"
proof -
  obtain vals amts supplyIn tracked mintAmt pre where 1: "CurrentHeight db = Inr (Height b - 1)"
    "PrevStateRoot b = 0 \<or> PrevStateRoot b = CurrentStateRoot db"
    "verifyTxSigsParallel C (Txs b) chainID = Inr ()" "BondedAmounts (stake db) = Inr (vals, amts)"
    "CurrentTotalSupply db = (supplyIn, tracked)"
    "pre = precheckTxsParallel C (Txs b) chainID (Height b) (CurrentStateRoot db) vals"
    "checkMissEvidence (zip (Txs b) pre) [] = Inr ()"
    "mintAmt = (if vals = [] then 0 else MintPerBlock (Some (if tracked then supplyIn else 0)) (Some (sum_list amts)))"
    and body: "applyBody C W B J iter db b (currentBaseFee db) vals (if tracked then supplyIn else 0) tracked mintAmt
       (SplitReward (Some mintAmt) (length vals)) pre = Inr (db', res)"
    using ApplyBlock_Inr[OF assms] .
  obtain st nodes tr l1 gas s2 slash l3 where
    s: "bodyStages C W B J iter db b (currentBaseFee db) vals (if tracked then supplyIn else 0) tracked mintAmt
       (SplitReward (Some mintAmt) (length vals)) pre st nodes tr l1 gas s2 slash l3 db' res"
    using applyBody_Inr[OF body] .
  have root: "snd (treeRoot C tr) = ResStateRoot res" using s by (simp add: bodyStages_def)
  have p: "persistBlock C J (db\<lparr>stake := s2\<lparr>ledger := l3\<rparr>, contracts := exContracts st\<rparr>) b tr (ResStateRoot res)
       (currentBaseFee db) gas tracked ((if tracked then supplyIn else 0) - currentBaseFee db * uint gas - slash + mintAmt) = Inr db'"
    using s by (simp add: bodyStages_def)
  show thesis
  proof (rule persistBlock_Inr[OF p])
    fix d
    assume "serializeBlock C (b\<lparr>BlockStateRoot := ResStateRoot res\<rparr>) = Inr d"
      "stake db' = stake (db\<lparr>stake := s2\<lparr>ledger := l3\<rparr>, contracts := exContracts st\<rparr>)"
      "contracts db' = contracts (db\<lparr>stake := s2\<lparr>ledger := l3\<rparr>, contracts := exContracts st\<rparr>)"
      "blocks db' = bput (blocks (db\<lparr>stake := s2\<lparr>ledger := l3\<rparr>, contracts := exContracts st\<rparr>)) (blockKey (Height b)) d"
      "BlockStateRoot b = 0 \<or> BlockStateRoot b = ResStateRoot res"
      "tracked \<longrightarrow> 0 \<le> (if tracked then supplyIn else 0) - currentBaseFee db * uint gas - slash + mintAmt"
      "meta db' = metaAfter (meta (db\<lparr>stake := s2\<lparr>ledger := l3\<rparr>, contracts := exContracts st\<rparr>)) (Height b) (ResStateRoot res)
         (BaseFee (Some (currentBaseFee db)) gas) tracked ((if tracked then supplyIn else 0) - currentBaseFee db * uint gas - slash + mintAmt)"
    then show thesis using 1(1,2,4,5,6,8) s by (intro that[of vals amts supplyIn tracked mintAmt pre st nodes tr l1 gas s2 slash l3 d]) simp_all
  qed
qed

lemma CurrentHeight_after: "bget (meta db) heightKey = Some (PutUint64 h) \<Longrightarrow> CurrentHeight db = Inr h"
  by (simp add: CurrentHeight_def codec_simps)

lemma CurrentStateRoot_after: "bget (meta db) stateRootKey = Some (arr32 r) \<Longrightarrow> CurrentStateRoot db = r"
  by (simp add: CurrentStateRoot_def codec_simps)

end
