(* ===== verification/FRG_BlockLaws.thy ===== *)
theory FRG_BlockLaws
  imports FRG_StateMachine
begin

text \<open>What applying a block does to balances, supply, metadata and stored votes: the effect of each kind of
  transaction on the ledger, the stages of a block composed, and the properties of block application.\<close>

section \<open>What a transaction does to the ledger\<close>

text \<open>The accounts a transaction may debit.\<close>

definition mayDebit :: "crypto \<Rightarrow> Tx \<Rightarrow> bytes32 \<Rightarrow> bool" where
  "mayDebit C t a \<longleftrightarrow> a = SenderPubKey t \<or>
     (Type t = TxTypeContractDeploy \<and> a = ContractAddr C (SenderPubKey t) (Nonce t)) \<or>
     (Type t = TxTypeContractCall \<and> a = ReceiverPubKey t) \<or>
     (Type t = TxTypeFinalizeUnbond \<and> a = escrowAccount C (SenderPubKey t)) \<or>
     (Type t = TxTypeClaimRewards \<and> a = FeeAccount C (SenderPubKey t)) \<or>
     (Type t = TxTypeMissEvidence \<and> a = escrowAccount C (MissedProposer t)) \<or>
     (Type t = TxTypeEquivEvidence \<and>
       (\<exists>v. deserializeEvidenceVote (EvidenceA t) = Inr v \<and> a = escrowAccount C (EvValidatorPK v)))"

text \<open>Transactions that move value between two different accounts only.\<close>

definition plainTx :: "crypto \<Rightarrow> Tx \<Rightarrow> bool" where
  "plainTx C t \<longleftrightarrow> \<not> isContractTx t \<and> (Type t = TxTypeTransfer \<longrightarrow> SenderPubKey t \<noteq> ReceiverPubKey t) \<and>
     escrowAccount C (SenderPubKey t) \<noteq> SenderPubKey t \<and> FeeAccount C (SenderPubKey t) \<noteq> SenderPubKey t"

definition txEffect :: "crypto \<Rightarrow> Tx \<Rightarrow> ExecState \<Rightarrow> ExecState \<Rightarrow> bool" where
  "txEffect C t st st' \<longleftrightarrow> stake_ok (exStake st') \<and>
     (\<forall>a. \<not> mayDebit C t a \<longrightarrow> BalanceOfTx (ledger (exStake st)) a \<le> BalanceOfTx (ledger (exStake st')) a) \<and>
     (plainTx C t \<longrightarrow> supplyOf (ledger (exStake st')) + totalSlashed st' = supplyOf (ledger (exStake st)) + totalSlashed st \<and>
        txFuels st' = txFuels st)"

lemma txEffect_refl: "stake_ok (exStake st) \<Longrightarrow> txEffect C t st st"
  by (simp add: txEffect_def)

lemma withNonce_effect:
  assumes "stake_ok (exStake st)" "withNonce t st k = Inr st'"
    and "\<And>st1. stake_ok (exStake st1) \<Longrightarrow> k st1 = Inr st' \<Longrightarrow> txEffect C t st1 st'"
  shows "txEffect C t st st'"
proof -
  let ?l = "ledger (exStake st)"
  have ok: "ledger_ok ?l" using assms(1) by (simp add: stake_ok_def)
  show ?thesis
  proof (cases "Nonce t = nonceAt ?l (SenderPubKey t) + 1")
    case True
    define l where "l = ?l\<lparr>nonces := bput (nonces ?l) (SenderPubKey t) (PutUint64 (Nonce t))\<rparr>"
    let ?st = "st\<lparr>exStake := (exStake st)\<lparr>ledger := l\<rparr>\<rparr>"
    have adv: "AdvanceNonceTx ?l (SenderPubKey t) (Nonce t) = Inr l" using True by (simp add: AdvanceNonceTx_eq[OF ok] l_def)
    then have k: "k ?st = Inr st'" using assms(2) by (simp add: withNonce_def)
    have "ledger_ok l" using ledger_ok_nonce[OF ok] by (simp add: l_def)
    then have "stake_ok (exStake ?st)" using assms(1) by (simp add: stake_ok_ledger)
    from assms(3)[OF this k] show ?thesis
      by (simp add: txEffect_def l_def BalanceOfTx_def)
  next
    case False
    then have "st' = st" using assms(2) by (simp add: withNonce_def AdvanceNonceTx_eq[OF ok] isSequenceFault_def)
    then show ?thesis using assms(1) by (simp add: txEffect_refl)
  qed
qed

lemma move_effect:
  assumes "stake_ok s'" "moveAll (ledger (exStake st)) from to v = Inr (ledger s')" "ledger_ok (ledger (exStake st))"
    and "mayDebit C t from" "plainTx C t \<longrightarrow> from \<noteq> to"
  shows "txEffect C t st (st\<lparr>exStake := s'\<rparr>)"
  using moveAll_law[OF assms(3,2)] moveAll_range[OF assms(2)] assms by (auto simp: txEffect_def)

lemma slash_effect:
  assumes "stake_ok s'" "BurnTx (ledger (exStake st)) a v = Inr (ledger s')" "0 \<le> v" "ledger_ok (ledger (exStake st))"
    and "mayDebit C t a"
  shows "txEffect C t st (st\<lparr>exStake := s', totalSlashed := totalSlashed st + v\<rparr>)"
  using BurnTx_law[OF assms(4,3,2)] assms by (auto simp: txEffect_def)

lemma contract_effect:
  assumes "stake_ok (exStake st)" "ledgerFrame addr t (ledger (exStake st)) l'" "mayDebit C t addr" "isContractTx t"
    and "exStake st' = (exStake st)\<lparr>ledger := l'\<rparr>"
  shows "txEffect C t st st'"
proof -
  have "mayDebit C t (SenderPubKey t)" by (simp add: mayDebit_def)
  then have "BalanceOfTx (ledger (exStake st)) a \<le> BalanceOfTx l' a" if "\<not> mayDebit C t a" for a
    using that assms(2,3) by (metis ledgerFrame_def)
  moreover have "stake_ok (exStake st')"
    using assms(1,2,5) by (simp add: stake_ok_ledger ledgerFrame_def)
  ultimately show ?thesis using assms(4,5) by (simp add: txEffect_def plainTx_def)
qed

lemma ledger_ok_exec: "stake_ok (exStake st) \<Longrightarrow> ledger_ok (ledger (exStake st))"
  by (simp add: stake_ok_def)

lemma applyDeploy_effect:
  assumes "stake_ok (exStake st)" "applyDeploy C W B h fee i t st = Inr st'" "Type t = TxTypeContractDeploy"
  shows "txEffect C t st st'"
proof -
  from assms(2) obtain g where g: "(case Deploy C W B (exContracts st) (ledger (exStake st)) t h g of
        (_, _, Inl e) \<Rightarrow> Inl e
      | (cdb, l, Inr (_, fuelUsed)) \<Rightarrow>
          Inr (touch (ContractAddr C (SenderPubKey t) (Nonce t))
                ((setExecLedger st cdb l)\<lparr>txFuels := (i, fuelUsed) # txFuels st\<rparr>))) = Inr st'"
    by (auto simp: applyDeploy_def rbind_Inr_iff)
  obtain cdb l r where d: "Deploy C W B (exContracts st) (ledger (exStake st)) t h g = (cdb, l, r)"
    by (metis prod.exhaust)
  have st': "exStake st' = (exStake st)\<lparr>ledger := l\<rparr>"
    using g by (auto simp: d setExecLedger_def touch_def split: prod.splits sum.splits)
  show ?thesis
    by (rule contract_effect[OF assms(1) Deploy_cases(1)[OF d ledger_ok_exec[OF assms(1)]] _ _ st'])
      (simp_all add: mayDebit_def isContractTx_def assms(3))
qed

lemma applyCall_effect:
  assumes "stake_ok (exStake st)" "applyCall C W B h fee i t st = Inr st'" "Type t = TxTypeContractCall"
  shows "txEffect C t st st'"
proof -
  from assms(2) obtain g where g: "(case Call C W B (exContracts st) (ledger (exStake st)) t h g of
        (cdb, l, Inl e) \<Rightarrow> if e = ErrFunctionNotFound then Inr (setExecLedger st cdb l) else Inl e
      | (cdb, l, Inr (_, fuelUsed)) \<Rightarrow>
          Inr (touch (ReceiverPubKey t)
                ((setExecLedger st cdb l)\<lparr>txFuels := (i, fuelUsed) # txFuels st\<rparr>))) = Inr st'"
    by (auto simp: applyCall_def rbind_Inr_iff)
  obtain cdb l r where d: "Call C W B (exContracts st) (ledger (exStake st)) t h g = (cdb, l, r)"
    by (metis prod.exhaust)
  have st': "exStake st' = (exStake st)\<lparr>ledger := l\<rparr>"
    using g by (auto simp: d setExecLedger_def touch_def split: prod.splits sum.splits if_splits)
  show ?thesis
    by (rule contract_effect[OF assms(1) Call_cases(1)[OF d ledger_ok_exec[OF assms(1)]] _ _ st'])
      (simp_all add: mayDebit_def isContractTx_def assms(3))
qed

lemma transfer_effect:
  assumes "stake_ok (exStake st)" "TransferTx (ledger (exStake st)) t = Inr l" "Value t = Some v" "0 \<le> v" "Type t = TxTypeTransfer"
  shows "txEffect C t st (st\<lparr>exStake := (exStake st)\<lparr>ledger := l\<rparr>\<rparr>)"
proof -
  let ?l = "ledger (exStake st)" and ?s = "SenderPubKey t" and ?r = "ReceiverPubKey t"
  note ok = ledger_ok_exec[OF assms(1)]
  from assms(2) have le: "v \<le> readBalance (balances ?l) ?s" "readBalance (balances ?l) ?r + v \<le> UINT256_MAX"
    and l: "balances l = moved (balances ?l) ?s ?r v"
    by (auto simp: TransferTx_eq[OF ok assms(3,4)] BalanceOfTx_def split: if_splits)
  have b: "BalanceOfTx l = (BalanceOfTx ?l)(?s := BalanceOfTx ?l ?s - v, ?r := BalanceOfTx ?l ?r + v)"
    using moved_facts(1)[OF balances_ok_ledger[OF ok] assms(4) le] by (simp add: BalanceOfTx_def l fun_eq_iff)
  note law = TransferTx_law[OF ok assms(3,4,2)]
  then have "stake_ok ((exStake st)\<lparr>ledger := l\<rparr>)" using assms(1) by (simp add: stake_ok_ledger)
  with law b show ?thesis using assms(4,5) by (auto simp: txEffect_def mayDebit_def plainTx_def)
qed


lemma equiv_validator:
  assumes "precheckTx C chainID h root vals t = Inr v" "Type t = TxTypeEquivEvidence"
  obtains e where "deserializeEvidenceVote (EvidenceA t) = Inr e" "v = EvValidatorPK e"
  using assms by (auto simp: precheckTx_def validateEquivocationEvidenceTx_def res_simps Let_def split: if_splits sum.splits)

lemma onStake_Inr:
  assumes "onStake st r = Inr st'"
  obtains s' where "r = Inr s'" "st' = st\<lparr>exStake := s'\<rparr>"
  using assms by (auto simp: onStake_def rbind_Inr_iff)

lemma bond_effect:
  assumes ok: "stake_ok (exStake st)" and run: "onStake st (BondTx C (exStake st) (SenderPubKey t) (Value t) h) = Inr st'"
  shows "txEffect C t st st'"
proof -
  obtain s' where b: "BondTx C (exStake st) (SenderPubKey t) (Value t) h = Inr s'" and st': "st' = st\<lparr>exStake := s'\<rparr>"
    using onStake_Inr[OF run] .
  from BondTx_law[OF ok b] obtain a where
    "moveAll (ledger (exStake st)) (SenderPubKey t) (escrowAccount C (SenderPubKey t)) a = Inr (ledger s')" "stake_ok s'" by metis
  then show ?thesis
    unfolding st' by (intro move_effect ledger_ok_exec[OF ok]) (auto simp: plainTx_def mayDebit_def)
qed

lemma unbond_effect:
  assumes ok: "stake_ok (exStake st)" and run: "onStake st (UnbondTx (exStake st) (SenderPubKey t) h) = Inr st'"
  shows "txEffect C t st st'"
proof -
  obtain s' where u: "UnbondTx (exStake st) (SenderPubKey t) h = Inr s'" and st': "st' = st\<lparr>exStake := s'\<rparr>"
    using onStake_Inr[OF run] .
  from UnbondTx_law[OF ok u] have "ledger s' = ledger (exStake st)" "stake_ok s'" by metis+
  then show ?thesis by (simp add: st' txEffect_def)
qed

lemma finalize_effect:
  assumes ok: "stake_ok (exStake st)" and run: "onStake st (FinalizeTx C (exStake st) (SenderPubKey t) h) = Inr st'"
    and ty: "Type t = TxTypeFinalizeUnbond"
  shows "txEffect C t st st'"
proof -
  obtain s' where f: "FinalizeTx C (exStake st) (SenderPubKey t) h = Inr s'" and st': "st' = st\<lparr>exStake := s'\<rparr>"
    using onStake_Inr[OF run] .
  from ok f show ?thesis
  proof (cases rule: FinalizeTx_law)
    case noop
    then show ?thesis using ok by (simp add: st' txEffect_refl)
  next
    case (release r)
    then show ?thesis
      unfolding st' by (intro move_effect ledger_ok_exec[OF ok]) (auto simp: plainTx_def mayDebit_def ty)
  qed
qed

lemma claim_effect:
  assumes ok: "stake_ok (exStake st)" and ty: "Type t = TxTypeClaimRewards"
    and run: "onStake st (onLedger (exStake st) (ClaimTx C (ledger (exStake st)) (SenderPubKey t))) = Inr st'"
  shows "txEffect C t st st'"
proof -
  let ?l = "ledger (exStake st)" and ?f = "FeeAccount C (SenderPubKey t)"
  obtain l where l: "ClaimTx C ?l (SenderPubKey t) = Inr l" and st': "st' = st\<lparr>exStake := (exStake st)\<lparr>ledger := l\<rparr>\<rparr>"
    using onStake_Inr[OF run] by (auto simp: onLedger_Inr_iff)
  show ?thesis
  proof (cases "BalanceOfTx ?l ?f = 0")
    case True
    then have "l = ?l" using l by (simp add: ClaimTx_def Let_def)
    then show ?thesis using ok by (simp add: st' txEffect_def)
  next
    case False
    then have mv: "moveAll ?l ?f (SenderPubKey t) (BalanceOfTx ?l ?f) = Inr l"
      using l by (simp add: ClaimTx_def Let_def moveAll_def)
    then have "stake_ok ((exStake st)\<lparr>ledger := l\<rparr>)"
      using moveAll_law[OF ledger_ok_exec[OF ok] mv] ok by (simp add: stake_ok_ledger)
    then show ?thesis
      unfolding st' using mv by (intro move_effect ledger_ok_exec[OF ok]) (auto simp: plainTx_def mayDebit_def ty)
  qed
qed

lemma evidence_effect:
  assumes ok: "stake_ok (exStake st)" and d: "mayDebit C t (escrowAccount C v)"
    and run: "rbind (SlashTx C (exStake st) v) (\<lambda>(s, amt). Inr (st\<lparr>exStake := s, totalSlashed := totalSlashed st + amt\<rparr>)) = Inr st'"
  shows "txEffect C t st st'"
proof -
  obtain s' amt where sl: "SlashTx C (exStake st) v = Inr (s', amt)"
    and st': "st' = st\<lparr>exStake := s', totalSlashed := totalSlashed st + amt\<rparr>"
    using run by (auto simp: rbind_Inr_iff)
  from SlashTx_law[OF ok sl] obtain r where r: "recAt (exStake st) v = Some r" "amt = BondedAmount r"
    "BurnTx (ledger (exStake st)) (escrowAccount C v) (BondedAmount r) = Inr (ledger s')" "stake_ok s'" by metis
  have "0 \<le> BondedAmount r" using recAt_ok[OF ok r(1)] by (simp add: record_ok_def)
  with r show ?thesis unfolding st' by (auto intro!: slash_effect ledger_ok_exec[OF ok] d)
qed

lemma applyTx_effect:
  assumes ok: "stake_ok (exStake st)" and v: "Value t = Some v" "0 \<le> v"
    and pre: "pre = precheckTx C chainID h' root vals t"
    and run: "applyTx C W B h fee (i, t, pre) st = Inr st'"
  shows "txEffect C t st st'"
proof -
  note run' = run[unfolded applyTx_def prod.case]
  consider "Type t = TxTypeTransfer" | "Type t = TxTypeContractDeploy" | "Type t = TxTypeContractCall" | "Type t = TxTypeMissEvidence"
    | "Type t = TxTypeBond" | "Type t = TxTypeUnbond" | "Type t = TxTypeFinalizeUnbond" | "Type t = TxTypeClaimRewards"
    | "Type t = TxTypeEquivEvidence" | "Type t \<notin> {TxTypeTransfer, TxTypeContractDeploy, TxTypeContractCall, TxTypeMissEvidence,
         TxTypeBond, TxTypeUnbond, TxTypeFinalizeUnbond, TxTypeClaimRewards, TxTypeEquivEvidence}"
    by blast
  then show ?thesis
  proof cases
    case 1
    then show ?thesis
      using run' transfer_effect[OF ok _ v 1] txEffect_refl[OF ok] by (auto split: sum.splits if_splits)
  next
    case 2
    then show ?thesis using run' by (auto intro: withNonce_effect[OF ok] applyDeploy_effect)
  next
    case 3
    then show ?thesis using run' by (auto intro: withNonce_effect[OF ok] applyCall_effect)
  next
    case 4
    then show ?thesis using run' by (auto intro: withNonce_effect[OF ok] txEffect_refl)
  next
    case 5
    then show ?thesis using run' by (auto simp: rbind_Inr_iff intro: withNonce_effect[OF ok] bond_effect)
  next
    case 6
    then show ?thesis using run' by (auto simp: rbind_Inr_iff intro: withNonce_effect[OF ok] unbond_effect)
  next
    case 7
    then show ?thesis using run' by (auto simp: rbind_Inr_iff intro: withNonce_effect[OF ok] finalize_effect)
  next
    case 8
    then show ?thesis using run' by (auto simp: rbind_Inr_iff intro: withNonce_effect[OF ok] claim_effect)
  next
    case 9
    then obtain va where va: "pre = Inr va" and w: "withNonce t st (\<lambda>st.
         rbind (SlashTx C (exStake st) va) (\<lambda>(s, slashAmt).
          Inr (st\<lparr>exStake := s, totalSlashed := totalSlashed st + slashAmt\<rparr>))) = Inr st'"
      using run' by (auto simp: rbind_Inr_iff)
    have "mayDebit C t (escrowAccount C va)"
      using equiv_validator[OF va[unfolded pre] 9] 9 by (auto simp: mayDebit_def)
    then show ?thesis by (intro withNonce_effect[OF ok w] evidence_effect)
  next
    case 10
    then have "st' = st" using run' by simp
    then show ?thesis using txEffect_refl[OF ok] by simp
  qed
qed


section \<open>What a block does to the ledger\<close>

lemma verified_value:
  assumes "verifyTxSigsParallel C txs chainID = Inr ()" "t \<in> set txs"
  shows "\<exists>v. Value t = Some v \<and> 0 \<le> v \<and> v \<le> UINT256_MAX"
proof -
  have "VerifySigsForChain C chainID t = Inr ()"
    using assms by (induction txs) (auto simp: verifyTxSigsParallel_def res_simps)
  then show ?thesis
    by (auto simp: VerifySigsForChain_def UnsignedHashForChain_def res_simps serializeUnsigned_Inr_iff)
qed

lemma txs_effect:
  assumes run: "rfold (applyTx C W B h fee) its st = Inr st'" and ok: "stake_ok (exStake st)"
    and its: "\<forall>(i, t, pre)\<in>set its. pre = precheckTx C chainID h' root vals t \<and> (\<exists>v. Value t = Some v \<and> 0 \<le> v)"
    and T: "\<forall>(i, t, pre)\<in>set its. t \<in> T"
  shows "stake_ok (exStake st')"
    "\<forall>t\<in>T. \<not> mayDebit C t a \<Longrightarrow> BalanceOfTx (ledger (exStake st)) a \<le> BalanceOfTx (ledger (exStake st')) a"
    "\<forall>t\<in>T. plainTx C t \<Longrightarrow> supplyOf (ledger (exStake st')) + totalSlashed st' = supplyOf (ledger (exStake st)) + totalSlashed st \<and>
        txFuels st' = txFuels st"
proof -
  define I where "I s \<longleftrightarrow> stake_ok (exStake s) \<and>
    ((\<forall>t\<in>T. \<not> mayDebit C t a) \<longrightarrow> BalanceOfTx (ledger (exStake st)) a \<le> BalanceOfTx (ledger (exStake s)) a) \<and>
    ((\<forall>t\<in>T. plainTx C t) \<longrightarrow> supplyOf (ledger (exStake s)) + totalSlashed s = supplyOf (ledger (exStake st)) + totalSlashed st \<and>
        txFuels s = txFuels st)" for s :: ExecState
  have "I st'" using run
  proof (rule rfold_invariant)
    show "I st" using ok by (simp add: I_def)
  next
    fix x s u assume x: "x \<in> set its" and s: "I s" and u: "applyTx C W B h fee x s = Inr u"
    obtain i t pre where xt: "x = (i, t, pre)" using prod_cases3 by blast
    with its T x obtain v where t: "t \<in> T" "pre = precheckTx C chainID h' root vals t" "Value t = Some v" "0 \<le> v" by fastforce
    have "txEffect C t s u" using applyTx_effect[OF _ t(3,4,2), of s] s u by (simp add: I_def xt)
    then show "I u" using s t(1) by (fastforce simp: I_def txEffect_def)
  qed
  then show "stake_ok (exStake st')"
    "\<forall>t\<in>T. \<not> mayDebit C t a \<Longrightarrow> BalanceOfTx (ledger (exStake st)) a \<le> BalanceOfTx (ledger (exStake st')) a"
    "\<forall>t\<in>T. plainTx C t \<Longrightarrow> supplyOf (ledger (exStake st')) + totalSlashed st' = supplyOf (ledger (exStake st)) + totalSlashed st \<and>
        txFuels st' = txFuels st"
    by (auto simp: I_def)
qed

lemma currentBaseFee_nonneg: "0 \<le> currentBaseFee db"
  using BaseFee_min[of None 0] by (auto simp: currentBaseFee_def be_val_nonneg split: option.splits)

lemma charge_effect:
  assumes "rfold (chargeTx fee fuels) its (l, g) = Inr (l', g')" "ledger_ok l" "0 \<le> fee"
  shows "ledger_ok l'" "\<forall>(i, t)\<in>set its. a \<noteq> SenderPubKey t \<Longrightarrow> BalanceOfTx l' a = BalanceOfTx l a"
    "fuels = [] \<Longrightarrow> unat g + length its < 2 ^ 64 \<Longrightarrow> supplyOf l' + fee * uint g' = supplyOf l + fee * uint g"
proof -
  have "ledger_ok l' \<and> ((\<forall>(i, t)\<in>set its. a \<noteq> SenderPubKey t) \<longrightarrow> BalanceOfTx l' a = BalanceOfTx l a) \<and>
    (fuels = [] \<and> unat g + length its < 2 ^ 64 \<longrightarrow> supplyOf l' + fee * uint g' = supplyOf l + fee * uint g)"
    using assms
  proof (induction its arbitrary: l g)
    case (Cons x its)
    obtain i t where x: "x = (i, t)" by force
    show ?case
    proof (cases "fee = 0")
      case True
      then have "chargeTx fee fuels x (l, g) = Inr (l, g)" by (simp add: chargeTx_def x)
      then have "rfold (chargeTx fee fuels) its (l, g) = Inr (l', g')" using Cons.prems(1) by simp
      from Cons.IH[OF this Cons.prems(2,3)] show ?thesis by (auto simp: True)
    next
      case False
      let ?u = "gasUnitsOf fuels i"
      have "chargeTx fee fuels x (l, g) = rbind (BurnTx l (SenderPubKey t) (fee * uint ?u)) (\<lambda>l. Inr (l, g + ?u))"
        using False by (simp add: chargeTx_def x Let_def)
      with Cons.prems(1) obtain l1 where b: "BurnTx l (SenderPubKey t) (fee * uint ?u) = Inr l1"
        and rest: "rfold (chargeTx fee fuels) its (l1, g + ?u) = Inr (l', g')"
        by (auto simp: res_simps)
      have "0 \<le> fee * uint ?u" using Cons.prems(3) by simp
      note law = BurnTx_law[OF Cons.prems(2) this b]
      then have l1: "ledger_ok l1" by blast
      note ih = Cons.IH[OF rest l1 Cons.prems(3)]
      have "supplyOf l' + fee * uint g' = supplyOf l + fee * uint g" if "fuels = []" "unat g + length (x # its) < 2 ^ 64"
      proof -
        have u: "?u = 1" using that by (simp add: gasUnitsOf_def)
        have g1: "unat (g + 1) = unat g + 1" using that by (simp add: unat_add_lem[THEN iffD1])
        then have "supplyOf l' + fee * uint g' = supplyOf l1 + fee * uint (g + 1)" using ih that u by simp
        moreover have "uint (g + 1) = uint g + 1" using arg_cong[OF g1, of int] by simp
        ultimately show ?thesis using law u by (simp add: algebra_simps)
      qed
      moreover have "BalanceOfTx l' a = BalanceOfTx l a" if "\<forall>(i, t)\<in>set (x # its). a \<noteq> SenderPubKey t"
      proof -
        have "a \<noteq> SenderPubKey t" "\<forall>(i, t)\<in>set its. a \<noteq> SenderPubKey t" using that x by auto
        then show ?thesis using ih law by simp
      qed
      ultimately show ?thesis using ih by blast
    qed
  qed simp
  then show "ledger_ok l'" "\<forall>(i, t)\<in>set its. a \<noteq> SenderPubKey t \<Longrightarrow> BalanceOfTx l' a = BalanceOfTx l a"
    "fuels = [] \<Longrightarrow> unat g + length its < 2 ^ 64 \<Longrightarrow> supplyOf l' + fee * uint g' = supplyOf l + fee * uint g"
    by auto
qed

lemma miss_step_effect:
  assumes "applyMiss C t (s, z) = Inr (s', z')" "stake_ok s"
  shows "stake_ok s' \<and> (\<not> mayDebit C t a \<longrightarrow> BalanceOfTx (ledger s') a = BalanceOfTx (ledger s) a) \<and>
    supplyOf (ledger s') + z' = supplyOf (ledger s) + z"
proof (cases "Type t = TxTypeMissEvidence")
  case True
  from assms(1) True obtain s1 n amt where r: "RecordMissTx s (MissedProposer t) = Inr (s1, n, amt)"
    and k: "(if amt > 0 then rbind (onLedger s1 (BurnTx (ledger s1) (EscrowAccount C (MissedProposer t)) amt)) (\<lambda>s. Inr (s, z + amt))
       else Inr (s1, z)) = Inr (s', z')"
    by (auto simp: applyMiss_def rbind_Inr_iff)
  from RecordMissTx_law[OF assms(2) r] have s1: "ledger s1 = ledger s" "stake_ok s1" "0 \<le> amt" by metis+
  show ?thesis
  proof (cases "amt > 0")
    case pos: True
    with k obtain l where b: "BurnTx (ledger s1) (escrowAccount C (MissedProposer t)) amt = Inr l"
      and s': "s' = s1\<lparr>ledger := l\<rparr>" "z' = z + amt"
      by (auto simp: rbind_Inr_iff onLedger_Inr_iff EscrowAccount_def)
    have "ledger_ok (ledger s1)" using s1(2) by (simp add: stake_ok_def)
    from BurnTx_law[OF this s1(3) b] show ?thesis
      using s1 True by (auto simp: s' stake_ok_ledger mayDebit_def)
  next
    case False
    then show ?thesis using k s1 by simp
  qed
next
  case False
  then show ?thesis using assms by (simp add: applyMiss_def)
qed

lemma misses_effect:
  assumes run: "rfold (applyMiss C) txs (s, z) = Inr (s', z')" and ok: "stake_ok s"
  shows "stake_ok s'" "\<forall>t\<in>set txs. \<not> mayDebit C t a \<Longrightarrow> BalanceOfTx (ledger s') a = BalanceOfTx (ledger s) a"
    "supplyOf (ledger s') + z' = supplyOf (ledger s) + z"
proof -
  define I where "I x \<longleftrightarrow> stake_ok (fst x) \<and> supplyOf (ledger (fst x)) + snd x = supplyOf (ledger s) + z \<and>
    ((\<forall>t\<in>set txs. \<not> mayDebit C t a) \<longrightarrow> BalanceOfTx (ledger (fst x)) a = BalanceOfTx (ledger s) a)" for x
  have "I (s', z')" using run
  proof (rule rfold_invariant)
    show "I (s, z)" using ok by (simp add: I_def)
  next
    fix t x y assume t: "t \<in> set txs" and x: "I x" and y: "applyMiss C t x = Inr y"
    obtain s1 z1 s2 z2 where p: "x = (s1, z1)" "y = (s2, z2)" by force
    from miss_step_effect[OF y[unfolded p]] show "I y" using x t by (auto simp: I_def p)
  qed
  then show "stake_ok s'" "\<forall>t\<in>set txs. \<not> mayDebit C t a \<Longrightarrow> BalanceOfTx (ledger s') a = BalanceOfTx (ledger s) a"
    "supplyOf (ledger s') + z' = supplyOf (ledger s) + z"
    by (auto simp: I_def)
qed

lemma credits_effect:
  assumes "rfold (creditShare C) vs l = Inr l'" "ledger_ok l" "\<forall>(v, x)\<in>set vs. 0 \<le> x"
  shows "ledger_ok l' \<and> supplyOf l' = supplyOf l + sum_list (map snd vs) \<and> BalanceOfTx l a \<le> BalanceOfTx l' a"
  using assms
proof (induction vs arbitrary: l)
  case (Cons x vs)
  obtain v y where x: "x = (v, y)" by force
  then have y: "0 \<le> y" using Cons.prems(3) by simp
  from Cons.prems(1) obtain u where u: "creditShare C (v, y) l = Inr u" and rest: "rfold (creditShare C) vs u = Inr l'"
    by (auto simp: x res_simps)
  have "ledger_ok u \<and> supplyOf u = supplyOf l + y \<and> BalanceOfTx l a \<le> BalanceOfTx u a"
    using CreditTx_law[OF Cons.prems(2) y] u y Cons.prems(2) by (auto simp: creditShare_def split: if_splits)
  with Cons.IH[OF rest] Cons.prems(3) x show ?case by fastforce
qed simp


lemma bonded_nonneg:
  assumes "stake_ok s" "BondedAmounts s = Inr (vals, amts)"
  shows "0 \<le> sum_list amts"
proof -
  obtain es where es: "bondedEntries (validatorsBucket s) = Inr es" "amts = map snd es"
    using assms(2) by (auto simp: BondedAmounts_def rbind_Inr_iff)
  have "0 \<le> x" if "x \<in> set amts" for x
  proof -
    from that es(2) obtain v where "(v, x) \<in> set es" by auto
    then obtain r where "recAt s v = Some r" "x = BondedAmount r"
      using bondedEntries_set[OF assms(1) es(1)] by auto
    then show ?thesis using recAt_ok[OF assms(1)] by (auto simp: record_ok_def)
  qed
  then show ?thesis by (rule sum_list_nonneg)
qed

lemma mint_shares:
  assumes "mintAmt = (if vals = [] then 0 else MintPerBlock (Some sup0) (Some staked))" "0 \<le> staked"
  shows "\<forall>(v, x)\<in>set (zip vals (SplitReward (Some mintAmt) (length vals))). 0 \<le> x"
    "sum_list (map snd (zip vals (SplitReward (Some mintAmt) (length vals)))) = mintAmt"
proof -
  have "0 \<le> mintAmt" using MintPerBlock_bounds[OF assms(2)] assms(1) by auto
  note sp = SplitReward_sum[OF _ this, of "length vals"]
  show "\<forall>(v, x)\<in>set (zip vals (SplitReward (Some mintAmt) (length vals))). 0 \<le> x"
    using sp by (cases "vals = []") (auto dest: set_zip_rightD)
  show "sum_list (map snd (zip vals (SplitReward (Some mintAmt) (length vals)))) = mintAmt"
    using sp assms(1) by (cases "vals = []") simp_all
qed

lemma indexed_set: "(i, t) \<in> set (indexed ts) \<Longrightarrow> t \<in> set ts"
  by (auto simp: indexed_def dest: set_zip_rightD)

lemma zipped_prechecks:
  assumes "(i, t, p) \<in> set (zip is (zip ts (map f ts)))"
  shows "t \<in> set ts \<and> p = f t"
proof -
  have "(t, p) \<in> set (zip ts (map f ts))" using assms by (rule set_zip_rightD)
  then show ?thesis by (auto simp: set_zip)
qed

lemma body_effect:
  assumes body: "bodyStages C W B J iter db b fee vals supplyIn tracked mintAmt shares pre st nodes tr l1 gas s2 slash l3 db' res"
    and ok: "stake_ok (stake db)" and ver: "verifyTxSigsParallel C (Txs b) chainID = Inr ()"
    and pre: "pre = precheckTxsParallel C (Txs b) chainID (Height b) root vals" and fee: "0 \<le> fee"
    and sh: "\<forall>(v, x)\<in>set (zip vals shares). 0 \<le> x" "sum_list (map snd (zip vals shares)) = mintAmt"
  shows "stake_ok (s2\<lparr>ledger := l3\<rparr>)"
    "\<forall>t\<in>set (Txs b). \<not> mayDebit C t a \<Longrightarrow> BalanceOfTx (ledger (stake db)) a \<le> BalanceOfTx l3 a"
    "\<forall>t\<in>set (Txs b). plainTx C t \<Longrightarrow> length (Txs b) < 2 ^ 64 \<Longrightarrow>
       supplyOf l3 = supplyOf (ledger (stake db)) - fee * uint gas - slash + mintAmt"
proof -
  let ?its = "zip [0..<length (Txs b)] (zip (Txs b) pre)"
  note stages = body[unfolded bodyStages_def]
  have its: "\<forall>(i, t, p)\<in>set ?its. p = precheckTx C chainID (Height b) root vals t \<and> (\<exists>v. Value t = Some v \<and> 0 \<le> v)"
    "\<forall>(i, t, p)\<in>set ?its. t \<in> set (Txs b)"
    using verified_value[OF ver] zipped_prechecks by (fastforce simp: pre precheckTxsParallel_def)+
  have start: "exStake (startState db) = stake db" "totalSlashed (startState db) = 0" "txFuels (startState db) = []"
    by (simp_all add: startState_def)
  have st: "rfold (applyTx C W B (Height b) fee) ?its (startState db) = Inr st" using stages by blast
  have "stake_ok (exStake (startState db))" using ok start by simp
  note e1 = txs_effect[OF st this its]
  have ch: "rfold (chargeTx fee (txFuels st)) (indexed (Txs b)) (ledger (exStake st), 0) = Inr (l1, gas)" using stages by blast
  note e2 = charge_effect[OF ch ledger_ok_exec[OF e1(1)] fee]
  have mi: "rfold (applyMiss C) (Txs b) ((exStake st)\<lparr>ledger := l1\<rparr>, totalSlashed st) = Inr (s2, slash)" using stages by blast
  have "stake_ok ((exStake st)\<lparr>ledger := l1\<rparr>)" using e1(1) e2(1) by (simp add: stake_ok_ledger)
  note e3 = misses_effect[OF mi this]
  have s2: "ledger_ok (ledger s2)" using e3(1) by (simp add: stake_ok_def)
  have cr: "rfold (creditShare C) (zip vals shares) (ledger s2) = Inr l3" using stages by blast
  note e4 = credits_effect[OF cr s2 sh(1), of a]
  show "stake_ok (s2\<lparr>ledger := l3\<rparr>)" using e3(1) e4 by (simp add: stake_ok_ledger)
  show "BalanceOfTx (ledger (stake db)) a \<le> BalanceOfTx l3 a" if nd: "\<forall>t\<in>set (Txs b). \<not> mayDebit C t a"
  proof -
    have "\<forall>(i, t)\<in>set (indexed (Txs b)). a \<noteq> SenderPubKey t"
      using nd by (auto dest!: indexed_set simp: mayDebit_def)
    then show ?thesis using e1(2)[OF nd] e2(2) e3(2)[OF nd] e4 by (simp add: start)
  qed
  show "supplyOf l3 = supplyOf (ledger (stake db)) - fee * uint gas - slash + mintAmt"
    if pl: "\<forall>t\<in>set (Txs b). plainTx C t" "length (Txs b) < 2 ^ 64"
  proof -
    have "supplyOf (ledger (exStake st)) + totalSlashed st = supplyOf (ledger (stake db))" "txFuels st = []"
      using e1(3)[OF pl(1)] by (simp_all add: start)
    moreover have "supplyOf l1 + fee * uint gas = supplyOf (ledger (exStake st))"
      using e2(3)[OF calculation(2)] pl(2) by (simp add: indexed_def)
    ultimately show ?thesis using e3(3) e4 sh(2) by simp
  qed
qed

lemma serialized_length: "serializeBlock C b = Inr d \<Longrightarrow> length (Txs b) \<le> maxBatchTxs"
  by (erule serializeBlock_Inr) (auto dest: SerializeBatch_Inr split: if_splits)

lemma block_effect:
  assumes run: "ApplyBlockForChain C W B J iter db b chainID = Inr (db', res)" and ok: "stake_ok (stake db)"
  shows "stake_ok (stake db')"
    "\<forall>t\<in>set (Txs b). \<not> mayDebit C t a \<Longrightarrow> BalanceOfTx (ledger (stake db)) a \<le> BalanceOfTx (ledger (stake db')) a"
    "\<forall>t\<in>set (Txs b). plainTx C t \<Longrightarrow> CurrentTotalSupply db = (z, True) \<Longrightarrow>
       CurrentTotalSupply db' = (z + supplyOf (ledger (stake db')) - supplyOf (ledger (stake db)), True)"
proof -
  have ver: "verifyTxSigsParallel C (Txs b) chainID = Inr ()" by (rule ApplyBlock_Inr[OF run])
  have "stake_ok (stake db') \<and>
    ((\<forall>t\<in>set (Txs b). \<not> mayDebit C t a) \<longrightarrow> BalanceOfTx (ledger (stake db)) a \<le> BalanceOfTx (ledger (stake db')) a) \<and>
    ((\<forall>t\<in>set (Txs b). plainTx C t) \<and> CurrentTotalSupply db = (z, True) \<longrightarrow>
       CurrentTotalSupply db' = (z + supplyOf (ledger (stake db')) - supplyOf (ledger (stake db)), True))"
  proof (rule ApplyBlock_outcome[OF run], goal_cases)
    case (1 vals amts supplyIn tracked mintAmt pre st nodes tr l1 gas s2 slash l3 d)
    note e = body_effect[OF 1(6) ok ver 1(14) currentBaseFee_nonneg mint_shares[OF 1(5) bonded_nonneg[OF ok 1(3)]]]
    have "length (Txs b) < 2 ^ 64" using serialized_length[OF 1(10)] by simp
    note e3 = e(3)[OF _ this]
    show ?case using e(1,2) e3 1(4,7,12,13) by (auto simp: CurrentTotalSupply_def metaAfter_reads)
  qed
  then show "stake_ok (stake db')"
    "\<forall>t\<in>set (Txs b). \<not> mayDebit C t a \<Longrightarrow> BalanceOfTx (ledger (stake db)) a \<le> BalanceOfTx (ledger (stake db')) a"
    "\<forall>t\<in>set (Txs b). plainTx C t \<Longrightarrow> CurrentTotalSupply db = (z, True) \<Longrightarrow>
       CurrentTotalSupply db' = (z + supplyOf (ledger (stake db')) - supplyOf (ledger (stake db)), True)"
    by blast+
qed


section \<open>Running a block to the end\<close>

lemma rmap_total: "\<forall>x\<in>set xs. \<exists>y. f x = Inr y \<Longrightarrow> \<exists>ys. rmap f xs = Inr ys"
  by (induction xs) (auto simp: res_simps)

lemma levelTelemetry_total: "level < LayerCount tr \<Longrightarrow> \<exists>r. levelTelemetry tr n level = Inr r"
  by (auto simp: levelTelemetry_def Layer_def LayerCount_def ContractDensity_def SignatureHistogram_def VolatilityRegions_def
      StagnantRegions_def FindNodes_def split: prod.splits)

lemma telemetry_total: "\<exists>t. buildBlockTelemetryFromTree b tr x = Inr t"
proof -
  have "\<exists>ls. formatRGTelemetryLevels tr n = Inr ls" for n
    unfolding formatRGTelemetryLevels_def by (rule rmap_total) (simp add: levelTelemetry_total)
  then show ?thesis by (metis (no_types, lifting) buildBlockTelemetryFromTree_def rbind_simps(2))
qed

lemma persistBlock_total:
  assumes "serializeBlock C (b\<lparr>BlockStateRoot := root\<rparr>) = Inr d" "BlockStateRoot b = 0 \<or> BlockStateRoot b = root"
    and "\<And>t. length (Marshal J t) \<le> maxStoredBlockTelemetryBytes" "tracked \<longrightarrow> 0 \<le> supplyOut"
  shows "\<exists>db'. persistBlock C J db b tr root fee gas tracked supplyOut = Inr db'"
proof -
  obtain t where t: "buildBlockTelemetryFromTree (b\<lparr>BlockStateRoot := root\<rparr>) tr True = Inr t" using telemetry_total by blast
  show ?thesis
    using assms(1,2,4) assms(3)[of t] by (auto simp: persistBlock_def Let_def SetTotalSupplyTx_def t putBlockTelemetryTx_def putBlockTx_def rguard_def not_less)
qed

lemma ApplyBlock_runs:
  assumes "CurrentHeight db = Inr (Height b - 1)" "PrevStateRoot b = 0 \<or> PrevStateRoot b = CurrentStateRoot db"
    and "verifyTxSigsParallel C (Txs b) chainID = Inr ()" "supplyAndStaked db = Inr (vals, amts, sup0, staked, tracked)"
    and "pre = precheckTxsParallel C (Txs b) chainID (Height b) (CurrentStateRoot db) vals"
    and "checkMissEvidence (zip (Txs b) pre) [] = Inr ()"
    and "mintAmt = (if vals = [] then 0 else MintPerBlock (Some sup0) (Some staked))"
    and "rfold (applyTx C W B (Height b) (currentBaseFee db)) (zip [0..<length (Txs b)] (zip (Txs b) pre)) (startState db) = Inr st"
    and "rmap (contractNode C (exContracts st) (ledger (exStake st))) (iter (touched st)) = Inr nodes"
    and "BuildTree C (Txs b) nodes = Inr tr"
    and "rfold (chargeTx (currentBaseFee db) (txFuels st)) (indexed (Txs b)) (ledger (exStake st), 0) = Inr (l1, gas)"
    and "rfold (applyMiss C) (Txs b) ((exStake st)\<lparr>ledger := l1\<rparr>, totalSlashed st) = Inr (s2, slash)"
    and "rfold (creditShare C) (zip vals (SplitReward (Some mintAmt) (length vals))) (ledger s2) = Inr l3"
    and "serializeBlock C (b\<lparr>BlockStateRoot := snd (treeRoot C tr)\<rparr>) = Inr d"
    and "BlockStateRoot b = 0 \<or> BlockStateRoot b = snd (treeRoot C tr)"
    and "\<And>t. length (Marshal J t) \<le> maxStoredBlockTelemetryBytes"
    and "tracked \<longrightarrow> 0 \<le> sup0 - currentBaseFee db * uint gas - slash + mintAmt"
  shows "\<exists>db' res. ApplyBlockForChain C W B J iter db b chainID = Inr (db', res)"
proof -
  obtain db' where p: "persistBlock C J (db\<lparr>stake := s2\<lparr>ledger := l3\<rparr>, contracts := exContracts st\<rparr>) b tr (snd (treeRoot C tr))
     (currentBaseFee db) gas tracked (sup0 - currentBaseFee db * uint gas - slash + mintAmt) = Inr db'"
    using persistBlock_total[OF assms(14-17)] by blast
  note body = applyBody_def[of C W B J iter db b "currentBaseFee db" vals sup0 tracked mintAmt
      "SplitReward (Some mintAmt) (length vals)" pre, unfolded Let_def startState_def[symmetric] indexed_def[symmetric]
      assms(8-13) rbind_simps prod.case p]
  show ?thesis
    unfolding ApplyBlockForChain_def Let_def assms(1,3,4) rbind_simps prod.case assms(5)[symmetric] assms(6) assms(7)[symmetric] body
    using assms(2) by (auto simp: rguard_def)
qed


lemma credits_other:
  assumes "rfold (creditShare C) vs l = Inr l'" "ledger_ok l" "\<forall>(v, x)\<in>set vs. 0 \<le> x" "a \<notin> FeeAccount C ` fst ` set vs"
  shows "BalanceOfTx l' a = BalanceOfTx l a" "nonces l' = nonces l"
proof -
  have "BalanceOfTx l' a = BalanceOfTx l a \<and> nonces l' = nonces l"
    using assms
  proof (induction vs arbitrary: l)
    case (Cons x vs)
    obtain v y where x: "x = (v, y)" by force
    then have y: "0 \<le> y" using Cons.prems(3) by simp
    from Cons.prems(1) obtain u where u: "creditShare C (v, y) l = Inr u" and rest: "rfold (creditShare C) vs u = Inr l'"
      by (auto simp: x res_simps)
    have "ledger_ok u \<and> BalanceOfTx u a = BalanceOfTx l a \<and> nonces u = nonces l"
      using CreditTx_law[OF Cons.prems(2) y] u Cons.prems(2,4) x by (auto simp: creditShare_def split: if_splits)
    with Cons.IH[OF rest] Cons.prems(3,4) x show ?case by simp
  qed simp
  then show "BalanceOfTx l' a = BalanceOfTx l a" "nonces l' = nonces l" by simp_all
qed

text \<open>A block whose only transaction is a transfer with a wrong nonce.\<close>

lemma stale_transfer:
  assumes run: "ApplyBlockForChain C W B J iter db b chainID = Inr (db', res)" and ok: "stake_ok (stake db)"
    and t: "Txs b = [t]" "Type t = TxTypeTransfer" "Nonce t \<noteq> nonceAt (ledger (stake db)) (SenderPubKey t) + 1"
    and vals: "BondedAmounts (stake db) = Inr (vals, amts)" "a \<notin> FeeAccount C ` set vals"
  shows "BalanceOfTx (ledger (stake db')) a =
      BalanceOfTx (ledger (stake db)) a - (if a = SenderPubKey t then currentBaseFee db else 0)"
    "nonces (ledger (stake db')) = nonces (ledger (stake db))"
proof -
  have lok: "ledger_ok (ledger (stake db))" using ok by (simp add: stake_ok_def)
  have ver: "verifyTxSigsParallel C (Txs b) chainID = Inr ()" by (rule ApplyBlock_Inr[OF run])
  from verified_value[OF ver] t obtain v where v: "Value t = Some v" "0 \<le> v" by auto
  have skip: "TransferTx (ledger (stake db)) t = Inl (RGError ErrSequenceFault)"
    using t by (simp add: TransferTx_eq[OF lok v])
  have "BalanceOfTx (ledger (stake db')) a = BalanceOfTx (ledger (stake db)) a - (if a = SenderPubKey t then currentBaseFee db else 0) \<and>
    nonces (ledger (stake db')) = nonces (ledger (stake db))"
  proof (rule ApplyBlock_outcome[OF run], goal_cases)
    case (1 vals' amts' supplyIn tracked mintAmt pre st nodes tr l1 gas s2 slash l3 d)
    note stages = 1(6)[unfolded bodyStages_def t(1)]
    have vs: "vals' = vals" "amts' = amts" using 1(3) vals(1) by simp_all
    note sh = mint_shares[OF 1(5) bonded_nonneg[OF ok 1(3)]]
    have pre: "length pre = 1" using 1(14) t by (simp add: precheckTxsParallel_def)
    then obtain p where p: "pre = [p]" by (cases pre) auto
    have st: "st = startState db"
      using stages t skip by (simp add: p applyTx_def startState_def isSequenceFault_def)
    have ch: "chargeTx (currentBaseFee db) [] (0, t) (ledger (stake db), 0) = Inr (l1, gas)"
      using stages by (simp add: st startState_def indexed_def res_simps)
    have l1: "ledger_ok l1 \<and> nonces l1 = nonces (ledger (stake db)) \<and>
        BalanceOfTx l1 a = BalanceOfTx (ledger (stake db)) a - (if a = SenderPubKey t then currentBaseFee db else 0)"
      using ch lok BurnTx_law[OF lok currentBaseFee_nonneg, of "SenderPubKey t" db l1]
      by (auto simp: chargeTx_def gasUnitsOf_def res_simps Let_def split: if_splits)
    have s2: "ledger s2 = l1" using stages t by (auto simp: applyMiss_def st)
    have cr: "rfold (creditShare C) (zip vals (SplitReward (Some mintAmt) (length vals))) l1 = Inr l3" using stages s2 vs by simp
    have "a \<notin> FeeAccount C ` fst ` set (zip vals (SplitReward (Some mintAmt) (length vals)))"
      using vals(2) by (auto dest: set_zip_leftD)
    with credits_other[OF cr _ sh(1)[unfolded vs]] l1 show ?case by (simp add: 1(7))
  qed
  then show "BalanceOfTx (ledger (stake db')) a =
      BalanceOfTx (ledger (stake db)) a - (if a = SenderPubKey t then currentBaseFee db else 0)"
    "nonces (ledger (stake db')) = nonces (ledger (stake db))" by simp_all
qed


section \<open>A node between blocks\<close>

text \<open>What a running node does to its database: blocks are applied, votes recorded, the consensus state saved
  and cleared.\<close>

inductive nodeStep ::
  "crypto \<Rightarrow> wasmtime \<Rightarrow> bn254 \<Rightarrow> json \<Rightarrow> (bytes32 list \<Rightarrow> bytes32 list) \<Rightarrow> StateDB \<Rightarrow> StateDB \<Rightarrow> bool"
  for C W B J iter where
  block: "ApplyBlockForChain C W B J iter db b chainID = Inr (db', res) \<Longrightarrow> nodeStep C W B J iter db db'"
| vote: "RecordConsensusVote db h r ty bh = (db', accepted) \<Longrightarrow> nodeStep C W B J iter db db'"
| save: "nodeStep C W B J iter db (SaveConsensusState db state)"
| clear: "nodeStep C W B J iter db (ClearConsensusState db)"

lemma voteKey_step:
  assumes "nodeStep C W B J iter db db'" "bget (meta db) (consensusVoteKey h r ty) = Some x"
  shows "bget (meta db') (consensusVoteKey h r ty) = Some x"
  using assms
proof (cases rule: nodeStep.cases)
  case (block b chainID res)
  from block(1) show ?thesis
  proof (rule ApplyBlock_outcome, goal_cases)
    case 1
    from 1(12) show ?case using assms(2) voteKey_distinct by (simp add: metaAfter_reads)
  qed
next
  case (vote h' r' ty' bh accepted)
  then show ?thesis
    using assms(2) by (auto simp: RecordConsensusVote_def Let_def bget_bput split: option.splits)
next
  case (save st)
  then show ?thesis using assms(2) voteKey_distinct by (simp add: SaveConsensusState_def bget_bput)
next
  case clear
  then show ?thesis using assms(2) voteKey_distinct by (simp add: ClearConsensusState_def bget_bdel)
qed

lemma voteKey_reach:
  assumes "(nodeStep C W B J iter)\<^sup>*\<^sup>* db db'" "bget (meta db) (consensusVoteKey h r ty) = Some x"
  shows "bget (meta db') (consensusVoteKey h r ty) = Some x"
  using assms by induction (auto dest: voteKey_step)

lemma evidence_conflict:
  assumes "validateEquivocationEvidenceTx C t chainID = Inr v"
  obtains x y where "verifyEvidenceVote C x chainID" "verifyEvidenceVote C y chainID" "EvValidatorPK x = v" "EvValidatorPK y = v"
    "EvType x = EvType y" "EvHeight x = EvHeight y" "EvRound x = EvRound y" "EvBlockHash x \<noteq> EvBlockHash y"
    "EvBlockHash x \<noteq> 0" "EvBlockHash y \<noteq> 0"
  using assms by (auto simp: validateEquivocationEvidenceTx_def res_simps)


section \<open>A sample chain\<close>

definition sampleJson :: json where
  "sampleJson = \<lparr>Marshal = (\<lambda>t. [1]), Unmarshal = (\<lambda>d. Inl (GoError ''unexpected end of JSON input''))\<rparr>"

definition sampleDB :: "nat \<Rightarrow> StateDB" where
  "sampleDB n = \<lparr>stake = sampleStore\<lparr>ledger := (ledger sampleStore)\<lparr>nonces := (if n = 0 then [] else [(3, PutUint64 (of_nat n))])\<rparr>\<rparr>,
     contracts = EnsureBuckets, meta = [(totalSupplyKey, nat_bytes (3000 * 10 ^ 18))], blocks = [], block_telemetry = []\<rparr>"

definition sampleSigned :: Tx where
  "sampleSigned = sampleTx\<lparr>SenderSig := (case SignSenderForChain sample_crypto \<lparr>PublicKey = 3, PrivateKey = 3\<rparr> DefaultChainID sampleTx of
     Inr s \<Rightarrow> s | _ \<Rightarrow> 0)\<rparr>"

definition sampleTransferBlock :: Block where
  "sampleTransferBlock = \<lparr>Height = 1, Txs = [sampleSigned], ProposerPubKey = 5, PrevStateRoot = 0, BlockStateRoot = 0, ProposalBytes = []\<rparr>"

text \<open>The stages of the sample block, evaluated: with nonce 0 the transfer is executed, with nonce 1 it is
  stale.\<close>

definition sampleStages :: "nat \<Rightarrow> bool" where
  "sampleStages n \<longleftrightarrow> (case rfold (applyTx sample_crypto sampleWasm sampleCurve 1 1) [(0, sampleSigned, Inr 0)] (startState (sampleDB n)) of
     Inr st \<Rightarrow> touched st = [] \<and> totalSlashed st = 0 \<and>
       (case rfold (chargeTx 1 (txFuels st)) [(0, sampleSigned)] (ledger (exStake st), 0) of Inr (l, g) \<Rightarrow> g = 1 | _ \<Rightarrow> False)
   | _ \<Rightarrow> False)"

lemma sample_stages: "sampleStages 0" "sampleStages 1"
  by code_simp+

lemma sample_parts:
  "CurrentHeight (sampleDB n) = Inr 0" "currentBaseFee (sampleDB n) = 1"
  "supplyAndStaked (sampleDB n) = Inr ([], [], 3000 * 10 ^ 18, 0, True)"
  by (simp_all add: sampleDB_def CurrentHeight_def currentBaseFee_def BaseFee_def supplyAndStaked_def BondedAmounts_def
      sampleStore_def NewStore_def CurrentTotalSupply_def bget_def)

lemma sample_tx:
  "verifyTxSigsParallel sample_crypto [sampleSigned] DefaultChainID = Inr ()"
  "case BuildTree sample_crypto [sampleSigned] [] of Inr t \<Rightarrow> True | _ \<Rightarrow> False"
  "Type sampleSigned = TxTypeTransfer"
  by code_simp+

lemma sample_serialized:
  "case serializeBlock sample_crypto sampleTransferBlock of Inr d \<Rightarrow> True | _ \<Rightarrow> False"
  by code_simp

lemma serializeBlock_root: "serializeBlock C b = Inr d \<Longrightarrow> \<exists>d'. serializeBlock C (b\<lparr>BlockStateRoot := x\<rparr>) = Inr d'"
  by (auto simp: serializeBlock_def res_simps Let_def split: if_splits)

lemma sample_runs:
  assumes "n \<in> {0, 1}"
  obtains db' res where "ApplyBlockForChain sample_crypto sampleWasm sampleCurve sampleJson id (sampleDB n) sampleTransferBlock DefaultChainID = Inr (db', res)"
proof -
  have "sampleStages n" using assms sample_stages by auto
  then obtain st l g where st: "rfold (applyTx sample_crypto sampleWasm sampleCurve 1 1) [(0, sampleSigned, Inr 0)] (startState (sampleDB n)) = Inr st"
    "touched st = []" "totalSlashed st = 0" "rfold (chargeTx 1 (txFuels st)) [(0, sampleSigned)] (ledger (exStake st), 0) = Inr (l, 1)"
    unfolding sampleStages_def by (auto split: sum.splits)
  obtain tr where tr: "BuildTree sample_crypto [sampleSigned] [] = Inr tr" using sample_tx(2) by (auto split: sum.splits)
  obtain d where "serializeBlock sample_crypto sampleTransferBlock = Inr d" using sample_serialized by (auto split: sum.splits)
  then obtain d' where d': "serializeBlock sample_crypto (sampleTransferBlock\<lparr>BlockStateRoot := snd (treeRoot sample_crypto tr)\<rparr>) = Inr d'"
    using serializeBlock_root by blast
  have pre: "precheckTxsParallel sample_crypto [sampleSigned] DefaultChainID 1 r [] = [Inr 0]" for r
    by (simp add: precheckTxsParallel_def precheckTx_def sample_tx(3))
  have "\<exists>db' res. ApplyBlockForChain sample_crypto sampleWasm sampleCurve sampleJson id (sampleDB n) sampleTransferBlock DefaultChainID = Inr (db', res)"
    by (rule ApplyBlock_runs[where st = st and ?l1.0 = l and gas = 1 and nodes = "[]" and tr = tr and d = d', OF _ _ _ sample_parts(3) refl _ refl])
      (use st tr d' sample_tx in \<open>simp_all add: pre sample_parts sampleTransferBlock_def indexed_def applyMiss_def sampleJson_def\<close>, arith)
  then show thesis using that by blast
qed

lemma sample_ok: "stake_ok (stake (sampleDB n))" "supplyOf (ledger (stake (sampleDB n))) = 3000 * 10 ^ 18"
proof -
  show "stake_ok (stake (sampleDB n))"
    by (auto simp: sampleDB_def stake_ok_def sampleStore_def NewStore_def ledger_ok_def balances_ok_def bucket_ok_def)
  show "supplyOf (ledger (stake (sampleDB n))) = 3000 * 10 ^ 18" using sampleStore_total by (simp add: sampleDB_def)
qed


section \<open>Properties\<close>



text \<open>C2. The recorded total supply is exact: when it equals the sum of all balances before a block, it does so
after the block, fees burned, bonds slashed and rewards minted included. This covers every transaction but
contract transactions and transfers to oneself (which create value), for senders distinct from their own
escrow and reward accounts.\<close>

theorem statemachine_supply_tracked:
  assumes "stake_ok (stake db)" "\<forall>t\<in>set (Txs b). plainTx C t"
    and "CurrentTotalSupply db = (supplyOf (ledger (stake db)), True)"
    and "ApplyBlockForChain C W B J iter db b chainID = Inr (db', res)"
  shows "stake_ok (stake db') \<and> CurrentTotalSupply db' = (supplyOf (ledger (stake db')), True)"
  using block_effect(1)[OF assms(4,1)] block_effect(3)[OF assms(4,1,2,3)] by simp

theorem statemachine_supply_tracked_witness:
  "\<exists>db' res. ApplyBlockForChain sample_crypto sampleWasm sampleCurve sampleJson id (sampleDB 0) sampleTransferBlock DefaultChainID = Inr (db', res) \<and>
     CurrentTotalSupply db' = (supplyOf (ledger (stake db')), True)"
proof -
  obtain db' res where r: "ApplyBlockForChain sample_crypto sampleWasm sampleCurve sampleJson id (sampleDB 0) sampleTransferBlock DefaultChainID = Inr (db', res)"
    by (rule sample_runs[of 0]) simp
  have "plainTx sample_crypto sampleSigned" by code_simp
  then have p: "\<forall>t\<in>set (Txs sampleTransferBlock). plainTx sample_crypto t" by (simp add: sampleTransferBlock_def)
  have "CurrentTotalSupply (sampleDB 0) = (3000 * 10 ^ 18, True)"
    by (simp add: sampleDB_def CurrentTotalSupply_def bget_def)
  with statemachine_supply_tracked[OF sample_ok(1) p _ r] r sample_ok(2)[of 0] show ?thesis by auto
qed

text \<open>C12. Applying a block never takes value from a bystander: an account that no transaction of the block may
debit, by its type, sender and evidence, has at least its old balance afterwards, whatever the contracts in
the block do.\<close>

theorem statemachine_no_theft:
  assumes "stake_ok (stake db)" "ApplyBlockForChain C W B J iter db b chainID = Inr (db', res)"
    and "\<forall>t\<in>set (Txs b). \<not> mayDebit C t a"
  shows "BalanceOfTx (ledger (stake db)) a \<le> BalanceOfTx (ledger (stake db')) a"
  by (rule block_effect(2)[OF assms(2,1,3)])

theorem statemachine_no_theft_witness:
  "\<exists>db' res. ApplyBlockForChain sample_crypto sampleWasm sampleCurve sampleJson id (sampleDB 0) sampleTransferBlock DefaultChainID = Inr (db', res) \<and>
     BalanceOfTx (ledger (stake (sampleDB 0))) 9 \<le> BalanceOfTx (ledger (stake db')) 9"
proof -
  obtain db' res where r: "ApplyBlockForChain sample_crypto sampleWasm sampleCurve sampleJson id (sampleDB 0) sampleTransferBlock DefaultChainID = Inr (db', res)"
    by (rule sample_runs[of 0]) simp
  have "\<forall>t\<in>set (Txs sampleTransferBlock). \<not> mayDebit sample_crypto t 9"
    using sample_tx(3) by (simp add: sampleTransferBlock_def mayDebit_def sampleSigned_def sampleTx_def)
  with statemachine_no_theft[OF sample_ok(1) r] r show ?thesis by auto
qed

text \<open>A transaction that is skipped is still paid for: a block holding one transfer whose nonce is not the
next one, for instance a transfer executed long ago, moves nothing and leaves the nonce as it was, but the
sender is charged the base fee. Nothing prevents the same transaction from being included again.\<close>

theorem statemachine_stale_transfer_charged:
  assumes "stake_ok (stake db)" "ApplyBlockForChain C W B J iter db b chainID = Inr (db', res)"
    and "Txs b = [t]" "Type t = TxTypeTransfer" "Nonce t \<noteq> nonceAt (ledger (stake db)) (SenderPubKey t) + 1"
    and "BondedAmounts (stake db) = Inr (vals, amts)" "SenderPubKey t \<notin> FeeAccount C ` set vals"
  shows "BalanceOfTx (ledger (stake db')) (SenderPubKey t) = BalanceOfTx (ledger (stake db)) (SenderPubKey t) - currentBaseFee db \<and>
    nonceAt (ledger (stake db')) (SenderPubKey t) = nonceAt (ledger (stake db)) (SenderPubKey t) \<and>
    (\<forall>a. a \<noteq> SenderPubKey t \<and> a \<notin> FeeAccount C ` set vals \<longrightarrow>
       BalanceOfTx (ledger (stake db')) a = BalanceOfTx (ledger (stake db)) a)"
  using stale_transfer[OF assms(2,1,3-6)] assms(7) by (simp add: nonceAt_def)

theorem statemachine_stale_transfer_charged_witness:
  "\<exists>db' res. ApplyBlockForChain sample_crypto sampleWasm sampleCurve sampleJson id (sampleDB 1) sampleTransferBlock DefaultChainID = Inr (db', res) \<and>
     BalanceOfTx (ledger (stake db')) 3 = 3000 * 10 ^ 18 - 1"
proof -
  obtain db' res where r: "ApplyBlockForChain sample_crypto sampleWasm sampleCurve sampleJson id (sampleDB 1) sampleTransferBlock DefaultChainID = Inr (db', res)"
    by (rule sample_runs[of 1]) simp
  have b: "BondedAmounts (stake (sampleDB 1)) = Inr ([], [])"
    by (simp add: sampleDB_def sampleStore_def NewStore_def BondedAmounts_def)
  have t: "Txs sampleTransferBlock = [sampleSigned]" "SenderPubKey sampleSigned = 3" "Nonce sampleSigned = 1"
    by (simp_all add: sampleTransferBlock_def sampleSigned_def sampleTx_def)
  have n: "nonceAt (ledger (stake (sampleDB 1))) 3 = 1" "BalanceOfTx (ledger (stake (sampleDB 1))) 3 = 3000 * 10 ^ 18" by code_simp+
  have "BalanceOfTx (ledger (stake db')) 3 = BalanceOfTx (ledger (stake (sampleDB 1))) 3 - currentBaseFee (sampleDB 1)"
    using statemachine_stale_transfer_charged[OF sample_ok(1) r t(1) sample_tx(3) _ b] unfolding t n by simp
  then show ?thesis using r unfolding n sample_parts by blast
qed

text \<open>A node records at most one vote per height, round and vote type, for ever: once a vote is recorded, no
sequence of applied blocks, recorded votes and saved or cleared consensus states makes the slot available
again, for the same block or another one.\<close>

theorem statemachine_one_vote_per_slot:
  assumes "RecordConsensusVote db h r ty bh = (db1, True)" "(nodeStep C W B J iter)\<^sup>*\<^sup>* db1 db2"
  shows "RecordConsensusVote db2 h r ty bh' = (db2, False) \<and>
    bget (meta db2) (consensusVoteKey h r ty) = Some (arr32 bh)"
proof -
  have "bget (meta db1) (consensusVoteKey h r ty) = Some (arr32 bh)"
    using assms(1) by (auto simp: RecordConsensusVote_def Let_def bget_bput split: option.splits)
  from voteKey_reach[OF assms(2) this] show ?thesis by (simp add: RecordConsensusVote_def)
qed

theorem statemachine_one_vote_per_slot_witness:
  "\<exists>db1. RecordConsensusVote (sampleDB 0) 1 0 1 7 = (db1, True) \<and>
     RecordConsensusVote (SaveConsensusState db1 [1]) 1 0 1 8 = (SaveConsensusState db1 [1], False)"
proof -
  obtain db1 where r: "RecordConsensusVote (sampleDB 0) 1 0 1 7 = (db1, True)"
    using voteKey_distinct(4)[of 1 0 1] by (simp add: RecordConsensusVote_def sampleDB_def bget_def Let_def)
  have "(nodeStep sample_crypto sampleWasm sampleCurve sampleJson id)\<^sup>*\<^sup>* db1 (SaveConsensusState db1 [1])"
    by (rule r_into_rtranclp) (rule nodeStep.save)
  from statemachine_one_vote_per_slot[OF r this] r show ?thesis by blast
qed

text \<open>No evidence convicts a validator that votes through its vote record: when every non-nil vote that
verifies under the validator's key is the vote recorded for its slot, no transaction passes the check of
equivocation evidence against that validator.\<close>

theorem statemachine_honest_not_convicted:
  assumes "\<forall>x. EvValidatorPK x = v \<and> verifyEvidenceVote C x chainID \<and> EvBlockHash x \<noteq> 0 \<longrightarrow>
      bget (meta db) (consensusVoteKey (EvHeight x) (EvRound x) (EvType x)) = Some (arr32 (EvBlockHash x))"
  shows "validateEquivocationEvidenceTx C t chainID \<noteq> Inr v"
proof
  assume "validateEquivocationEvidenceTx C t chainID = Inr v"
  then obtain x y where xy: "verifyEvidenceVote C x chainID" "verifyEvidenceVote C y chainID" "EvValidatorPK x = v" "EvValidatorPK y = v"
    "EvType x = EvType y" "EvHeight x = EvHeight y" "EvRound x = EvRound y" "EvBlockHash x \<noteq> EvBlockHash y"
    "EvBlockHash x \<noteq> 0" "EvBlockHash y \<noteq> 0" by (rule evidence_conflict)
  from assms xy have "arr32 (EvBlockHash x) = arr32 (EvBlockHash y)" by (metis option.inject)
  then have "to32 (arr32 (EvBlockHash x)) = to32 (arr32 (EvBlockHash y))" by simp
  with xy(8) show False by (simp add: codec_simps)
qed

definition sampleVote :: evidenceVote where
  "sampleVote = \<lparr>EvType = 1, EvHeight = 1, EvRound = 0, EvBlockHash = 7, EvValidatorPK = 3, EvSig = 0\<rparr>"

theorem statemachine_honest_not_convicted_witness:
  "\<exists>C db. verifyEvidenceVote C sampleVote DefaultChainID \<and>
     fst (RecordConsensusVote (sampleDB 0) 1 0 1 7) = db \<and>
     (\<forall>t. validateEquivocationEvidenceTx C t DefaultChainID \<noteq> Inr 3)"
proof -
  let ?C = "sample_crypto\<lparr>ed_verify := \<lambda>pk m s. m = evidenceSignBytes sampleVote DefaultChainID\<rparr>"
  let ?db = "fst (RecordConsensusVote (sampleDB 0) 1 0 1 7)"
  have n: "DefaultChainID \<noteq> []" by (simp add: DefaultChainID_def str_def)
  have "verifyEvidenceVote ?C sampleVote DefaultChainID"
    using n by (simp add: verifyEvidenceVote_def Verify_def sampleVote_def)
  moreover have "bget (meta ?db) (consensusVoteKey 1 0 1) = Some (arr32 7)"
    using voteKey_distinct(4)[of 1 0 1] by (simp add: RecordConsensusVote_def sampleDB_def bget_def Let_def)
  then have "bget (meta ?db) (consensusVoteKey (EvHeight x) (EvRound x) (EvType x)) = Some (arr32 (EvBlockHash x))"
    if "verifyEvidenceVote ?C x DefaultChainID" for x
  proof -
    have "evidenceSignBytes x DefaultChainID = evidenceSignBytes sampleVote DefaultChainID"
      using that n by (simp add: verifyEvidenceVote_def Verify_def split: if_splits)
    then have "EvType x = 1 \<and> EvHeight x = 1 \<and> EvRound x = 0 \<and> EvBlockHash x = 7"
      by (simp add: evidenceSignBytes_def sampleVote_def codec_simps)
    then show ?thesis using \<open>bget (meta ?db) (consensusVoteKey 1 0 1) = Some (arr32 7)\<close> by simp
  qed
  then have "\<forall>t. validateEquivocationEvidenceTx ?C t DefaultChainID \<noteq> Inr 3"
    using statemachine_honest_not_convicted[of 3 ?C DefaultChainID ?db] by blast
  ultimately show ?thesis by blast
qed

end
