(* ===== verification/FRG_Vote.thy ===== *)
theory FRG_Vote
  imports FRG_BlockLaws
begin

text \<open>Votes, proposals and attestations (\<^verbatim>\<open>core/consensus/vote.go\<close>): their encodings and signed bytes, and the
  two quorum tests.\<close>

section \<open>Votes\<close>

abbreviation (input) VotePrevote :: u8 where "VotePrevote \<equiv> 1"
abbreviation (input) VotePrecommit :: u8 where "VotePrecommit \<equiv> 2"

record Vote =
  VType :: u8
  VHeight :: u64
  VRound :: u32
  VBlockHash :: bytes32
  ValidatorPK :: bytes32
  VSig :: bytes64

definition SerializeVote :: "Vote \<Rightarrow> bytes" where
  "SerializeVote v = [VType v] @ PutUint64 (VHeight v) @ PutUint32 (VRound v) @ arr32 (VBlockHash v)
     @ arr32 (ValidatorPK v) @ arr64 (VSig v)"

definition DeserializeVote :: "bytes \<Rightarrow> Vote res" where
  "DeserializeVote data =
     rguard (length data \<noteq> 141) (GoError ''invalid vote length'')
     (Inr \<lparr>VType = data ! 0, VHeight = Uint64 (go_slice 1 9 data), VRound = Uint32 (go_slice 9 13 data),
           VBlockHash = to32 (go_slice 13 45 data), ValidatorPK = to32 (go_slice 45 77 data), VSig = to64 (go_slice 77 141 data)\<rparr>)"

definition VoteSignBytesForChain :: "Vote \<Rightarrow> bytes \<Rightarrow> bytes" where
  "VoteSignBytesForChain v chainID =
     (let chainID = (if chainID = [] then DefaultChainID else chainID) in
      str ''FRG_VOTE_V1'' @ [0] @ PutUint16 (of_nat (length chainID)) @ chainID @ [VType v]
        @ PutUint64 (VHeight v) @ PutUint32 (VRound v) @ arr32 (VBlockHash v))"

definition VoteSignBytes :: "Vote \<Rightarrow> bytes" where
  "VoteSignBytes v = VoteSignBytesForChain v DefaultChainID"

definition VerifyVoteForChain :: "crypto \<Rightarrow> Vote \<Rightarrow> bytes \<Rightarrow> bool" where
  "VerifyVoteForChain C v chainID =
     (if VType v \<noteq> VotePrevote \<and> VType v \<noteq> VotePrecommit then False
      else Verify C (ValidatorPK v) (VoteSignBytesForChain v chainID) (VSig v))"

definition VerifyVote :: "crypto \<Rightarrow> Vote \<Rightarrow> bool" where
  "VerifyVote C v = VerifyVoteForChain C v DefaultChainID"


section \<open>Proposals\<close>

record AttestationSet =
  AttHeight :: u64
  AttRound :: u32
  AttBlockHash :: bytes32
  AttVotes :: "Vote list"

record BlockProposal =
  PropHeight :: u64
  PropRound :: u32
  ProposerPK :: bytes32
  PropPrevStateRoot :: bytes32
  PropTxs :: "Tx list"
  PrevAttestations :: AttestationSet
  ProposerSig :: bytes64

definition emptyAttestation :: AttestationSet where
  "emptyAttestation = \<lparr>AttHeight = 0, AttRound = 0, AttBlockHash = 0, AttVotes = []\<rparr>"

abbreviation (input) maxProposalVotes :: nat where "maxProposalVotes \<equiv> 4096"
abbreviation (input) maxProposalTxs :: nat where "maxProposalTxs \<equiv> 65536"

definition serializeProposalBody :: "crypto \<Rightarrow> BlockProposal \<Rightarrow> bytes res" where
  "serializeProposalBody C p =
     (let att = PrevAttestations p in
      rguard (length (AttVotes att) > maxProposalVotes) (GoError ''proposal vote count exceeds limit'')
      (rguard (length (PropTxs p) > maxProposalTxs) (GoError ''proposal transaction count exceeds limit'')
      (rbind (if PropTxs p = [] then Inr [] else SerializeBatch C (PropTxs p)) (\<lambda>txBytes.
       Inr (PutUint64 (PropHeight p) @ PutUint32 (PropRound p) @ arr32 (ProposerPK p) @ arr32 (PropPrevStateRoot p)
         @ PutUint64 (AttHeight att) @ PutUint32 (AttRound att) @ arr32 (AttBlockHash att)
         @ PutUint32 (of_nat (length (AttVotes att))) @ concat (map SerializeVote (AttVotes att))
         @ PutUint32 (of_nat (length (PropTxs p))) @ txBytes)))))"

text \<open>A serialization error is dropped and leaves an empty body; the sixteen bytes of the domain are copied
  into a twelve-byte slice.\<close>

definition ProposalSignBytesForChain :: "crypto \<Rightarrow> BlockProposal \<Rightarrow> bytes \<Rightarrow> bytes" where
  "ProposalSignBytesForChain C p chainID =
     (let body = (case serializeProposalBody C p of Inr b \<Rightarrow> b | Inl _ \<Rightarrow> []);
          chainID = (if chainID = [] then DefaultChainID else chainID) in
      take 12 (str ''FRG_PROPOSAL_V1'' @ [0]) @ PutUint16 (of_nat (length chainID)) @ chainID @ body)"

definition ProposalSignBytes :: "crypto \<Rightarrow> BlockProposal \<Rightarrow> bytes" where
  "ProposalSignBytes C p = ProposalSignBytesForChain C p DefaultChainID"

definition BlockHashForChain :: "crypto \<Rightarrow> BlockProposal \<Rightarrow> bytes \<Rightarrow> bytes32" where
  "BlockHashForChain C p chainID = sha256 C (ProposalSignBytesForChain C p chainID)"

definition BlockHash :: "crypto \<Rightarrow> BlockProposal \<Rightarrow> bytes32" where
  "BlockHash C p = BlockHashForChain C p DefaultChainID"

definition VerifyProposalForChain :: "crypto \<Rightarrow> BlockProposal \<Rightarrow> bytes \<Rightarrow> bool" where
  "VerifyProposalForChain C p chainID = Verify C (ProposerPK p) (ProposalSignBytesForChain C p chainID) (ProposerSig p)"

definition SerializeProposal :: "crypto \<Rightarrow> BlockProposal \<Rightarrow> bytes res" where
  "SerializeProposal C p = rbind (serializeProposalBody C p) (\<lambda>body. Inr (arr64 (ProposerSig p) @ body))"

text \<open>The votes of a proposal, and the rest of the body behind them.\<close>

fun readVotes :: "nat \<Rightarrow> bytes \<Rightarrow> (Vote list \<times> bytes) res" where
  "readVotes n body = (if n = 0 then Inr ([], body) else
     rguard (length body < 141) (GoError ''truncated vote'')
     (rbind (DeserializeVote (take 141 body)) (\<lambda>v.
      rbind (readVotes (n - 1) (drop 141 body)) (\<lambda>(vs, rest). Inr (v # vs, rest)))))"

declare readVotes.simps [simp del]

definition DeserializeProposal :: "crypto \<Rightarrow> bytes \<Rightarrow> BlockProposal res" where
  "DeserializeProposal C data =
     rguard (length data < 64+8+4+32+32+8+4+32+4) (GoError ''proposal too short'')
     (let body = drop 64 data; voteCount = unat (Uint32 (drop 120 body)) in
      rguard (voteCount > maxProposalVotes \<or> voteCount > (length body - 124) div 141)
        (GoError ''proposal vote count exceeds payload bounds'')
      (rbind (readVotes voteCount (drop 124 body)) (\<lambda>(votes, rest).
       rguard (length rest < 4) (GoError ''missing tx count'')
       (let txCount = unat (Uint32 rest); batch = drop 4 rest;
            p = (\<lambda>txs. \<lparr>PropHeight = Uint64 body, PropRound = Uint32 (drop 8 body), ProposerPK = to32 (drop 12 body),
              PropPrevStateRoot = to32 (drop 44 body), PropTxs = txs,
              PrevAttestations = \<lparr>AttHeight = Uint64 (drop 76 body), AttRound = Uint32 (drop 84 body),
                AttBlockHash = to32 (drop 88 body), AttVotes = votes\<rparr>, ProposerSig = to64 data\<rparr>) in
        rguard (txCount > maxProposalTxs) (GoError ''proposal transaction count exceeds limit'')
        (if txCount = 0 then rguard (batch \<noteq> []) (GoError ''trailing bytes after empty tx list'') (Inr (p []))
         else rguard (batch = []) (GoError ''missing tx batch'')
           (rbind (DeserializeBatch C batch) (\<lambda>txs.
            rguard (length txs \<noteq> txCount) (GoError ''tx count mismatch'') (Inr (p txs)))))))))"


section \<open>Quorums\<close>

text \<open>\<^verbatim>\<open>stakeMap\<close>: the last entry of a key wins.\<close>

definition stakeMap :: "bytes32 list \<Rightarrow> 'a list \<Rightarrow> bytes32 \<rightharpoonup> 'a" where
  "stakeMap vals stakes = map_of (rev (zip vals stakes))"

fun checkVotes :: "crypto \<Rightarrow> bytes \<Rightarrow> AttestationSet \<Rightarrow> (bytes32 \<rightharpoonup> int) \<Rightarrow> Vote list \<Rightarrow> bytes32 list \<Rightarrow> int \<Rightarrow> int res" where
  "checkVotes C chainID as sm [] seen votedStake = Inr votedStake"
| "checkVotes C chainID as sm (v # vs) seen votedStake =
     rguard (VType v \<noteq> VotePrecommit \<or> VHeight v \<noteq> AttHeight as \<or> VRound v \<noteq> AttRound as \<or> VBlockHash v \<noteq> AttBlockHash as)
       (GoError ''attestation vote context mismatch'')
     (case sm (ValidatorPK v) of None \<Rightarrow> Inl (GoError ''attestation contains non-validator vote'')
      | Some stk \<Rightarrow>
         rguard (ValidatorPK v \<in> set seen) (GoError ''attestation contains duplicate validator vote'')
         (rguard (\<not> VerifyVoteForChain C v chainID) (GoError ''attestation contains invalid vote signature'')
         (checkVotes C chainID as sm vs (ValidatorPK v # seen) (votedStake + stk))))"

definition VerifyAttestationForChain ::
  "crypto \<Rightarrow> AttestationSet option \<Rightarrow> bytes32 list \<Rightarrow> int option list \<Rightarrow> bytes \<Rightarrow> unit res" where
  "VerifyAttestationForChain C a vals stakes chainID =
     (case a of None \<Rightarrow> Inl (GoError ''empty attestation set'')
      | Some as \<Rightarrow>
         rguard (AttVotes as = []) (GoError ''empty attestation set'')
         (rguard (length vals \<noteq> length stakes) (GoError ''validator and stake sets are misaligned'')
         (rguard (list_ex (\<lambda>s. s = None \<or> the s < 0) stakes) (GoError ''invalid validator stake'')
         (let amounts = map the stakes; totalStake = sum_list amounts in
          rbind (checkVotes C chainID as (stakeMap vals amounts) (AttVotes as) [] 0) (\<lambda>votedStake.
          rguard (totalStake = 0 \<or> votedStake * 3 \<le> totalStake * 2) (GoError ''attestation does not reach quorum'')
          (Inr ()))))))"

definition VerifyAttestation :: "crypto \<Rightarrow> AttestationSet option \<Rightarrow> bytes32 list \<Rightarrow> int option list \<Rightarrow> unit res" where
  "VerifyAttestation C a vals stakes = VerifyAttestationForChain C a vals stakes DefaultChainID"

text \<open>A map of votes by validator key is kept in key order.\<close>

type_synonym votes = "(bytes32, Vote) bucket"

definition stakeOf :: "bytes32 list \<Rightarrow> int list \<Rightarrow> bytes32 \<Rightarrow> int" where
  "stakeOf vals stakes pk = (case stakeMap vals stakes pk of None \<Rightarrow> 0 | Some s \<Rightarrow> s)"

definition QuorumReached :: "votes \<Rightarrow> bytes32 list \<Rightarrow> int list \<Rightarrow> bool" where
  "QuorumReached voteMap vals stakes \<longleftrightarrow>
     sum_list (map (stakeOf vals stakes \<circ> fst) voteMap) * 3 > sum_list stakes * 2"


section \<open>Encodings\<close>

lemma length_SerializeVote [simp]: "length (SerializeVote v) = 141"
  by (simp add: SerializeVote_def codec_simps)

lemma vote_drops:
  "drop (Suc 0) (SerializeVote v) = PutUint64 (VHeight v) @ PutUint32 (VRound v) @ arr32 (VBlockHash v) @ arr32 (ValidatorPK v) @ arr64 (VSig v)"
  "drop 9 (SerializeVote v) = PutUint32 (VRound v) @ arr32 (VBlockHash v) @ arr32 (ValidatorPK v) @ arr64 (VSig v)"
  "drop 13 (SerializeVote v) = arr32 (VBlockHash v) @ arr32 (ValidatorPK v) @ arr64 (VSig v)"
  "drop 45 (SerializeVote v) = arr32 (ValidatorPK v) @ arr64 (VSig v)" "drop 77 (SerializeVote v) = arr64 (VSig v)"
  "SerializeVote v ! 0 = VType v"
proof -
  let ?d = "SerializeVote v"
  show 1: "drop (Suc 0) ?d = PutUint64 (VHeight v) @ PutUint32 (VRound v) @ arr32 (VBlockHash v) @ arr32 (ValidatorPK v) @ arr64 (VSig v)"
    by (simp add: SerializeVote_def)
  show 9: "drop 9 ?d = PutUint32 (VRound v) @ arr32 (VBlockHash v) @ arr32 (ValidatorPK v) @ arr64 (VSig v)"
    using drop_next[OF 1, of 8] by (simp add: codec_simps)
  show 13: "drop 13 ?d = arr32 (VBlockHash v) @ arr32 (ValidatorPK v) @ arr64 (VSig v)"
    using drop_next[OF 9, of 4] by (simp add: codec_simps)
  show 45: "drop 45 ?d = arr32 (ValidatorPK v) @ arr64 (VSig v)" using drop_next[OF 13, of 32] by (simp add: codec_simps)
  show "drop 77 ?d = arr64 (VSig v)" using drop_next[OF 45, of 32] by (simp add: codec_simps)
  show "?d ! 0 = VType v" by (simp add: SerializeVote_def)
qed

lemma DeserializeVote_Serialize [simp]: "DeserializeVote (SerializeVote v) = Inr v"
  by (simp add: DeserializeVote_def go_slice_def vote_drops codec_simps)

lemma readVotes_concat: "readVotes (length vs) (concat (map SerializeVote vs) @ rest) = Inr (vs, rest)"
  by (induction vs) (simp_all add: readVotes.simps)

text \<open>The vote record of the state machine's evidence check is the same vote.\<close>

definition evidenceOf :: "Vote \<Rightarrow> evidenceVote" where
  "evidenceOf v = \<lparr>EvType = VType v, EvHeight = VHeight v, EvRound = VRound v, EvBlockHash = VBlockHash v,
     EvValidatorPK = ValidatorPK v, EvSig = VSig v\<rparr>"

lemma evidence_deserialize: "deserializeEvidenceVote (SerializeVote v) = Inr (evidenceOf v)"
  by (simp add: deserializeEvidenceVote_def evidenceOf_def vote_drops codec_simps)

lemma evidence_verify: "verifyEvidenceVote C (evidenceOf v) chainID = VerifyVoteForChain C v chainID"
  by (simp add: verifyEvidenceVote_def VerifyVoteForChain_def evidenceOf_def VoteSignBytesForChain_def evidenceSignBytes_def Let_def)


lemma proposal_body_fields:
  assumes "body = PutUint64 h @ PutUint32 r @ arr32 pk @ arr32 root @ PutUint64 ah @ PutUint32 ar @ arr32 ab @ PutUint32 n @ rest"
  shows "Uint64 body = h" "Uint32 (drop 8 body) = r" "to32 (drop 12 body) = pk" "to32 (drop 44 body) = root"
    "Uint64 (drop 76 body) = ah" "Uint32 (drop 84 body) = ar" "to32 (drop 88 body) = ab" "Uint32 (drop 120 body) = n"
    "drop 124 body = rest"
proof -
  have 0: "drop 0 body = PutUint64 h @ PutUint32 r @ arr32 pk @ arr32 root @ PutUint64 ah @ PutUint32 ar @ arr32 ab @ PutUint32 n @ rest"
    by (simp add: assms)
  have 8: "drop 8 body = PutUint32 r @ arr32 pk @ arr32 root @ PutUint64 ah @ PutUint32 ar @ arr32 ab @ PutUint32 n @ rest"
    using drop_next[OF 0, of 8] by (simp add: codec_simps)
  have 12: "drop 12 body = arr32 pk @ arr32 root @ PutUint64 ah @ PutUint32 ar @ arr32 ab @ PutUint32 n @ rest"
    using drop_next[OF 8, of 4] by (simp add: codec_simps)
  have 44: "drop 44 body = arr32 root @ PutUint64 ah @ PutUint32 ar @ arr32 ab @ PutUint32 n @ rest"
    using drop_next[OF 12, of 32] by (simp add: codec_simps)
  have 76: "drop 76 body = PutUint64 ah @ PutUint32 ar @ arr32 ab @ PutUint32 n @ rest"
    using drop_next[OF 44, of 32] by (simp add: codec_simps)
  have 84: "drop 84 body = PutUint32 ar @ arr32 ab @ PutUint32 n @ rest" using drop_next[OF 76, of 8] by (simp add: codec_simps)
  have 88: "drop 88 body = arr32 ab @ PutUint32 n @ rest" using drop_next[OF 84, of 4] by (simp add: codec_simps)
  have 120: "drop 120 body = PutUint32 n @ rest" using drop_next[OF 88, of 32] by (simp add: codec_simps)
  show "Uint64 body = h" using 0 by (simp add: codec_simps)
  show "drop 124 body = rest" using drop_next[OF 120, of 4] by (simp add: codec_simps)
  show "Uint32 (drop 8 body) = r" "to32 (drop 12 body) = pk" "to32 (drop 44 body) = root"
    "Uint64 (drop 76 body) = ah" "Uint32 (drop 84 body) = ar" "to32 (drop 88 body) = ab" "Uint32 (drop 120 body) = n"
    by (simp_all add: 8 12 44 76 84 88 120 codec_simps)
qed

lemma serializeProposalBody_Inr:
  assumes "serializeProposalBody C p = Inr body"
  obtains batch where "if PropTxs p = [] then batch = [] else SerializeBatch C (PropTxs p) = Inr batch"
    "length (AttVotes (PrevAttestations p)) \<le> maxProposalVotes" "length (PropTxs p) \<le> maxProposalTxs"
    "body = PutUint64 (PropHeight p) @ PutUint32 (PropRound p) @ arr32 (ProposerPK p) @ arr32 (PropPrevStateRoot p)
       @ PutUint64 (AttHeight (PrevAttestations p)) @ PutUint32 (AttRound (PrevAttestations p)) @ arr32 (AttBlockHash (PrevAttestations p))
       @ PutUint32 (of_nat (length (AttVotes (PrevAttestations p)))) @ concat (map SerializeVote (AttVotes (PrevAttestations p)))
       @ PutUint32 (of_nat (length (PropTxs p))) @ batch"
  using assms by (auto simp: serializeProposalBody_def res_simps Let_def not_less split: if_splits)

lemma length_votes: "length (concat (map SerializeVote vs)) = 141 * length vs"
  by (induction vs) simp_all

lemma proposal_roundtrip:
  assumes "nfc_documented C" "SerializeProposal C p = Inr d"
  shows "DeserializeProposal C d =
    (if length (PropTxs p) < maxProposalTxs then Inr (p\<lparr>PropTxs := map (canonicalTx C) (PropTxs p)\<rparr>) else Inl canonErr)"
proof -
  let ?a = "PrevAttestations p" and ?n = "length (PropTxs p)"
  from assms(2) obtain body where b: "serializeProposalBody C p = Inr body" and d: "d = arr64 (ProposerSig p) @ body"
    by (auto simp: SerializeProposal_def res_simps)
  obtain batch where batch: "if PropTxs p = [] then batch = [] else SerializeBatch C (PropTxs p) = Inr batch"
    and lim: "length (AttVotes ?a) \<le> maxProposalVotes" "?n \<le> maxProposalTxs"
    and body: "body = PutUint64 (PropHeight p) @ PutUint32 (PropRound p) @ arr32 (ProposerPK p) @ arr32 (PropPrevStateRoot p)
       @ PutUint64 (AttHeight ?a) @ PutUint32 (AttRound ?a) @ arr32 (AttBlockHash ?a)
       @ PutUint32 (of_nat (length (AttVotes ?a))) @ concat (map SerializeVote (AttVotes ?a)) @ PutUint32 (of_nat ?n) @ batch"
    using serializeProposalBody_Inr[OF b] .
  note f = proposal_body_fields[OF body]
  have n: "unat (of_nat (length (AttVotes ?a)) :: u32) = length (AttVotes ?a)" "unat (of_nat ?n :: u32) = ?n"
    using lim by (auto intro!: unat_of_nat_u32)
  have len: "length body = 128 + 141 * length (AttVotes ?a) + length batch" by (simp add: body codec_simps length_votes)
  have sig: "to64 (arr64 (ProposerSig p) @ body) = ProposerSig p" by (simp add: codec_simps)
  have rv: "readVotes (length (AttVotes ?a)) (drop 124 body) = Inr (AttVotes ?a, PutUint32 (of_nat ?n) @ batch)"
    unfolding f(9) by (rule readVotes_concat)
  have batch0: "batch \<noteq> []" if "PropTxs p \<noteq> []"
  proof -
    have "SerializeBatch C (PropTxs p) = Inr batch" using batch that by simp
    from SerializeBatch_Inr[OF this] obtain r where "batch = DomainTxBatch @ r" by blast
    then have "12 \<le> length batch" by simp
    then show ?thesis by auto
  qed
  have ds: "PropTxs p \<noteq> [] \<Longrightarrow> DeserializeBatch C batch =
      (if ?n < maxBatchTxs then Inr (map (canonicalTx C) (PropTxs p)) else Inl canonErr)"
    using batch batch_roundtrip_general[OF assms(1)] by simp
  show ?thesis
    using len lim batch0 ds batch
    by (cases "PropTxs p = []")
      (simp_all add: DeserializeProposal_def d codec_simps Let_def f(1-8) n rv sig rguard_def)
qed


section \<open>Quorums intersect\<close>

text \<open>Votes weighted by stake: a quorum holds more than two thirds of the total.\<close>

locale stake_quorums =
  fixes V :: "'v set" and w :: "'v \<Rightarrow> nat"
  assumes finite_V: "finite V"
begin

definition quorum :: "'v set \<Rightarrow> bool" where
  "quorum Q \<longleftrightarrow> Q \<subseteq> V \<and> 3 * sum w Q > 2 * sum w V"

lemma quorum_intersect:
  assumes "quorum Q" "quorum R"
  shows "3 * sum w (Q \<inter> R) > sum w V"
proof -
  have sub: "Q \<subseteq> V" "R \<subseteq> V" using assms by (simp_all add: quorum_def)
  have fin: "finite Q" "finite R" using sub finite_V finite_subset by blast+
  have "sum w (Q \<union> R) + sum w (Q \<inter> R) = sum w Q + sum w R" using sum.union_inter[OF fin] .
  moreover have "sum w (Q \<union> R) \<le> sum w V" using sub finite_V by (intro sum_mono2) auto
  ultimately show ?thesis using assms by (simp add: quorum_def)
qed

lemma quorum_intersect_honest:
  assumes "quorum Q" "quorum R" "3 * sum w F \<le> sum w V" "F \<subseteq> V"
  obtains v where "v \<in> Q" "v \<in> R" "v \<notin> F"
proof -
  have "finite F" using assms(4) finite_V finite_subset by blast
  then have "Q \<inter> R \<subseteq> F \<Longrightarrow> sum w (Q \<inter> R) \<le> sum w F" by (intro sum_mono2) auto
  then have "\<not> Q \<inter> R \<subseteq> F" using quorum_intersect[OF assms(1,2)] assms(3) by linarith
  then show thesis using that by blast
qed

end

interpretation byStake: stake_quorums "set vals" "\<lambda>pk. nat (stakeOf vals stakes pk)" for vals stakes
  by unfold_locales simp

text \<open>A validator set as the staking store reports it: distinct keys with non-negative stakes.\<close>

definition validators_ok :: "bytes32 list \<Rightarrow> int list \<Rightarrow> bool" where
  "validators_ok vals stakes \<longleftrightarrow> distinct vals \<and> length vals = length stakes \<and> (\<forall>s\<in>set stakes. 0 \<le> s)"

lemma stakeMap_nth:
  assumes "distinct vals" "i < length vals" "length vals = length stakes"
  shows "stakeMap vals stakes (vals ! i) = Some (stakes ! i)"
proof -
  have "distinct (map fst (rev (zip vals stakes)))" using assms by (simp add: rev_map[symmetric])
  moreover have "(vals ! i, stakes ! i) \<in> set (rev (zip vals stakes))" using assms by (auto simp: set_zip)
  ultimately show ?thesis unfolding stakeMap_def by (rule map_of_is_SomeI)
qed

lemma stakeMap_None: "length vals = length stakes \<Longrightarrow> pk \<notin> set vals \<Longrightarrow> stakeMap vals stakes pk = None"
  by (auto simp: stakeMap_def map_of_eq_None_iff dest: set_zip_leftD)

lemma stakeOf_total:
  assumes "validators_ok vals stakes"
  shows "sum (stakeOf vals stakes) (set vals) = sum_list stakes"
proof -
  have d: "distinct vals" "length vals = length stakes" using assms by (simp_all add: validators_ok_def)
  have "sum (stakeOf vals stakes) (set vals) = sum_list (map (stakeOf vals stakes) vals)"
    using d by (simp add: sum_list_distinct_conv_sum_set)
  also have "map (stakeOf vals stakes) vals = stakes"
    using d by (intro nth_equalityI) (simp_all add: stakeOf_def stakeMap_nth)
  finally show ?thesis .
qed

lemma stakeOf_nonneg: "validators_ok vals stakes \<Longrightarrow> 0 \<le> stakeOf vals stakes pk"
  by (auto simp: stakeOf_def stakeMap_def validators_ok_def split: option.splits dest!: map_of_SomeD set_zip_rightD)

lemma stakeOf_outside: "validators_ok vals stakes \<Longrightarrow> pk \<notin> set vals \<Longrightarrow> stakeOf vals stakes pk = 0"
  by (simp add: stakeOf_def stakeMap_None validators_ok_def)

definition votersOf :: "bytes32 list \<Rightarrow> votes \<Rightarrow> bytes32 set" where
  "votersOf vals vm = fst ` set vm \<inter> set vals"

lemma voted_stake:
  assumes "validators_ok vals stakes" "distinct pks"
  shows "sum_list (map (stakeOf vals stakes) pks) = sum (stakeOf vals stakes) (set pks \<inter> set vals)"
proof -
  have "sum_list (map (stakeOf vals stakes) pks) = sum (stakeOf vals stakes) (set pks)"
    using assms(2) by (simp add: sum_list_distinct_conv_sum_set)
  also have "\<dots> = sum (stakeOf vals stakes) (set pks \<inter> set vals)"
    by (rule sum.mono_neutral_right) (auto simp: stakeOf_outside[OF assms(1)])
  finally show ?thesis .
qed


lemma int_stakes:
  assumes "validators_ok vals stakes"
  shows "int (\<Sum>pk\<in>S. nat (stakeOf vals stakes pk)) = sum (stakeOf vals stakes) S"
  using stakeOf_nonneg[OF assms] by simp

text \<open>The test of the code says that the voters form a quorum.\<close>

lemma quorum_stake_iff:
  assumes "validators_ok vals stakes" "distinct pks"
  shows "sum_list (map (stakeOf vals stakes) pks) * 3 > sum_list stakes * 2 \<longleftrightarrow>
    byStake.quorum vals stakes (set pks \<inter> set vals)"
proof -
  have "byStake.quorum vals stakes (set pks \<inter> set vals) \<longleftrightarrow>
      2 * sum (stakeOf vals stakes) (set vals) < 3 * sum (stakeOf vals stakes) (set pks \<inter> set vals)"
    unfolding byStake.quorum_def int_stakes[OF assms(1), symmetric] by (simp del: int_sum of_nat_sum) linarith
  then show ?thesis by (simp add: voted_stake[OF assms] stakeOf_total[OF assms(1)] algebra_simps)
qed

lemma QuorumReached_quorum:
  assumes "validators_ok vals stakes" "bucket_ok vm"
  shows "QuorumReached vm vals stakes \<longleftrightarrow> byStake.quorum vals stakes (votersOf vals vm)"
  using quorum_stake_iff[OF assms(1) bucket_ok_distinct[OF assms(2)]]
  by (simp add: QuorumReached_def votersOf_def)

section \<open>Attestations\<close>

lemma checkVotes_Inr:
  assumes "checkVotes C chainID as sm vs seen z = Inr z'"
  shows "distinct (map ValidatorPK vs) \<and> set (map ValidatorPK vs) \<inter> set seen = {} \<and>
    (\<forall>v\<in>set vs. VType v = VotePrecommit \<and> VHeight v = AttHeight as \<and> VRound v = AttRound as \<and> VBlockHash v = AttBlockHash as \<and>
       VerifyVoteForChain C v chainID \<and> sm (ValidatorPK v) \<noteq> None) \<and>
    z' = z + sum_list (map (\<lambda>v. the (sm (ValidatorPK v))) vs)"
  using assms
proof (induction vs arbitrary: seen z)
  case (Cons v vs)
  from Cons.prems obtain stk where v: "VType v = VotePrecommit" "VHeight v = AttHeight as" "VRound v = AttRound as"
      "VBlockHash v = AttBlockHash as" "sm (ValidatorPK v) = Some stk" "ValidatorPK v \<notin> set seen" "VerifyVoteForChain C v chainID"
    and rest: "checkVotes C chainID as sm vs (ValidatorPK v # seen) (z + stk) = Inr z'"
    by (auto simp: rguard_Inr_iff split: option.splits)
  from Cons.IH[OF rest] v show ?case by auto
qed simp

lemma checkVotes_intro:
  assumes "distinct (map ValidatorPK vs)" "set (map ValidatorPK vs) \<inter> set seen = {}"
    and "\<forall>v\<in>set vs. VType v = VotePrecommit \<and> VHeight v = AttHeight as \<and> VRound v = AttRound as \<and> VBlockHash v = AttBlockHash as \<and>
       VerifyVoteForChain C v chainID \<and> sm (ValidatorPK v) \<noteq> None"
  shows "checkVotes C chainID as sm vs seen z = Inr (z + sum_list (map (\<lambda>v. the (sm (ValidatorPK v))) vs))"
  using assms
proof (induction vs arbitrary: seen z)
  case (Cons v vs)
  from Cons.prems(3) obtain stk where stk: "sm (ValidatorPK v) = Some stk" by auto
  have "distinct (map ValidatorPK vs)" "set (map ValidatorPK vs) \<inter> set (ValidatorPK v # seen) = {}" using Cons.prems(1,2) by auto
  then have "checkVotes C chainID as sm vs (ValidatorPK v # seen) (z + stk) =
      Inr (z + stk + sum_list (map (\<lambda>v. the (sm (ValidatorPK v))) vs))"
    using Cons.prems(3) by (intro Cons.IH) simp_all
  moreover have "ValidatorPK v \<notin> set seen" "VType v = VotePrecommit" "VHeight v = AttHeight as" "VRound v = AttRound as"
    "VBlockHash v = AttBlockHash as" "VerifyVoteForChain C v chainID" using Cons.prems by simp_all
  ultimately show ?case by (simp add: stk)
qed simp

text \<open>An accepted attestation: a quorum of distinct validators signed precommits for its block.\<close>

definition attested :: "crypto \<Rightarrow> bytes \<Rightarrow> bytes32 list \<Rightarrow> int list \<Rightarrow> AttestationSet \<Rightarrow> bool" where
  "attested C chainID vals stakes as \<longleftrightarrow> distinct (map ValidatorPK (AttVotes as)) \<and>
     (\<forall>v\<in>set (AttVotes as). VType v = VotePrecommit \<and> VHeight v = AttHeight as \<and> VRound v = AttRound as \<and>
        VBlockHash v = AttBlockHash as \<and> VerifyVoteForChain C v chainID \<and> ValidatorPK v \<in> set vals) \<and>
     byStake.quorum vals stakes (ValidatorPK ` set (AttVotes as))"

lemma stakeMap_dom: "length vals = length stakes \<Longrightarrow> stakeMap vals stakes pk \<noteq> None \<longleftrightarrow> pk \<in> set vals"
  by (auto simp: stakeMap_def map_of_eq_None_iff rev_map[symmetric] simp flip: set_map dest: set_zip_leftD)

lemma VerifyAttestation_iff:
  assumes "validators_ok vals stakes"
  shows "VerifyAttestationForChain C (Some as) vals (map Some stakes) chainID = Inr () \<longleftrightarrow> attested C chainID vals stakes as"
proof -
  have d: "length vals = length stakes" "\<forall>s\<in>set stakes. 0 \<le> s" using assms by (simp_all add: validators_ok_def)
  have ex: "\<not> list_ex (\<lambda>s. s = None \<or> the s < 0) (map Some stakes)" using d(2) by (auto simp: list_ex_iff)
  let ?sm = "stakeMap vals stakes" and ?vs = "AttVotes as"
  have eq: "VerifyAttestationForChain C (Some as) vals (map Some stakes) chainID = Inr () \<longleftrightarrow>
      ?vs \<noteq> [] \<and> (\<exists>z. checkVotes C chainID as ?sm ?vs [] 0 = Inr z \<and> sum_list stakes \<noteq> 0 \<and> z * 3 > sum_list stakes * 2)"
    using d ex by (auto simp: VerifyAttestationForChain_def rguard_def Let_def rbind_Inr_iff comp_def not_le)
  have sm: "\<forall>v\<in>set ?vs. ?sm (ValidatorPK v) \<noteq> None \<longleftrightarrow> ValidatorPK v \<in> set vals" using stakeMap_dom[OF d(1)] by blast
  have sums: "sum_list (map (\<lambda>v. the (?sm (ValidatorPK v))) ?vs) = sum_list (map (stakeOf vals stakes) (map ValidatorPK ?vs))"
    if "\<forall>v\<in>set ?vs. ValidatorPK v \<in> set vals"
    unfolding map_map using that sm by (intro arg_cong[where f = sum_list] map_cong) (auto simp: stakeOf_def)
  have q: "sum_list (map (stakeOf vals stakes) (map ValidatorPK ?vs)) * 3 > sum_list stakes * 2 \<longleftrightarrow>
      byStake.quorum vals stakes (ValidatorPK ` set ?vs)"
    if "distinct (map ValidatorPK ?vs)" "\<forall>v\<in>set ?vs. ValidatorPK v \<in> set vals"
  proof -
    have "set (map ValidatorPK ?vs) \<inter> set vals = ValidatorPK ` set ?vs" using that(2) by auto
    then show ?thesis using quorum_stake_iff[OF assms that(1)] by simp
  qed
  have tot: "0 \<le> sum_list stakes" using d(2) by (intro sum_list_nonneg) auto
  show ?thesis
  proof
    assume "VerifyAttestationForChain C (Some as) vals (map Some stakes) chainID = Inr ()"
    then obtain z where z: "checkVotes C chainID as ?sm ?vs [] 0 = Inr z" "z * 3 > sum_list stakes * 2" using eq by blast
    note c = checkVotes_Inr[OF z(1)]
    then have "\<forall>v\<in>set ?vs. ValidatorPK v \<in> set vals" using sm by blast
    with c z(2) sums q show "attested C chainID vals stakes as" by (auto simp: attested_def)
  next
    assume a: "attested C chainID vals stakes as"
    then have mem: "\<forall>v\<in>set ?vs. ValidatorPK v \<in> set vals" and dist: "distinct (map ValidatorPK ?vs)" by (auto simp: attested_def)
    have "checkVotes C chainID as ?sm ?vs [] 0 = Inr (0 + sum_list (map (\<lambda>v. the (?sm (ValidatorPK v))) ?vs))"
      using a sm by (intro checkVotes_intro) (auto simp: attested_def)
    moreover have big: "sum_list (map (\<lambda>v. the (?sm (ValidatorPK v))) ?vs) * 3 > sum_list stakes * 2"
      using q[OF dist mem] sums[OF mem] a by (simp add: attested_def)
    moreover have "?vs \<noteq> []" using big tot by auto
    moreover have "sum_list stakes \<noteq> 0"
    proof
      assume z: "sum_list stakes = 0"
      have "sum (stakeOf vals stakes) (ValidatorPK ` set ?vs) \<le> sum (stakeOf vals stakes) (set vals)"
        using mem stakeOf_nonneg[OF assms] by (intro sum_mono2) auto
      then have "sum_list (map (stakeOf vals stakes) (map ValidatorPK ?vs)) \<le> 0"
        using voted_stake[OF assms dist] stakeOf_total[OF assms] z mem by (simp add: Int_absorb2 image_subset_iff)
      then show False using big sums[OF mem] z by simp
    qed
    ultimately show "VerifyAttestationForChain C (Some as) vals (map Some stakes) chainID = Inr ()" using eq by simp
  qed
qed

end
