(* ===== verification/FRG_BlockLoop.thy ===== *)
theory FRG_BlockLoop
  imports FRG_Vote
begin

text \<open>The block loop (\<^verbatim>\<open>core/blockloop/blockloop.go\<close>): the mempool and the building of proposals from it. The mempool
  is refined to a bounded queue without repetitions.\<close>


section \<open>The mempool\<close>

text \<open>\<^verbatim>\<open>queue\<close> is a linked list whose elements are addressed by the \<^verbatim>\<open>index\<close>; an element is a handle and the
  transaction it holds.\<close>

record mempool =
  queue :: "(nat \<times> Tx) list"
  index :: "(bytes32, nat) bucket"
  nextElem :: nat
  cap :: nat

abbreviation (input) defaultCap :: nat where "defaultCap \<equiv> 4 * 65536"
abbreviation (input) TMax :: nat where "TMax \<equiv> 65536"

definition newMempool :: "nat \<Rightarrow> mempool" where
  "newMempool c = \<lparr>queue = [], index = [], nextElem = 0, cap = c\<rparr>"

record BlockLoop =
  blKeypair :: Keypair
  blMempool :: mempool
  blChainID :: bytes

definition NewBlockLoop :: "Keypair \<Rightarrow> bytes \<Rightarrow> BlockLoop" where
  "NewBlockLoop kp chainID = \<lparr>blKeypair = kp, blMempool = newMempool defaultCap,
     blChainID = (if chainID = [] then DefaultChainID else chainID)\<rparr>"

text \<open>An identifier that cannot be computed is the zero value when an error is dropped.\<close>

definition idOrZero :: "crypto \<Rightarrow> Tx \<Rightarrow> bytes32" where
  "idOrZero C t = (case ID C t of Inr i \<Rightarrow> i | Inl _ \<Rightarrow> 0)"

definition dropOldest :: "crypto \<Rightarrow> mempool \<Rightarrow> mempool" where
  "dropOldest C m = (case queue m of [] \<Rightarrow> m
     | (_, oldest) # rest \<Rightarrow> m\<lparr>index := bdel (index m) (idOrZero C oldest), queue := rest\<rparr>)"

definition Enqueue :: "crypto \<Rightarrow> Tx \<Rightarrow> mempool \<Rightarrow> mempool" where
  "Enqueue C t m =
     (case ID C t of Inl _ \<Rightarrow> m
      | Inr i \<Rightarrow>
         if bget (index m) i \<noteq> None then m
         else let m = (if length (queue m) \<ge> cap m then dropOldest C m else m) in
           m\<lparr>queue := queue m @ [(nextElem m, t)], index := bput (index m) i (nextElem m), nextElem := nextElem m + 1\<rparr>)"

definition MempoolLen :: "mempool \<Rightarrow> nat" where
  "MempoolLen m = length (queue m)"

definition Snapshot :: "mempool \<Rightarrow> Tx list" where
  "Snapshot m = map snd (queue m)"

definition Has :: "mempool \<Rightarrow> bytes32 \<Rightarrow> bool" where
  "Has m i \<longleftrightarrow> bget (index m) i \<noteq> None"

definition removeTx :: "crypto \<Rightarrow> Tx \<Rightarrow> mempool \<Rightarrow> mempool" where
  "removeTx C t m =
     (case ID C t of Inl _ \<Rightarrow> m
      | Inr i \<Rightarrow> (case bget (index m) i of None \<Rightarrow> m
          | Some elem \<Rightarrow> m\<lparr>queue := filter (\<lambda>(e, _). e \<noteq> elem) (queue m), index := bdel (index m) i\<rparr>))"

definition removeCommitted :: "crypto \<Rightarrow> Tx list \<Rightarrow> mempool \<Rightarrow> mempool" where
  "removeCommitted C txs m = fold (removeTx C) txs m"

definition OnCommit :: "crypto \<Rightarrow> Tx list \<Rightarrow> BlockLoop \<Rightarrow> BlockLoop" where
  "OnCommit C txs bl = bl\<lparr>blMempool := removeCommitted C txs (blMempool bl)\<rparr>"

definition OnReject :: "crypto \<Rightarrow> Tx list \<Rightarrow> BlockLoop \<Rightarrow> BlockLoop" where
  "OnReject C txs bl = bl\<lparr>blMempool := removeCommitted C txs (blMempool bl)\<rparr>"

definition propose :: "crypto \<Rightarrow> BlockLoop \<Rightarrow> u64 \<Rightarrow> u32 \<Rightarrow> AttestationSet \<Rightarrow> bytes32 \<Rightarrow> BlockProposal" where
  "propose C bl height round prevAttest prevRoot =
     (let p = \<lparr>PropHeight = height, PropRound = round, ProposerPK = PublicKey (blKeypair bl), PropPrevStateRoot = prevRoot,
            PropTxs = take TMax (map snd (queue (blMempool bl))), PrevAttestations = prevAttest, ProposerSig = 0\<rparr> in
      p\<lparr>ProposerSig := Sign C (blKeypair bl) (ProposalSignBytesForChain C p (blChainID bl))\<rparr>)"

definition Propose :: "crypto \<Rightarrow> BlockLoop \<Rightarrow> u64 \<Rightarrow> u32 \<Rightarrow> AttestationSet \<Rightarrow> BlockProposal" where
  "Propose C bl height round prevAttest = propose C bl height round prevAttest 0"

definition ProposeForState :: "crypto \<Rightarrow> BlockLoop \<Rightarrow> u64 \<Rightarrow> u32 \<Rightarrow> AttestationSet \<Rightarrow> bytes32 \<Rightarrow> BlockProposal" where
  "ProposeForState C bl height round prevAttest prevRoot = propose C bl height round prevAttest prevRoot"


section \<open>The mempool is a bounded queue without repetitions\<close>

definition mempool_ok :: "crypto \<Rightarrow> mempool \<Rightarrow> bool" where
  "mempool_ok C m \<longleftrightarrow> distinct (map fst (queue m)) \<and> (\<forall>x\<in>set (queue m). fst x < nextElem m) \<and>
     (\<forall>i e. bget (index m) i = Some e \<longleftrightarrow> (\<exists>t. (e, t) \<in> set (queue m) \<and> ID C t = Inr i)) \<and>
     (\<forall>t\<in>set (Snapshot m). \<exists>i. ID C t = Inr i) \<and> distinct (map (ID C) (Snapshot m))"

text \<open>What the queue promises, on plain lists of transactions.\<close>

datatype mempoolOp = OpEnqueue Tx | OpRemove "Tx list"

definition mempoolStep :: "crypto \<Rightarrow> mempoolOp \<Rightarrow> mempool \<Rightarrow> mempool" where
  "mempoolStep C oper m = (case oper of OpEnqueue t \<Rightarrow> Enqueue C t m | OpRemove ts \<Rightarrow> removeCommitted C ts m)"

definition fifoEnqueue :: "crypto \<Rightarrow> nat \<Rightarrow> Tx \<Rightarrow> Tx list \<Rightarrow> Tx list" where
  "fifoEnqueue C c t ts = (if isl (ID C t) \<or> ID C t \<in> ID C ` set ts then ts
     else (if length ts \<ge> c then drop 1 ts else ts) @ [t])"

definition fifoStep :: "crypto \<Rightarrow> nat \<Rightarrow> mempoolOp \<Rightarrow> Tx list \<Rightarrow> Tx list" where
  "fifoStep C c oper ts = (case oper of OpEnqueue t \<Rightarrow> fifoEnqueue C c t ts
     | OpRemove gone \<Rightarrow> filter (\<lambda>t. ID C t \<notin> ID C ` set gone) ts)"

lemma mempool_index: "mempool_ok C m \<Longrightarrow> bget (index m) i = Some e \<longleftrightarrow> (\<exists>t. (e, t) \<in> set (queue m) \<and> ID C t = Inr i)"
  by (simp add: mempool_ok_def)

lemma mempool_Has:
  assumes "mempool_ok C m"
  shows "Has m i \<longleftrightarrow> Inr i \<in> ID C ` set (Snapshot m)"
proof -
  have "Has m i \<longleftrightarrow> (\<exists>x\<in>set (queue m). ID C (snd x) = Inr i)"
    by (simp add: Has_def mempool_index[OF assms] Bex_def)
  then show ?thesis by (auto simp: Snapshot_def image_iff eq_commute[of "Inr i"])
qed

lemma dropOldest_ok:
  assumes "mempool_ok C m"
  shows "mempool_ok C (dropOldest C m) \<and> Snapshot (dropOldest C m) = drop 1 (Snapshot m)"
proof (cases "queue m")
  case Nil
  then show ?thesis using assms by (simp add: dropOldest_def Snapshot_def)
next
  case (Cons x rest)
  obtain e t where x: "x = (e, t)" by fastforce
  obtain i where i: "ID C t = Inr i" using assms by (auto simp: mempool_ok_def Snapshot_def Cons x)
  let ?m = "dropOldest C m"
  have m: "queue ?m = rest" "index ?m = bdel (index m) i" "nextElem ?m = nextElem m"
    by (simp_all add: dropOldest_def Cons x idOrZero_def i)
  have "Inr i \<notin> ID C ` snd ` set rest"
    using assms by (simp add: mempool_ok_def Snapshot_def Cons x i image_image)
  then have rest: "\<And>e' t'. (e', t') \<in> set rest \<Longrightarrow> ID C t' \<noteq> Inr i" by (metis image_eqI snd_conv)
  note ix = mempool_index[OF assms]
  have "bget (index ?m) j = Some e' \<longleftrightarrow> (\<exists>t'. (e', t') \<in> set rest \<and> ID C t' = Inr j)" for j e'
    using ix[of j e'] rest i by (auto simp: m bget_bdel Cons x)
  then show ?thesis using assms by (auto simp: mempool_ok_def Snapshot_def m Cons x)
qed

lemma Enqueue_ok:
  assumes "mempool_ok C m"
  shows "mempool_ok C (Enqueue C t m) \<and> Snapshot (Enqueue C t m) = fifoEnqueue C (cap m) t (Snapshot m) \<and> cap (Enqueue C t m) = cap m"
proof (cases "ID C t")
  case (Inl err)
  then show ?thesis using assms by (simp add: Enqueue_def fifoEnqueue_def)
next
  case (Inr i)
  have has: "bget (index m) i \<noteq> None \<longleftrightarrow> ID C t \<in> ID C ` set (Snapshot m)"
    using mempool_Has[OF assms, of i] by (simp add: Has_def Inr)
  show ?thesis
  proof (cases "bget (index m) i = None")
    case False
    then show ?thesis using has assms by (simp add: Enqueue_def fifoEnqueue_def Inr)
  next
    case True
    define m1 where "m1 = (if length (queue m) \<ge> cap m then dropOldest C m else m)"
    have m1: "mempool_ok C m1" "Snapshot m1 = (if length (Snapshot m) \<ge> cap m then drop 1 (Snapshot m) else Snapshot m)"
      "cap m1 = cap m" using dropOldest_ok[OF assms] assms
      by (auto simp: m1_def Snapshot_def dropOldest_def split: list.splits)
    have fresh: "ID C t \<notin> ID C ` set (Snapshot m1)"
    proof -
      have "set (Snapshot m1) \<subseteq> set (Snapshot m)" by (auto simp: m1(2) dest: in_set_dropD)
      then show ?thesis using has True by blast
    qed
    have enq: "Enqueue C t m = m1\<lparr>queue := queue m1 @ [(nextElem m1, t)], index := bput (index m1) i (nextElem m1), nextElem := nextElem m1 + 1\<rparr>"
      by (simp add: Enqueue_def Inr True m1_def Let_def)
    have "\<not> (\<exists>e t'. (e, t') \<in> set (queue m1) \<and> ID C t' = Inr i)" using fresh by (force simp: Snapshot_def Inr)
    then have "mempool_ok C (Enqueue C t m)"
      using m1(1) fresh by (auto simp: enq mempool_ok_def Snapshot_def bget_bput Inr image_iff)
    moreover have "Snapshot (Enqueue C t m) = fifoEnqueue C (cap m) t (Snapshot m)"
      using has True m1(2) by (simp add: enq fifoEnqueue_def Snapshot_def Inr)
    ultimately show ?thesis by (simp add: enq m1(3))
  qed
qed

lemma removeTx_ok:
  assumes "mempool_ok C m"
  shows "mempool_ok C (removeTx C t m) \<and> Snapshot (removeTx C t m) = filter (\<lambda>t'. ID C t' \<noteq> ID C t) (Snapshot m)
    \<and> cap (removeTx C t m) = cap m"
proof (cases "\<exists>i e. ID C t = Inr i \<and> bget (index m) i = Some e")
  case False
  have "ID C t' \<noteq> ID C t" if "t' \<in> set (Snapshot m)" for t'
  proof
    assume eq: "ID C t' = ID C t"
    with assms that obtain i where "ID C t = Inr i" by (metis mempool_ok_def)
    with False mempool_Has[OF assms, of i] that eq show False by (force simp: Has_def)
  qed
  then have "filter (\<lambda>t'. ID C t' \<noteq> ID C t) (Snapshot m) = Snapshot m" by simp
  moreover have "removeTx C t m = m" using False by (auto simp: removeTx_def split: sum.splits option.splits)
  ultimately show ?thesis using assms by simp
next
  case True
  then obtain i e where i: "ID C t = Inr i" and e: "bget (index m) i = Some e" by blast
  let ?m = "removeTx C t m"
  have m: "queue ?m = filter (\<lambda>(e', _). e' \<noteq> e) (queue m)" "index ?m = bdel (index m) i" "nextElem ?m = nextElem m" "cap ?m = cap m"
    by (simp_all add: removeTx_def i e)
  have ix: "\<And>j e'. bget (index m) j = Some e' \<longleftrightarrow> (\<exists>t'. (e', t') \<in> set (queue m) \<and> ID C t' = Inr j)"
    and ids: "\<And>t'. t' \<in> set (Snapshot m) \<Longrightarrow> \<exists>j. ID C t' = Inr j"
    using assms by (auto simp: mempool_ok_def)
  have same: "e' = e \<longleftrightarrow> ID C t' = Inr i" if "(e', t') \<in> set (queue m)" for e' t'
  proof -
    from ids that obtain j where j: "ID C t' = Inr j" by (force simp: Snapshot_def)
    then have "bget (index m) j = Some e'" using ix that by blast
    moreover from ix[of i e] e obtain t0 where "(e, t0) \<in> set (queue m)" "ID C t0 = Inr i" by blast
    moreover have "distinct (map fst (queue m))" using assms by (simp add: mempool_ok_def)
    ultimately show ?thesis using j e that by (metis Inr_inject eq_key_imp_eq_value option.inject)
  qed
  have q: "queue ?m = filter (\<lambda>(_, t'). ID C t' \<noteq> Inr i) (queue m)" unfolding m using same by (intro filter_cong) auto
  have "bget (index ?m) j = Some e' \<longleftrightarrow> (\<exists>t'. (e', t') \<in> set (queue ?m) \<and> ID C t' = Inr j)" for j e'
    using ix[of j e'] by (auto simp: q m(2) bget_bdel)
  moreover have snap: "Snapshot ?m = filter (\<lambda>t'. ID C t' \<noteq> ID C t) (Snapshot m)"
    by (simp add: Snapshot_def q i filter_map comp_def case_prod_unfold)
  moreover have "distinct (map (ID C) (Snapshot ?m))" unfolding snap using assms by (simp add: mempool_ok_def distinct_map_filter)
  moreover have "distinct (map fst (queue ?m))" unfolding q using assms by (simp add: mempool_ok_def distinct_map_filter)
  ultimately show ?thesis using assms by (simp add: mempool_ok_def m(3,4)) (simp add: q)
qed

lemma removeCommitted_ok:
  assumes "mempool_ok C m"
  shows "mempool_ok C (removeCommitted C ts m) \<and>
    Snapshot (removeCommitted C ts m) = filter (\<lambda>t'. ID C t' \<notin> ID C ` set ts) (Snapshot m) \<and> cap (removeCommitted C ts m) = cap m"
  using assms
proof (induction ts arbitrary: m)
  case (Cons t ts)
  from removeTx_ok[OF Cons.prems, of t] Cons.IH[of "removeTx C t m"] show ?case
    by (auto simp: removeCommitted_def intro: filter_cong)
qed (simp add: removeCommitted_def)

lemma mempoolStep_ok:
  assumes "mempool_ok C m"
  shows "mempool_ok C (mempoolStep C oper m) \<and> Snapshot (mempoolStep C oper m) = fifoStep C (cap m) oper (Snapshot m) \<and>
    cap (mempoolStep C oper m) = cap m"
  using Enqueue_ok[OF assms] removeCommitted_ok[OF assms] by (cases oper) (simp_all add: mempoolStep_def fifoStep_def)

lemma mempool_run:
  "mempool_ok C (fold (mempoolStep C) ops (newMempool c)) \<and>
   Snapshot (fold (mempoolStep C) ops (newMempool c)) = fold (fifoStep C c) ops [] \<and> cap (fold (mempoolStep C) ops (newMempool c)) = c"
proof (induction ops rule: rev_induct)
  case (snoc oper ops)
  then show ?case using mempoolStep_ok[of C "fold (mempoolStep C) ops (newMempool c)" oper] by simp
qed (simp add: mempool_ok_def newMempool_def Snapshot_def)

lemma fifo_bound: "length (fold (fifoStep C c) ops []) \<le> max 1 c"
proof (induction ops rule: rev_induct)
  case (snoc oper ops)
  then show ?case by (cases oper)
    (auto simp: fifoStep_def fifoEnqueue_def intro: order.trans[OF length_filter_le])
qed simp

text \<open>C16. The linked list and its index are a first-in first-out queue of transactions: after any sequence of insertions
  and removals the mempool holds what the plain-list queue holds (an insertion is ignored when a transaction with the
  same id is queued, and displaces the oldest transaction when the queue is full; a removal takes out exactly the
  transactions with the given ids), no two queued transactions have the same id, at most \<^verbatim>\<open>cap\<close> transactions are
  queued (one when the capacity is zero), and \<^verbatim>\<open>Has\<close> answers for exactly the queued ids.\<close>

theorem mempool_refines_fifo:
  "let m = fold (mempoolStep C) ops (newMempool c) in
     Snapshot m = fold (fifoStep C c) ops [] \<and> distinct (map (ID C) (Snapshot m)) \<and> MempoolLen m \<le> max 1 c \<and>
     Has m i = (Inr i \<in> ID C ` set (Snapshot m))"
  using mempool_run[of C ops c] fifo_bound[of C c ops] mempool_Has[of C "fold (mempoolStep C) ops (newMempool c)" i]
  by (simp add: Let_def mempool_ok_def MempoolLen_def) (metis Snapshot_def length_map)

end
