(* ===== verification/FRG_Consensus.thy ===== *)
theory FRG_Consensus
  imports FRG_BlockLoop
begin

text \<open>The consensus engine (\<^verbatim>\<open>core/consensus/consensus.go\<close> and \<^verbatim>\<open>persistence.go\<close>): the round state and its stored form,
  the handlers of votes, proposals and timeouts, and the event loop as a step function on the engine's state.\<close>


section \<open>Round state\<close>

abbreviation (input) PhasePropose :: u8 where "PhasePropose \<equiv> 1"
abbreviation (input) PhasePrevote :: u8 where "PhasePrevote \<equiv> 2"
abbreviation (input) PhasePrecommit :: u8 where "PhasePrecommit \<equiv> 3"
abbreviation (input) PhaseCommit :: u8 where "PhaseCommit \<equiv> 4"

record RoundState =
  RsHeight :: u64
  RsRound :: u32
  RsPhase :: u8
  RsProposal :: "BlockProposal option"
  Prevotes :: votes
  Precommits :: votes
  LockedBlock :: "bytes32 option"
  LockedRound :: i32
  LastAttestation :: AttestationSet

definition NewRoundState :: "u64 \<Rightarrow> RoundState" where
  "NewRoundState height = \<lparr>RsHeight = height, RsRound = 0, RsPhase = PhasePropose, RsProposal = None, Prevotes = [],
     Precommits = [], LockedBlock = None, LockedRound = - 1, LastAttestation = emptyAttestation\<rparr>"

definition IncrementRound :: "RoundState \<Rightarrow> RoundState" where
  "IncrementRound rs = rs\<lparr>RsRound := RsRound rs + 1, RsPhase := PhasePropose, RsProposal := None, Prevotes := [], Precommits := []\<rparr>"

definition Lock :: "bytes32 \<Rightarrow> u32 \<Rightarrow> RoundState \<Rightarrow> RoundState" where
  "Lock blockHash round rs = rs\<lparr>LockedBlock := Some blockHash, LockedRound := round\<rparr>"

definition Unlock :: "RoundState \<Rightarrow> RoundState" where
  "Unlock rs = rs\<lparr>LockedBlock := None, LockedRound := - 1\<rparr>"


section \<open>Persisted round state\<close>

abbreviation (input) maxPersistedVotes :: nat where "maxPersistedVotes \<equiv> 4096"

definition serializeAttestation :: "AttestationSet \<Rightarrow> bytes res" where
  "serializeAttestation a =
     (if AttVotes a = [] then Inr []
      else rguard (length (AttVotes a) > maxPersistedVotes) (GoError ''too many attestation votes'')
        (Inr (PutUint64 (AttHeight a) @ PutUint32 (AttRound a) @ arr32 (AttBlockHash a)
           @ PutUint32 (of_nat (length (AttVotes a))) @ concat (map SerializeVote (AttVotes a)))))"

definition serializeOptionalProposal :: "crypto \<Rightarrow> BlockProposal option \<Rightarrow> bytes res" where
  "serializeOptionalProposal C p = (case p of None \<Rightarrow> Inr [] | Some p \<Rightarrow> SerializeProposal C p)"

text \<open>\<open>ord\<close> is the order in which the map of votes is iterated.\<close>

definition encodeVotes :: "(Vote list \<Rightarrow> Vote list) \<Rightarrow> votes \<Rightarrow> bytes res" where
  "encodeVotes ord vm =
     rguard (length vm > maxPersistedVotes) (GoError ''too many votes to persist'')
     (Inr (PutUint32 (of_nat (length vm)) @ concat (map SerializeVote (ord (map snd vm)))))"

definition encodeRoundState :: "crypto \<Rightarrow> (Vote list \<Rightarrow> Vote list) \<Rightarrow> RoundState \<Rightarrow> bytes res" where
  "encodeRoundState C ord rs =
     rbind (serializeOptionalProposal C (RsProposal rs)) (\<lambda>proposal.
     rbind (encodeVotes ord (Prevotes rs)) (\<lambda>prevotes.
     rbind (encodeVotes ord (Precommits rs)) (\<lambda>precommits.
     rbind (serializeAttestation (LastAttestation rs)) (\<lambda>attestation.
     Inr (PutUint64 (RsHeight rs) @ PutUint32 (RsRound rs) @ [RsPhase rs]
       @ (case LockedBlock rs of Some h \<Rightarrow> 1 # arr32 h | None \<Rightarrow> [0]) @ PutUint32 (LockedRound rs)
       @ PutUint32 (of_nat (length proposal)) @ proposal @ prevotes @ precommits
       @ PutUint32 (of_nat (length attestation)) @ attestation)))))"

text \<open>Reading from a \<^verbatim>\<open>bytes.Reader\<close>: fixed-width reads need all their bytes; \<^verbatim>\<open>Read\<close> fails only at the end of the
  data and leaves the rest of its buffer zero.\<close>

definition readU64 :: "string \<Rightarrow> bytes \<Rightarrow> (u64 \<times> bytes) res" where
  "readU64 msg s = rguard (length s < 8) (GoError msg) (Inr (Uint64 s, drop 8 s))"

definition readU32 :: "string \<Rightarrow> bytes \<Rightarrow> (u32 \<times> bytes) res" where
  "readU32 msg s = rguard (length s < 4) (GoError msg) (Inr (Uint32 s, drop 4 s))"

definition ReadByte :: "string \<Rightarrow> bytes \<Rightarrow> (u8 \<times> bytes) res" where
  "ReadByte msg s = (case s of [] \<Rightarrow> Inl (GoError msg) | b # r \<Rightarrow> Inr (b, r))"

definition goRead :: "string \<Rightarrow> nat \<Rightarrow> bytes \<Rightarrow> (bytes \<times> bytes) res" where
  "goRead msg n s = (if s = [] then Inl (GoError msg) else Inr (take n s @ replicate (n - length s) 0, drop n s))"

definition deserializeOptionalProposal :: "crypto \<Rightarrow> bytes \<Rightarrow> bytes \<Rightarrow> BlockProposal option res" where
  "deserializeOptionalProposal C data chainID =
     (if data = [] then Inr None
      else rbind (DeserializeProposal C data) (\<lambda>p.
        rguard (\<not> Verify C (ProposerPK p) (ProposalSignBytesForChain C p chainID) (ProposerSig p)) (GoError ''snapshot proposal signature'')
        (rbind (rfold (\<lambda>t _. VerifySigsForChain C chainID t) (PropTxs p) ()) (\<lambda>_. Inr (Some p)))))"

fun readSnapshotVotes :: "crypto \<Rightarrow> bytes \<Rightarrow> nat \<Rightarrow> bytes \<Rightarrow> votes \<Rightarrow> (votes \<times> bytes) res" where
  "readSnapshotVotes C chainID n s vm = (if n = 0 then Inr (vm, s) else
     rbind (goRead ''snapshot vote'' 141 s) (\<lambda>(data, s).
     rbind (DeserializeVote data) (\<lambda>v.
     rguard (\<not> VerifyVoteForChain C v chainID) (GoError ''snapshot vote signature'')
     (readSnapshotVotes C chainID (n - 1) s (bput vm (ValidatorPK v) v)))))"

declare readSnapshotVotes.simps [simp del]

definition readVoteMap :: "crypto \<Rightarrow> bytes \<Rightarrow> bytes \<Rightarrow> (votes \<times> bytes) res" where
  "readVoteMap C chainID s =
     rbind (readU32 ''snapshot vote count'' s) (\<lambda>(n, s).
     rguard (unat n > maxPersistedVotes \<or> unat n * 141 > length s) (GoError ''snapshot vote count'')
     (readSnapshotVotes C chainID (unat n) s []))"

fun readAttestationVotes :: "crypto \<Rightarrow> bytes \<Rightarrow> u64 \<Rightarrow> u32 \<Rightarrow> bytes32 \<Rightarrow> nat \<Rightarrow> bytes \<Rightarrow> (Vote list \<times> bytes) res" where
  "readAttestationVotes C chainID height round blockHash n s = (if n = 0 then Inr ([], s) else
     rbind (goRead ''attestation vote'' 141 s) (\<lambda>(data, s).
     case DeserializeVote data of Inl _ \<Rightarrow> Inl (GoError ''attestation vote signature'')
     | Inr v \<Rightarrow>
     rguard (\<not> VerifyVoteForChain C v chainID) (GoError ''attestation vote signature'')
     (rguard (VType v \<noteq> VotePrecommit \<or> VHeight v \<noteq> height \<or> VRound v \<noteq> round \<or> VBlockHash v \<noteq> blockHash)
       (GoError ''attestation vote context'')
     (rbind (readAttestationVotes C chainID height round blockHash (n - 1) s) (\<lambda>(vs, s). Inr (v # vs, s))))))"

declare readAttestationVotes.simps [simp del]

definition deserializeAttestation :: "crypto \<Rightarrow> bytes \<Rightarrow> bytes \<Rightarrow> AttestationSet res" where
  "deserializeAttestation C data chainID =
     (if data = [] then Inr emptyAttestation
      else rbind (readU64 ''attestation height'' data) (\<lambda>(height, s).
       rbind (readU32 ''attestation round'' s) (\<lambda>(round, s).
       rbind (goRead ''attestation block hash'' 32 s) (\<lambda>(hash, s).
       rbind (readU32 ''attestation vote count'' s) (\<lambda>(n, s).
       rguard (unat n > maxPersistedVotes \<or> unat n * 141 > length s) (GoError ''attestation vote count'')
       (rbind (readAttestationVotes C chainID height round (to32 hash) (unat n) s) (\<lambda>(vs, s).
        rguard (s \<noteq> []) (GoError ''attestation trailing bytes'')
        (Inr \<lparr>AttHeight = height, AttRound = round, AttBlockHash = to32 hash, AttVotes = vs\<rparr>))))))))"

definition readLastAttestation :: "crypto \<Rightarrow> bytes \<Rightarrow> bytes \<Rightarrow> (AttestationSet \<times> bytes) res" where
  "readLastAttestation C chainID s =
     (if s = [] then Inr (emptyAttestation, s)
      else rbind (readU32 ''snapshot attestation length'' s) (\<lambda>(n, s).
        rguard (n > of_nat (length s)) (GoError ''snapshot attestation length'')
        (rbind (if n = 0 then Inr ([], s) else goRead ''snapshot attestation'' (unat n) s) (\<lambda>(data, s).
         rbind (deserializeAttestation C data chainID) (\<lambda>a. Inr (a, s))))))"

definition decodeRoundState :: "crypto \<Rightarrow> bytes \<Rightarrow> bytes \<Rightarrow> RoundState res" where
  "decodeRoundState C data chainID =
     rbind (readU64 ''snapshot height'' data) (\<lambda>(height, s).
     rbind (readU32 ''snapshot round'' s) (\<lambda>(round, s).
     rbind (ReadByte ''snapshot phase'' s) (\<lambda>(phase, s).
     rguard (phase < PhasePropose \<or> phase > PhaseCommit) (GoError ''snapshot phase'')
     (rbind (ReadByte ''snapshot lock'' s) (\<lambda>(locked, s).
     rbind (if locked \<noteq> 0 then goRead ''snapshot locked hash'' 32 s else Inr ([], s)) (\<lambda>(lockedHash, s).
     rbind (readU32 ''snapshot locked round'' s) (\<lambda>(lockedRound, s).
     rbind (readU32 ''snapshot proposal length'' s) (\<lambda>(proposalLen, s).
     rguard (proposalLen > of_nat (length s)) (GoError ''snapshot proposal length'')
     (rbind (goRead ''snapshot proposal'' (unat proposalLen) s) (\<lambda>(proposalData, s).
     rbind (deserializeOptionalProposal C proposalData chainID) (\<lambda>proposal.
     rbind (readVoteMap C chainID s) (\<lambda>(prevotes, s).
     rbind (readVoteMap C chainID s) (\<lambda>(precommits, s).
     rbind (readLastAttestation C chainID s) (\<lambda>(attestation, s).
     rguard (s \<noteq> []) (GoError ''snapshot trailing bytes'')
     (Inr ((NewRoundState height)\<lparr>RsRound := round, RsPhase := phase,
         LockedBlock := (if locked \<noteq> 0 then Some (to32 lockedHash) else None),
         LockedRound := (if locked \<noteq> 0 then lockedRound else - 1),
         RsProposal := proposal, Prevotes := prevotes, Precommits := precommits, LastAttestation := attestation\<rparr>))))))))))))))))"


section \<open>The engine\<close>

text \<open>What an engine is configured with: its environment, its key pair and its chain. \<open>envVotes\<close> is the order in which
  a map of votes is iterated.\<close>

record EngineEnv =
  envC :: crypto
  envW :: wasmtime
  envB :: bn254
  envJ :: json
  envIter :: "bytes32 list \<Rightarrow> bytes32 list"
  envVotes :: "Vote list \<Rightarrow> Vote list"
  envKp :: Keypair
  envChain :: bytes

record EngineStatus =
  StHeight :: u64
  StRound :: u32
  StPhase :: u8

text \<open>Messages handed to the network.\<close>

datatype netMsg = VoteMsg bytes | ProposalMsg bytes

text \<open>The engine with the locals of \<^verbatim>\<open>Start\<close>: the round state, the validators and stakes it loaded, and which timers
  are armed. \<open>proposeReady\<close> says that a delayed self-proposal is pending.\<close>

record Engine =
  sm :: StateDB
  rs :: RoundState
  proposer :: "BlockLoop option"
  engValidators :: "bytes32 list"
  engStakes :: "int list"
  proposeTimer :: bool
  prevoteTimer :: bool
  precommitTimer :: bool
  proposeReady :: bool
  outbox :: "netMsg list"
  engStatus :: EngineStatus

text \<open>A handler runs out of fuel (\<^const>\<open>None\<close>), panics, or ends in a new engine state.\<close>

type_synonym run = "Engine res option"

definition andThen :: "run \<Rightarrow> (Engine \<Rightarrow> run) \<Rightarrow> run" where
  "andThen r k = (case r of None \<Rightarrow> None | Some (Inl e) \<Rightarrow> Some (Inl e) | Some (Inr x) \<Rightarrow> k x)"

abbreviation (input) ok :: "Engine \<Rightarrow> run" where "ok e \<equiv> Some (Inr e)"

definition setStatus :: "Engine \<Rightarrow> Engine" where
  "setStatus e = e\<lparr>engStatus := \<lparr>StHeight = RsHeight (rs e), StRound = RsRound (rs e), StPhase = RsPhase (rs e)\<rparr>\<rparr>"

definition persistRoundState :: "EngineEnv \<Rightarrow> Engine \<Rightarrow> Engine" where
  "persistRoundState env e = (case encodeRoundState (envC env) (envVotes env) (rs e) of Inl _ \<Rightarrow> e
     | Inr data \<Rightarrow> e\<lparr>sm := SaveConsensusState (sm e) data\<rparr>)"

definition setPhase :: "u8 \<Rightarrow> Engine \<Rightarrow> Engine" where
  "setPhase ph e = setStatus (e\<lparr>rs := (rs e)\<lparr>RsPhase := ph\<rparr>\<rparr>)"

definition prevStateRoot :: "Engine \<Rightarrow> bytes32" where
  "prevStateRoot e = CurrentStateRoot (sm e)"

text \<open>\<^verbatim>\<open>proposerPK, _ := leader.SkipProposer(...)\<close>: on an error the key is zero.\<close>

definition skipProposerPK :: "EngineEnv \<Rightarrow> bytes32 list \<Rightarrow> Engine \<Rightarrow> bytes32" where
  "skipProposerPK env vals e = (case SkipProposer (envC env) (prevStateRoot e) (RsHeight (rs e)) vals (RsRound (rs e)) of
     Inr pk \<Rightarrow> pk | Inl _ \<Rightarrow> 0)"

definition tallyVote :: "(bytes32 \<rightharpoonup> int) \<Rightarrow> Vote \<Rightarrow> (bytes32, int) bucket \<Rightarrow> (bytes32, int) bucket" where
  "tallyVote smap v tally = (case smap (ValidatorPK v) of None \<Rightarrow> tally
     | Some stk \<Rightarrow> bput tally (VBlockHash v) ((case bget tally (VBlockHash v) of None \<Rightarrow> 0 | Some s \<Rightarrow> s) + stk))"

text \<open>The tally is a Go map too; with non-negative stakes at most one of its entries passes the test, so the order in
  which they are visited does not matter.\<close>

definition quorumBlock :: "votes \<Rightarrow> bytes32 list \<Rightarrow> int list \<Rightarrow> bytes32 \<times> bool" where
  "quorumBlock vm vals stakes =
     (let tally = fold (tallyVote (stakeMap vals stakes)) (map snd vm) []; rhs = sum_list stakes * 2 in
      case find (\<lambda>(_, s). s * 3 > rhs) tally of Some (h, _) \<Rightarrow> (h, True) | None \<Rightarrow> (0, False))"

definition attestationFromPrecommits :: "(Vote list \<Rightarrow> Vote list) \<Rightarrow> votes \<Rightarrow> bytes32 \<Rightarrow> AttestationSet" where
  "attestationFromPrecommits ord vm blockHash =
     (let vs = sort_key ValidatorPK (filter (\<lambda>v. VType v = VotePrecommit \<and> VBlockHash v = blockHash) (ord (map snd vm))) in
      case vs of [] \<Rightarrow> \<lparr>AttHeight = 0, AttRound = 0, AttBlockHash = blockHash, AttVotes = []\<rparr>
      | v # _ \<Rightarrow> \<lparr>AttHeight = VHeight v, AttRound = VRound v, AttBlockHash = blockHash, AttVotes = vs\<rparr>)"

text \<open>\<^verbatim>\<open>broadcastPrevote\<close> and \<^verbatim>\<open>broadcastPrecommit\<close>: one body, at the two vote types.\<close>

definition castVote :: "EngineEnv \<Rightarrow> u8 \<Rightarrow> bytes32 \<Rightarrow> Engine \<Rightarrow> Engine \<times> Vote option" where
  "castVote env ty blockHash e =
     (case RecordConsensusVote (sm e) (RsHeight (rs e)) (RsRound (rs e)) ty blockHash of
        (db, False) \<Rightarrow> (e\<lparr>sm := db\<rparr>, None)
      | (db, True) \<Rightarrow>
         let v = \<lparr>VType = ty, VHeight = RsHeight (rs e), VRound = RsRound (rs e), VBlockHash = blockHash,
                  ValidatorPK = PublicKey (envKp env), VSig = 0\<rparr>;
             v = v\<lparr>VSig := Sign (envC env) (envKp env) (VoteSignBytesForChain v (envChain env))\<rparr> in
         (e\<lparr>sm := db, outbox := outbox e @ [VoteMsg (SerializeVote v)]\<rparr>, Some v))"

definition broadcastPrevote :: "EngineEnv \<Rightarrow> bytes32 \<Rightarrow> Engine \<Rightarrow> Engine \<times> Vote option" where
  "broadcastPrevote env blockHash e = castVote env VotePrevote blockHash e"

definition broadcastPrecommit :: "EngineEnv \<Rightarrow> bytes32 \<Rightarrow> Engine \<Rightarrow> Engine \<times> Vote option" where
  "broadcastPrecommit env blockHash e = castVote env VotePrecommit blockHash e"

abbreviation (input) maxGossipBlockBytes :: nat where "maxGossipBlockBytes \<equiv> 67108864"

definition BroadcastBlockHeader :: "bytes \<Rightarrow> Engine \<Rightarrow> Engine" where
  "BroadcastBlockHeader header e = (if length header > maxGossipBlockBytes then e else e\<lparr>outbox := outbox e @ [ProposalMsg header]\<rparr>)"

definition rejectProposal :: "EngineEnv \<Rightarrow> Engine \<Rightarrow> Engine" where
  "rejectProposal env e = (case (proposer e, RsProposal (rs e)) of
     (Some bl, Some p) \<Rightarrow> e\<lparr>proposer := Some (OnReject (envC env) (PropTxs p) bl)\<rparr> | _ \<Rightarrow> e)"

text \<open>The block of a committed proposal, with the proposal kept as the block's payload.\<close>

definition blockOf :: "RoundState \<Rightarrow> BlockProposal \<Rightarrow> bytes \<Rightarrow> Block" where
  "blockOf r p d = \<lparr>Height = RsHeight r, Txs = PropTxs p, ProposerPubKey = ProposerPK p,
     PrevStateRoot = PropPrevStateRoot p, BlockStateRoot = 0, ProposalBytes = d\<rparr>"

definition commit :: "EngineEnv \<Rightarrow> bytes32 \<Rightarrow> Engine \<Rightarrow> (Engine \<times> bool) res" where
  "commit env blockHash e =
     (case RsProposal (rs e) of None \<Rightarrow> Inr (e, False)
      | Some p \<Rightarrow>
         if BlockHashForChain (envC env) p (envChain env) \<noteq> blockHash then Inr (e, False)
         else case SerializeProposal (envC env) p of Inl _ \<Rightarrow> Inr (e, False)
         | Inr proposalBytes \<Rightarrow>
            (case ApplyBlockForChain (envC env) (envW env) (envB env) (envJ env) (envIter env) (sm e)
                    (blockOf (rs e) p proposalBytes) (envChain env) of
               Inl Panic \<Rightarrow> Inl Panic
             | Inl _ \<Rightarrow> Inr (e, False)
             | Inr (db, _) \<Rightarrow>
                Inr (e\<lparr>sm := ClearConsensusState db,
                       proposer := map_option (OnCommit (envC env) (PropTxs p)) (proposer e)\<rparr>, True)))"

definition startNextRound :: "EngineEnv \<Rightarrow> bytes32 list \<Rightarrow> Engine \<Rightarrow> Engine" where
  "startNextRound env vals e =
     (let r = rs e;
          e = setStatus (e\<lparr>rs := r\<lparr>RsHeight := RsHeight r + 1, RsRound := 0, RsPhase := PhasePropose, RsProposal := None,
                Prevotes := [], Precommits := [], LockedBlock := None\<rparr>\<rparr>);
          e = e\<lparr>proposeTimer := True\<rparr>;
          e = (if skipProposerPK env vals e = PublicKey (envKp env) then e\<lparr>proposeReady := True\<rparr> else e) in
      persistRoundState env e)"


section \<open>Votes, proposals and rounds\<close>

text \<open>\<open>handle\<close> is \<^verbatim>\<open>handleVote\<close>, which the vote just cast goes through; these three and \<^verbatim>\<open>handleVote\<close> call each other.\<close>

type_synonym voteHandler = "bytes32 list \<Rightarrow> int list \<Rightarrow> Vote \<Rightarrow> Engine \<Rightarrow> run"

definition selfVote :: "voteHandler \<Rightarrow> bytes32 list \<Rightarrow> int list \<Rightarrow> Engine \<times> Vote option \<Rightarrow> run" where
  "selfVote handle vals stks r = (case r of (e, None) \<Rightarrow> ok e | (e, Some v) \<Rightarrow> handle vals stks v e)"

definition broadcastProposal :: "voteHandler \<Rightarrow> EngineEnv \<Rightarrow> bytes32 list \<Rightarrow> int list \<Rightarrow> Engine \<Rightarrow> run" where
  "broadcastProposal handle env vals stks e =
     (case proposer e of None \<Rightarrow> ok e
      | Some bl \<Rightarrow>
         let p = ProposeForState (envC env) bl (RsHeight (rs e)) (RsRound (rs e)) (LastAttestation (rs e)) (prevStateRoot e) in
         if RsPhase (rs e) \<noteq> PhasePropose then ok e
         else case SerializeProposal (envC env) p of Inl _ \<Rightarrow> ok e
         | Inr data \<Rightarrow>
            let e = setPhase PhasePrevote (e\<lparr>rs := (rs e)\<lparr>RsProposal := Some p\<rparr>\<rparr>);
                e = BroadcastBlockHeader data (persistRoundState env e) in
            selfVote handle vals stks (broadcastPrevote env (BlockHashForChain (envC env) p (envChain env)) e))"

definition restartRound :: "voteHandler \<Rightarrow> EngineEnv \<Rightarrow> Engine \<Rightarrow> run" where
  "restartRound handle env e =
     (case BondedAmounts (stake (sm e)) of Inl _ \<Rightarrow> ok e
      | Inr (vals, stks) \<Rightarrow>
         let e = (setStatus (e\<lparr>rs := IncrementRound (Unlock (rs e))\<rparr>))\<lparr>proposeTimer := True\<rparr> in
         andThen (if skipProposerPK env vals e = PublicKey (envKp env) then broadcastProposal handle env vals stks e else ok e)
           (\<lambda>e. ok (persistRoundState env e)))"

definition onPrevote :: "voteHandler \<Rightarrow> EngineEnv \<Rightarrow> bytes32 list \<Rightarrow> int list \<Rightarrow> Vote \<Rightarrow> Engine \<Rightarrow> run" where
  "onPrevote handle env vals stks v e =
     (if bget (Prevotes (rs e)) (ValidatorPK v) \<noteq> None then ok e
      else
        let e = persistRoundState env (e\<lparr>rs := (rs e)\<lparr>Prevotes := bput (Prevotes (rs e)) (ValidatorPK v) v\<rparr>\<rparr>) in
        if QuorumReached (Prevotes (rs e)) vals stks \<and> RsPhase (rs e) = PhasePrevote then
          let e = (setPhase PhasePrecommit e)\<lparr>prevoteTimer := False, precommitTimer := True\<rparr> in
          (case quorumBlock (Prevotes (rs e)) vals stks of
             (blockHash, True) \<Rightarrow>
               let e = e\<lparr>rs := Lock blockHash (RsRound (rs e)) (rs e)\<rparr> in
               selfVote handle vals stks (broadcastPrecommit env blockHash e)
           | (_, False) \<Rightarrow> selfVote handle vals stks (broadcastPrecommit env 0 e))
        else ok e)"

definition onPrecommit :: "voteHandler \<Rightarrow> EngineEnv \<Rightarrow> bytes32 list \<Rightarrow> int list \<Rightarrow> Vote \<Rightarrow> Engine \<Rightarrow> run" where
  "onPrecommit handle env vals stks v e =
     (if bget (Precommits (rs e)) (ValidatorPK v) \<noteq> None then ok e
      else
        let e = persistRoundState env (e\<lparr>rs := (rs e)\<lparr>Precommits := bput (Precommits (rs e)) (ValidatorPK v) v\<rparr>\<rparr>) in
        if QuorumReached (Precommits (rs e)) vals stks \<and> RsPhase (rs e) = PhasePrecommit then
          (case quorumBlock (Precommits (rs e)) vals stks of (blockHash, hasQuorum) \<Rightarrow>
             if hasQuorum \<and> blockHash \<noteq> 0 then
               let e = setPhase PhaseCommit (e\<lparr>precommitTimer := False\<rparr>) in
               (case commit env blockHash e of
                  Inl err \<Rightarrow> Some (Inl err)
                | Inr (e, True) \<Rightarrow>
                   let e = e\<lparr>rs := (rs e)\<lparr>LastAttestation := attestationFromPrecommits (envVotes env) (Precommits (rs e)) blockHash\<rparr>\<rparr> in
                   (case BondedAmounts (stake (sm e)) of Inl _ \<Rightarrow> ok e
                    | Inr (vals, stks) \<Rightarrow> ok (startNextRound env vals e))
                | Inr (e, False) \<Rightarrow> restartRound handle env (rejectProposal env e))
             else restartRound handle env (rejectProposal env e))
        else ok e)"

definition handleVoteBody :: "voteHandler \<Rightarrow> EngineEnv \<Rightarrow> voteHandler" where
  "handleVoteBody handle env vals stks v e =
     (if VHeight v \<noteq> RsHeight (rs e) \<or> VRound v \<noteq> RsRound (rs e) then ok e
      else if \<not> VerifyVoteForChain (envC env) v (envChain env) then ok e
      else if ValidatorPK v \<notin> set vals then ok e
      else if VType v = VotePrevote then onPrevote handle env vals stks v e
      else if VType v = VotePrecommit then onPrecommit handle env vals stks v e
      else ok e)"

text \<open>The recursion carries fuel; every nested call has used up one slot of the vote log, so that the fuel chosen by
  the event loop below is never exhausted.\<close>

primrec handleVote :: "nat \<Rightarrow> EngineEnv \<Rightarrow> voteHandler" where
  "handleVote 0 env = (\<lambda>vals stks v e. None)"
| "handleVote (Suc n) env = handleVoteBody (handleVote n env) env"

definition handleProposal :: "nat \<Rightarrow> EngineEnv \<Rightarrow> BlockProposal \<Rightarrow> Engine \<Rightarrow> run" where
  "handleProposal n env p e =
     (if PropHeight p \<noteq> RsHeight (rs e) \<or> PropRound p \<noteq> RsRound (rs e) then ok e
      else if PropPrevStateRoot p \<noteq> prevStateRoot e then ok e
      else if RsPhase (rs e) \<noteq> PhasePropose \<or> RsProposal (rs e) \<noteq> None then ok e
      else if SkipProposer (envC env) (prevStateRoot e) (RsHeight (rs e)) (engValidators e) (RsRound (rs e)) \<noteq> Inr (ProposerPK p) then ok e
      else if \<not> list_all (\<lambda>t. VerifySigsForChain (envC env) (envChain env) t = Inr ()) (PropTxs p) then ok e
      else if AttVotes (PrevAttestations p) \<noteq> [] \<and>
        VerifyAttestationForChain (envC env) (Some (PrevAttestations p)) (engValidators e) (map Some (engStakes e)) (envChain env) \<noteq> Inr () then ok e
      else
        let e = setPhase PhasePrevote (e\<lparr>rs := (rs e)\<lparr>RsProposal := Some p\<rparr>\<rparr>);
            e = e\<lparr>proposeTimer := False, prevoteTimer := True\<rparr>;
            blockHash = BlockHashForChain (envC env) p (envChain env);
            choice = (if LockedBlock (rs e) \<noteq> None \<and> LockedBlock (rs e) \<noteq> Some blockHash then 0 else blockHash) in
        andThen (selfVote (handleVote n env) (engValidators e) (engStakes e) (broadcastPrevote env choice e))
          (\<lambda>e. ok (persistRoundState env e)))"

definition onProposeTimeout :: "nat \<Rightarrow> EngineEnv \<Rightarrow> Engine \<Rightarrow> run" where
  "onProposeTimeout n env e =
     (if RsPhase (rs e) \<noteq> PhasePropose then ok e
      else
        let e = (setPhase PhasePrevote e)\<lparr>prevoteTimer := True\<rparr> in
        andThen (selfVote (handleVote n env) (engValidators e) (engStakes e) (broadcastPrevote env 0 e))
          (\<lambda>e. ok (persistRoundState env e)))"

definition onPrevoteTimeout :: "nat \<Rightarrow> EngineEnv \<Rightarrow> Engine \<Rightarrow> run" where
  "onPrevoteTimeout n env e =
     (if RsPhase (rs e) \<noteq> PhasePrevote then ok e
      else
        let e = (setPhase PhasePrecommit e)\<lparr>precommitTimer := True\<rparr> in
        andThen (selfVote (handleVote n env) (engValidators e) (engStakes e) (broadcastPrecommit env 0 e))
          (\<lambda>e. ok (persistRoundState env e)))"

definition onPrecommitTimeout :: "nat \<Rightarrow> EngineEnv \<Rightarrow> Engine \<Rightarrow> run" where
  "onPrecommitTimeout n env e =
     (let e = (setStatus (e\<lparr>rs := IncrementRound (rs e)\<rparr>))\<lparr>proposeTimer := True\<rparr> in
      andThen (if skipProposerPK env (engValidators e) e = PublicKey (envKp env)
               then broadcastProposal (handleVote n env) env (engValidators e) (engStakes e) e else ok e)
        (\<lambda>e. ok (persistRoundState env e)))"

definition onProposeReady :: "nat \<Rightarrow> EngineEnv \<Rightarrow> Engine \<Rightarrow> run" where
  "onProposeReady n env e =
     (if RsPhase (rs e) = PhasePropose \<and> skipProposerPK env (engValidators e) e = PublicKey (envKp env)
      then broadcastProposal (handleVote n env) env (engValidators e) (engStakes e) e else ok e)"


section \<open>The event loop\<close>

definition parseProposal :: "EngineEnv \<Rightarrow> bytes \<Rightarrow> BlockProposal option res" where
  "parseProposal env raw =
     (case DeserializeProposal (envC env) raw of
        Inl Panic \<Rightarrow> Inl Panic
      | Inl _ \<Rightarrow> Inr None
      | Inr p \<Rightarrow> Inr (if Verify (envC env) (ProposerPK p) (ProposalSignBytesForChain (envC env) p (envChain env)) (ProposerSig p)
          then Some p else None))"

text \<open>The cases of the \<^verbatim>\<open>select\<close> in \<^verbatim>\<open>Start\<close>, and a transaction reaching the mempool beside it. A timer that is not armed
  does not fire.\<close>

datatype event = VoteIn bytes | ProposalIn bytes | ProposeTimeout | PrevoteTimeout | PrecommitTimeout | ProposeReady | TxIn Tx

definition engineStep :: "nat \<Rightarrow> EngineEnv \<Rightarrow> event \<Rightarrow> Engine \<Rightarrow> run" where
  "engineStep n env ev e =
     (case ev of
        VoteIn rawVote \<Rightarrow> (case DeserializeVote rawVote of Inl _ \<Rightarrow> ok e
          | Inr v \<Rightarrow> handleVote n env (engValidators e) (engStakes e) v e)
      | ProposalIn rawProposal \<Rightarrow> (case parseProposal env rawProposal of
            Inl err \<Rightarrow> Some (Inl err) | Inr None \<Rightarrow> ok e | Inr (Some p) \<Rightarrow> handleProposal n env p e)
      | ProposeTimeout \<Rightarrow> if proposeTimer e then onProposeTimeout n env (e\<lparr>proposeTimer := False\<rparr>) else ok e
      | PrevoteTimeout \<Rightarrow> if prevoteTimer e then onPrevoteTimeout n env (e\<lparr>prevoteTimer := False\<rparr>) else ok e
      | PrecommitTimeout \<Rightarrow> if precommitTimer e then onPrecommitTimeout n env (e\<lparr>precommitTimer := False\<rparr>) else ok e
      | ProposeReady \<Rightarrow> if proposeReady e then onProposeReady n env (e\<lparr>proposeReady := False\<rparr>) else ok e
      | TxIn t \<Rightarrow> ok (e\<lparr>proposer := map_option (\<lambda>bl. bl\<lparr>blMempool := Enqueue (envC env) t (blMempool bl)\<rparr>) (proposer e)\<rparr>))"

definition restoredState :: "EngineEnv \<Rightarrow> StateDB \<Rightarrow> u64 \<Rightarrow> RoundState res" where
  "restoredState env db height =
     (let raw = LoadConsensusState db in
      if raw = [] then Inr (NewRoundState (height + 1))
      else case decodeRoundState (envC env) raw (envChain env) of
        Inl Panic \<Rightarrow> Inl Panic
      | Inl _ \<Rightarrow> Inr (NewRoundState (height + 1))
      | Inr restored \<Rightarrow> Inr (if RsHeight restored = height + 1 then restored else NewRoundState (height + 1)))"

definition resumeCommit :: "nat \<Rightarrow> EngineEnv \<Rightarrow> Engine \<Rightarrow> run" where
  "resumeCommit n env e =
     (case quorumBlock (Precommits (rs e)) (engValidators e) (engStakes e) of (blockHash, hasQuorum) \<Rightarrow>
        if hasQuorum \<and> blockHash \<noteq> 0 then
          (case commit env blockHash e of
             Inl err \<Rightarrow> Some (Inl err)
           | Inr (e, True) \<Rightarrow>
              let e = e\<lparr>rs := (rs e)\<lparr>LastAttestation := attestationFromPrecommits (envVotes env) (Precommits (rs e)) blockHash\<rparr>\<rparr> in
              (case BondedAmounts (stake (sm e)) of Inl err \<Rightarrow> Some (Inl err)
               | Inr (vals, stks) \<Rightarrow> ok (startNextRound env vals (e\<lparr>engValidators := vals, engStakes := stks\<rparr>)))
           | Inr (e, False) \<Rightarrow> restartRound (handleVote n env) env (rejectProposal env e))
        else ok e)"

text \<open>\<^verbatim>\<open>Start\<close> up to its loop. An error it returns is a value \<^const>\<open>Inl\<close>.\<close>

definition Start :: "nat \<Rightarrow> EngineEnv \<Rightarrow> StateDB \<Rightarrow> BlockLoop option \<Rightarrow> run" where
  "Start n env db bl =
     (case CurrentHeight db of Inl err \<Rightarrow> Some (Inl err)
      | Inr height \<Rightarrow> (case restoredState env db height of Inl err \<Rightarrow> Some (Inl err)
      | Inr r \<Rightarrow> (case BondedAmounts (stake db) of Inl err \<Rightarrow> Some (Inl err)
      | Inr (vals, stks) \<Rightarrow>
         let e = setStatus \<lparr>sm = db, rs = r, proposer = bl, engValidators = vals, engStakes = stks, proposeTimer = True,
                   prevoteTimer = False, precommitTimer = False, proposeReady = False, outbox = [],
                   engStatus = \<lparr>StHeight = 0, StRound = 0, StPhase = 0\<rparr>\<rparr> in
         if RsPhase r = PhasePrevote then ok (e\<lparr>proposeTimer := False, prevoteTimer := True\<rparr>)
         else if RsPhase r = PhasePrecommit then ok (e\<lparr>proposeTimer := False, precommitTimer := True\<rparr>)
         else if RsPhase r = PhaseCommit then resumeCommit n env (e\<lparr>proposeTimer := False\<rparr>)
         else if skipProposerPK env vals e = PublicKey (envKp env) then ok (e\<lparr>proposeReady := True\<rparr>)
         else ok e)))"

end
