(* ===== verification/FRG_EngineRuns.thy ===== *)
theory FRG_EngineRuns
  imports FRG_Consensus
begin

text \<open>Runs of the consensus engine: its handlers end, each is a sequence of atomic updates, and a node that crashes and
  restarts at any point keeps to one vote per slot.\<close>

section \<open>What the helpers leave alone\<close>

lemma setStatus_fields [simp]:
  "sm (setStatus e) = sm e" "rs (setStatus e) = rs e" "proposer (setStatus e) = proposer e"
  "engValidators (setStatus e) = engValidators e" "engStakes (setStatus e) = engStakes e" "outbox (setStatus e) = outbox e"
  "proposeTimer (setStatus e) = proposeTimer e" "prevoteTimer (setStatus e) = prevoteTimer e"
  "precommitTimer (setStatus e) = precommitTimer e" "proposeReady (setStatus e) = proposeReady e"
  by (simp_all add: setStatus_def)

lemma setPhase_fields [simp]:
  "sm (setPhase ph e) = sm e" "rs (setPhase ph e) = (rs e)\<lparr>RsPhase := ph\<rparr>" "proposer (setPhase ph e) = proposer e"
  "engValidators (setPhase ph e) = engValidators e" "engStakes (setPhase ph e) = engStakes e" "outbox (setPhase ph e) = outbox e"
  "proposeTimer (setPhase ph e) = proposeTimer e" "prevoteTimer (setPhase ph e) = prevoteTimer e"
  "precommitTimer (setPhase ph e) = precommitTimer e" "proposeReady (setPhase ph e) = proposeReady e"
  by (simp_all add: setPhase_def)

lemma persist_fields [simp]:
  "rs (persistRoundState env e) = rs e" "proposer (persistRoundState env e) = proposer e"
  "engValidators (persistRoundState env e) = engValidators e" "engStakes (persistRoundState env e) = engStakes e"
  "outbox (persistRoundState env e) = outbox e"
  "proposeTimer (persistRoundState env e) = proposeTimer e" "prevoteTimer (persistRoundState env e) = prevoteTimer e"
  "precommitTimer (persistRoundState env e) = precommitTimer e" "proposeReady (persistRoundState env e) = proposeReady e"
  by (simp_all add: persistRoundState_def split: sum.splits)

lemma BroadcastBlockHeader_fields [simp]:
  "sm (BroadcastBlockHeader d e) = sm e" "rs (BroadcastBlockHeader d e) = rs e" "proposer (BroadcastBlockHeader d e) = proposer e"
  "engValidators (BroadcastBlockHeader d e) = engValidators e" "engStakes (BroadcastBlockHeader d e) = engStakes e"
  "proposeTimer (BroadcastBlockHeader d e) = proposeTimer e" "prevoteTimer (BroadcastBlockHeader d e) = prevoteTimer e"
  "precommitTimer (BroadcastBlockHeader d e) = precommitTimer e" "proposeReady (BroadcastBlockHeader d e) = proposeReady e"
  by (simp_all add: BroadcastBlockHeader_def)

lemma rejectProposal_fields [simp]:
  "sm (rejectProposal env e) = sm e" "rs (rejectProposal env e) = rs e"
  "engValidators (rejectProposal env e) = engValidators e" "engStakes (rejectProposal env e) = engStakes e"
  "outbox (rejectProposal env e) = outbox e"
  "proposeTimer (rejectProposal env e) = proposeTimer e" "prevoteTimer (rejectProposal env e) = prevoteTimer e"
  "precommitTimer (rejectProposal env e) = precommitTimer e" "proposeReady (rejectProposal env e) = proposeReady e"
  by (simp_all add: rejectProposal_def split: option.splits)

lemma castVote_fields [simp]:
  "rs (fst (castVote env ty h e)) = rs e" "proposer (fst (castVote env ty h e)) = proposer e"
  "engValidators (fst (castVote env ty h e)) = engValidators e" "engStakes (fst (castVote env ty h e)) = engStakes e"
  "proposeTimer (fst (castVote env ty h e)) = proposeTimer e" "prevoteTimer (fst (castVote env ty h e)) = prevoteTimer e"
  "precommitTimer (fst (castVote env ty h e)) = precommitTimer e" "proposeReady (fst (castVote env ty h e)) = proposeReady e"
  by (simp_all add: castVote_def Let_def split: prod.splits bool.splits)

lemmas broadcast_defs = broadcastPrevote_def broadcastPrecommit_def

lemma andThen_None [simp]: "andThen r k = None \<longleftrightarrow> r = None \<or> (\<exists>e. r = ok e \<and> k e = None)"
  by (auto simp: andThen_def split: option.splits sum.splits)

lemma andThen_ok: "andThen r k = ok e' \<longleftrightarrow> (\<exists>e. r = ok e \<and> k e = ok e')"
  by (auto simp: andThen_def split: option.splits sum.splits)


section \<open>Termination of the handlers\<close>

text \<open>The slots of the vote log that are still free.\<close>

definition freeSlots :: "StateDB \<Rightarrow> (u64 \<times> u32 \<times> u8) set" where
  "freeSlots db = {(h, r, ty). bget (meta db) (consensusVoteKey h r ty) = None}"

lemma freeSlots_persist [simp]: "freeSlots (sm (persistRoundState env e)) = freeSlots (sm e)"
  by (simp add: persistRoundState_def freeSlots_def SaveConsensusState_def bget_bput split: sum.splits)

lemma freeSlots_cast:
  assumes "castVote env ty h e = (e', Some v)"
  shows "card (freeSlots (sm e')) < card (freeSlots (sm e))"
proof -
  let ?k = "consensusVoteKey (RsHeight (rs e)) (RsRound (rs e)) ty"
  from assms have none: "bget (meta (sm e)) ?k = None" and db: "meta (sm e') = bput (meta (sm e)) ?k (arr32 h)"
    by (auto simp: castVote_def RecordConsensusVote_def Let_def split: option.splits)
  have "freeSlots (sm e') = freeSlots (sm e) - {(RsHeight (rs e), RsRound (rs e), ty)}"
    by (auto simp: freeSlots_def db bget_bput consensusVoteKey_inject split: if_splits)
  moreover have "(RsHeight (rs e), RsRound (rs e), ty) \<in> freeSlots (sm e)" using none by (simp add: freeSlots_def)
  ultimately show ?thesis using card_Diff1_less[of "freeSlots (sm e)"] by simp
qed

text \<open>Two handlers that agree below a number of free slots, and are defined there.\<close>

definition definedBelow :: "nat \<Rightarrow> voteHandler \<Rightarrow> bool" where
  "definedBelow k handle \<longleftrightarrow> (\<forall>vals stks v e. card (freeSlots (sm e)) < k \<longrightarrow> handle vals stks v e \<noteq> None)"

definition agreeBelow :: "nat \<Rightarrow> voteHandler \<Rightarrow> voteHandler \<Rightarrow> bool" where
  "agreeBelow k handle handle' \<longleftrightarrow> (\<forall>vals stks v e. card (freeSlots (sm e)) < k \<longrightarrow> handle vals stks v e = handle' vals stks v e)"

lemma selfVote_agree:
  assumes "agreeBelow k handle handle'" "card (freeSlots (sm e)) \<le> k"
  shows "selfVote handle vals stks (castVote env ty h e) = selfVote handle' vals stks (castVote env ty h e)"
proof -
  obtain e' r where c: "castVote env ty h e = (e', r)" by fastforce
  show ?thesis
  proof (cases r)
    case (Some v)
    with freeSlots_cast[of env ty h e e' v] assms c show ?thesis by (simp add: selfVote_def agreeBelow_def)
  qed (simp add: c selfVote_def)
qed

lemma selfVote_defined:
  assumes "definedBelow k handle" "card (freeSlots (sm e)) \<le> k"
  shows "selfVote handle vals stks (castVote env ty h e) \<noteq> None"
proof -
  obtain e' r where c: "castVote env ty h e = (e', r)" by fastforce
  show ?thesis
  proof (cases r)
    case (Some v)
    with freeSlots_cast[of env ty h e e' v] assms c show ?thesis by (simp add: selfVote_def definedBelow_def)
  qed (simp add: c selfVote_def)
qed

lemma broadcastProposal_agree:
  assumes "agreeBelow k handle handle'" "card (freeSlots (sm e)) \<le> k"
  shows "broadcastProposal handle env vals stks e = broadcastProposal handle' env vals stks e"
proof -
  have s: "selfVote handle vals stks (castVote env ty h e1) = selfVote handle' vals stks (castVote env ty h e1)"
    if "freeSlots (sm e1) = freeSlots (sm e)" for ty h e1
    using selfVote_agree[OF assms(1), of e1] assms(2) that by simp
  show ?thesis by (simp add: broadcastProposal_def Let_def broadcast_defs s split: option.split sum.split)
qed

lemma broadcastProposal_defined:
  assumes "definedBelow k handle" "card (freeSlots (sm e)) \<le> k"
  shows "broadcastProposal handle env vals stks e \<noteq> None"
proof -
  have s: "selfVote handle vals stks (castVote env ty h e1) \<noteq> None" if "freeSlots (sm e1) = freeSlots (sm e)" for ty h e1
    using selfVote_defined[OF assms(1), of e1] assms(2) that by simp
  show ?thesis by (simp add: broadcastProposal_def Let_def broadcast_defs s del: not_None_eq split: option.split sum.split)
qed

lemma restartRound_agree:
  assumes "agreeBelow k handle handle'" "card (freeSlots (sm e)) \<le> k"
  shows "restartRound handle env e = restartRound handle' env e"
proof -
  have s: "broadcastProposal handle env vals stks e1 = broadcastProposal handle' env vals stks e1" if "sm e1 = sm e" for vals stks e1
    using broadcastProposal_agree[OF assms(1), of e1] assms(2) that by simp
  show ?thesis by (simp add: restartRound_def Let_def s split: sum.split)
qed

lemma restartRound_defined:
  assumes "definedBelow k handle" "card (freeSlots (sm e)) \<le> k"
  shows "restartRound handle env e \<noteq> None"
proof -
  have s: "broadcastProposal handle env vals stks e1 \<noteq> None" if "sm e1 = sm e" for vals stks e1
    using broadcastProposal_defined[OF assms(1), of e1] assms(2) that by simp
  show ?thesis by (simp add: restartRound_def Let_def s del: not_None_eq split: sum.split)
qed

lemma commit_False: "commit env h e = Inr (e', False) \<Longrightarrow> e' = e"
  by (auto simp: commit_def split: option.splits if_splits sum.splits goerr.splits prod.splits)

lemma handleVoteBody_agree:
  assumes "agreeBelow k handle handle'" "card (freeSlots (sm e)) \<le> k"
  shows "handleVoteBody handle env vals stks v e = handleVoteBody handle' env vals stks v e"
proof -
  have s: "selfVote handle vals stks (castVote env ty h e1) = selfVote handle' vals stks (castVote env ty h e1)"
    if "freeSlots (sm e1) = freeSlots (sm e)" for ty h e1
    using selfVote_agree[OF assms(1), of e1] assms(2) that by simp
  have r: "restartRound handle env e1 = restartRound handle' env e1" if "freeSlots (sm e1) = freeSlots (sm e)" for e1
    using restartRound_agree[OF assms(1), of e1] assms(2) that by simp
  have 1: "onPrevote handle env vals stks v e = onPrevote handle' env vals stks v e"
    by (simp add: onPrevote_def Let_def broadcast_defs s split: prod.split bool.split)
  have 2: "onPrecommit handle env vals stks v e = onPrecommit handle' env vals stks v e"
    by (auto simp: onPrecommit_def Let_def r split: prod.split bool.split sum.split dest!: commit_False)
  show ?thesis by (simp add: handleVoteBody_def 1 2)
qed

lemma handleVoteBody_defined:
  assumes "definedBelow k handle" "card (freeSlots (sm e)) \<le> k"
  shows "handleVoteBody handle env vals stks v e \<noteq> None"
proof -
  have s: "selfVote handle vals stks (castVote env ty h e1) \<noteq> None" if "freeSlots (sm e1) = freeSlots (sm e)" for ty h e1
    using selfVote_defined[OF assms(1), of e1] assms(2) that by simp
  have r: "restartRound handle env e1 \<noteq> None" if "freeSlots (sm e1) = freeSlots (sm e)" for e1
    using restartRound_defined[OF assms(1), of e1] assms(2) that by simp
  have 1: "onPrevote handle env vals stks v e \<noteq> None"
    by (simp add: onPrevote_def Let_def broadcast_defs s del: not_None_eq split: prod.split bool.split)
  have 2: "onPrecommit handle env vals stks v e \<noteq> None"
    by (auto simp: onPrecommit_def Let_def r r[unfolded not_None_eq] split: prod.split bool.split sum.split dest!: commit_False)
  show ?thesis by (simp add: handleVoteBody_def 1 2 del: not_None_eq)
qed

lemma handleVote_defined: "definedBelow n (handleVote n env)"
proof (induction n)
  case (Suc n)
  then show ?case using handleVoteBody_defined[OF Suc] by (simp add: definedBelow_def)
qed (simp add: definedBelow_def)

lemma handleVote_agree: "agreeBelow (min n m) (handleVote n env) (handleVote m env)"
proof (induction n arbitrary: m)
  case (Suc n)
  then show ?case
  proof (cases m)
    case (Suc m')
    show ?thesis using handleVoteBody_agree[OF Suc.IH[of m']] by (simp add: agreeBelow_def Suc less_Suc_eq_le)
  qed (simp add: agreeBelow_def)
qed (simp add: agreeBelow_def)


lemma fuel_agree: "n \<le> m \<Longrightarrow> agreeBelow n (handleVote n env) (handleVote m env)"
  using handleVote_agree[of n m env] by (simp add: min_absorb1)

lemma engineStep_fuel:
  assumes "card (freeSlots (sm e)) < n" "n \<le> m"
  shows "engineStep m env ev e = engineStep n env ev e"
proof -
  note agree = fuel_agree[OF assms(2), of env]
  have h: "handleVote m env vals stks v e = handleVote n env vals stks v e" for vals stks v
    using agree assms(1) by (simp add: agreeBelow_def)
  have s: "selfVote (handleVote m env) vals stks (castVote env ty h e1) = selfVote (handleVote n env) vals stks (castVote env ty h e1)"
    if "sm e1 = sm e" for vals stks ty h e1
    using selfVote_agree[OF agree, of e1] assms(1) that by simp
  have b: "broadcastProposal (handleVote m env) env vals stks e1 = broadcastProposal (handleVote n env) env vals stks e1"
    if "sm e1 = sm e" for vals stks e1
    using broadcastProposal_agree[OF agree, of e1] assms(1) that by simp
  show ?thesis
    by (cases ev) (simp_all add: engineStep_def h s b handleProposal_def onProposeTimeout_def onPrevoteTimeout_def
        onPrecommitTimeout_def onProposeReady_def Let_def broadcast_defs split: sum.split option.split)
qed

lemma engineStep_defined:
  assumes "card (freeSlots (sm e)) < n"
  shows "engineStep n env ev e \<noteq> None"
proof -
  note def = handleVote_defined[of n env]
  have h: "handleVote n env vals stks v e \<noteq> None" for vals stks v
    using def assms(1) by (simp add: definedBelow_def)
  have s: "selfVote (handleVote n env) vals stks (castVote env ty h e1) \<noteq> None" if "sm e1 = sm e" for vals stks ty h e1
    using selfVote_defined[OF def, of e1] assms(1) that by simp
  have b: "broadcastProposal (handleVote n env) env vals stks e1 \<noteq> None" if "sm e1 = sm e" for vals stks e1
    using broadcastProposal_defined[OF def, of e1] assms(1) that by simp
  show ?thesis
    by (cases ev) (simp_all add: engineStep_def h s b handleProposal_def onProposeTimeout_def onPrevoteTimeout_def
        onPrecommitTimeout_def onProposeReady_def Let_def broadcast_defs del: not_None_eq split: sum.split option.split)
qed

lemma freeSlots_bound: "card (freeSlots db) \<le> 2 ^ 104"
proof -
  have "card (freeSlots db) \<le> card (UNIV :: (u64 \<times> u32 \<times> u8) set)" by (intro card_mono) auto
  also have "\<dots> = 2 ^ 104"
    by (simp add: card_cartesian_product card_word flip: UNIV_Times_UNIV)
  finally show ?thesis .
qed


section \<open>The handlers as sequences of atomic updates\<close>

text \<open>A validator set a handler may work with: the one \<^verbatim>\<open>Start\<close> loaded, or the one the staking store reports now.\<close>

definition valSets :: "Engine \<Rightarrow> (bytes32 list \<times> int list) set" where
  "valSets e = insert (engValidators e, engStakes e) {vs. BondedAmounts (stake (sm e)) = Inr vs}"

definition acceptable :: "EngineEnv \<Rightarrow> bytes32 list \<Rightarrow> Vote \<Rightarrow> Engine \<Rightarrow> bool" where
  "acceptable env vals v e \<longleftrightarrow> VHeight v = RsHeight (rs e) \<and> VRound v = RsRound (rs e) \<and>
     VerifyVoteForChain (envC env) v (envChain env) \<and> ValidatorPK v \<in> set vals"

text \<open>Updates of the phase, lock, proposal, timers, mempool and status.\<close>

definition sameCore :: "Engine \<Rightarrow> Engine \<Rightarrow> bool" where
  "sameCore e e' \<longleftrightarrow> sm e' = sm e \<and> engValidators e' = engValidators e \<and> engStakes e' = engStakes e \<and> outbox e' = outbox e \<and>
     RsHeight (rs e') = RsHeight (rs e) \<and> RsRound (rs e') = RsRound (rs e) \<and> Prevotes (rs e') = Prevotes (rs e) \<and>
     Precommits (rs e') = Precommits (rs e) \<and> LastAttestation (rs e') = LastAttestation (rs e)"

text \<open>The atomic updates of a running engine. A vote is recorded before it is sent, so that \<open>logged\<close> is the first half of
  \<open>cast\<close>.\<close>

inductive micro :: "EngineEnv \<Rightarrow> Engine \<Rightarrow> Engine \<Rightarrow> bool" for env where
  cast: "ty = VotePrevote \<or> ty = VotePrecommit \<Longrightarrow> micro env e (fst (castVote env ty h e))"
| persist: "micro env e (persistRoundState env e)"
| header: "micro env e (BroadcastBlockHeader d e)"
| local: "sameCore e e' \<Longrightarrow> micro env e e'"
| prevote: "\<lbrakk>acceptable env vals v e; (vals, stks) \<in> valSets e; VType v = VotePrevote; bget (Prevotes (rs e)) (ValidatorPK v) = None\<rbrakk>
    \<Longrightarrow> micro env e (e\<lparr>rs := (rs e)\<lparr>Prevotes := bput (Prevotes (rs e)) (ValidatorPK v) v\<rparr>\<rparr>)"
| precommit: "\<lbrakk>acceptable env vals v e; (vals, stks) \<in> valSets e; VType v = VotePrecommit; bget (Precommits (rs e)) (ValidatorPK v) = None\<rbrakk>
    \<Longrightarrow> micro env e (e\<lparr>rs := (rs e)\<lparr>Precommits := bput (Precommits (rs e)) (ValidatorPK v) v\<rparr>\<rparr>)"
| logged: "micro env e (e\<lparr>sm := fst (RecordConsensusVote (sm e) (RsHeight (rs e)) (RsRound (rs e)) ty h)\<rparr>)"
| refresh: "BondedAmounts (stake (sm e)) = Inr (vals, stks) \<Longrightarrow> micro env e (e\<lparr>engValidators := vals, engStakes := stks\<rparr>)"
| round: "micro env e (e\<lparr>rs := IncrementRound (rs e)\<rparr>)"
| commit: "\<lbrakk>(vals, stks) \<in> valSets e; quorumBlock (Precommits (rs e)) vals stks = (h, True); h \<noteq> 0; commit env h e = Inr (e1, True)\<rbrakk>
    \<Longrightarrow> micro env e (e1\<lparr>rs := (rs e1)\<lparr>LastAttestation := attestationFromPrecommits (envVotes env) (Precommits (rs e1)) h\<rparr>\<rparr>)"
| height: "micro env e (e\<lparr>rs := (rs e)\<lparr>RsHeight := RsHeight (rs e) + 1, RsRound := 0, RsPhase := PhasePropose, RsProposal := None,
      Prevotes := [], Precommits := [], LockedBlock := None\<rparr>\<rparr>)"

abbreviation steps :: "EngineEnv \<Rightarrow> Engine \<Rightarrow> Engine \<Rightarrow> bool" where
  "steps env \<equiv> (micro env)\<^sup>*\<^sup>*"

lemma steps_local: "sameCore e e' \<Longrightarrow> steps env e e'"
  by (intro r_into_rtranclp micro.local)

lemma steps_cons: "micro env e e1 \<Longrightarrow> steps env e1 e' \<Longrightarrow> steps env e e'"
  by (rule converse_rtranclp_into_rtranclp)

lemma steps_local_cons: "sameCore e e1 \<Longrightarrow> steps env e1 e' \<Longrightarrow> steps env e e'"
  by (rule steps_cons[OF micro.local])

lemma steps_persist: "steps env e e1 \<Longrightarrow> steps env e (persistRoundState env e1)"
  by (meson micro.persist rtranclp.rtrancl_into_rtrancl)

lemma stake_persist [simp]: "stake (sm (persistRoundState env e)) = stake (sm e)"
  by (simp add: persistRoundState_def SaveConsensusState_def split: sum.splits)

lemma stake_cast [simp]: "stake (sm (fst (castVote env ty h e))) = stake (sm e)"
  by (simp add: castVote_def RecordConsensusVote_def Let_def split: prod.splits bool.splits option.splits)

definition microHandler :: "EngineEnv \<Rightarrow> voteHandler \<Rightarrow> bool" where
  "microHandler env handle \<longleftrightarrow> (\<forall>vals stks v e e'. (vals, stks) \<in> valSets e \<longrightarrow> handle vals stks v e = ok e' \<longrightarrow> steps env e e')"

lemma selfVote_micro:
  assumes "microHandler env handle" "(vals, stks) \<in> valSets e" "ty = VotePrevote \<or> ty = VotePrecommit"
    and run: "selfVote handle vals stks (castVote env ty h e) = ok e'"
  shows "steps env e e'"
proof -
  obtain e1 r where c: "castVote env ty h e = (e1, r)" by fastforce
  have e1: "e1 = fst (castVote env ty h e)" by (simp add: c)
  have "steps env e1 e'"
  proof (cases r)
    case None
    then show ?thesis using run c by (simp add: selfVote_def)
  next
    case (Some v)
    have "(vals, stks) \<in> valSets e1" using assms(2) by (simp add: valSets_def e1)
    then show ?thesis using assms(1) run c Some by (auto simp: selfVote_def microHandler_def)
  qed
  then show ?thesis using micro.cast[OF assms(3)] steps_cons e1 by blast
qed

lemma broadcastProposal_micro:
  assumes "microHandler env handle" "(vals, stks) \<in> valSets e" "broadcastProposal handle env vals stks e = ok e'"
  shows "steps env e e'"
proof (cases "e' = e")
  case False
  with assms(3) obtain p data where
    run: "selfVote handle vals stks (castVote env VotePrevote (BlockHashForChain (envC env) p (envChain env))
      (BroadcastBlockHeader data (persistRoundState env (setPhase PhasePrevote (e\<lparr>rs := (rs e)\<lparr>RsProposal := Some p\<rparr>\<rparr>))))) = ok e'"
    by (auto simp: broadcastProposal_def Let_def broadcast_defs split: option.splits sum.splits if_splits)
  let ?e1 = "setPhase PhasePrevote (e\<lparr>rs := (rs e)\<lparr>RsProposal := Some p\<rparr>\<rparr>)"
  have "sameCore e ?e1" by (simp add: sameCore_def)
  moreover have "(vals, stks) \<in> valSets (BroadcastBlockHeader data (persistRoundState env ?e1))"
    using assms(2) by (simp add: valSets_def)
  ultimately show ?thesis
    using selfVote_micro[OF assms(1) _ _ run] by (blast intro: steps_cons micro.persist micro.header micro.local)
qed simp

lemma restartRound_micro:
  assumes "microHandler env handle" "restartRound handle env e = ok e'"
  shows "steps env e e'"
proof (cases "BondedAmounts (stake (sm e))")
  case (Inl x)
  then show ?thesis using assms(2) by (simp add: restartRound_def)
next
  case (Inr vs)
  obtain vals stks where vs: "vs = (vals, stks)" by fastforce
  let ?e1 = "(setStatus (e\<lparr>rs := IncrementRound (Unlock (rs e))\<rparr>))\<lparr>proposeTimer := True\<rparr>"
  have mid: "steps env e ?e1"
  proof -
    have "sameCore e (e\<lparr>rs := Unlock (rs e)\<rparr>)" by (simp add: sameCore_def Unlock_def)
    moreover have "micro env (e\<lparr>rs := Unlock (rs e)\<rparr>) (e\<lparr>rs := IncrementRound (Unlock (rs e))\<rparr>)"
      using micro.round[of env "e\<lparr>rs := Unlock (rs e)\<rparr>"] by simp
    moreover have "sameCore (e\<lparr>rs := IncrementRound (Unlock (rs e))\<rparr>) ?e1" by (simp add: sameCore_def)
    ultimately show ?thesis using steps_cons steps_local micro.local by meson
  qed
  have vs1: "(vals, stks) \<in> valSets ?e1" by (simp add: valSets_def Inr vs)
  from assms(2) obtain e2 where e2: "(if skipProposerPK env vals ?e1 = PublicKey (envKp env) then broadcastProposal handle env vals stks ?e1 else ok ?e1) = ok e2"
    and e': "e' = persistRoundState env e2"
    by (auto simp: restartRound_def Let_def Inr vs andThen_ok)
  have "steps env ?e1 e2" using e2 broadcastProposal_micro[OF assms(1) vs1] by (auto split: if_splits)
  with mid show ?thesis unfolding e' by (intro steps_persist) (rule rtranclp_trans)
qed

lemma onPrevote_micro:
  assumes "microHandler env handle" "(vals, stks) \<in> valSets e" "acceptable env vals v e" "VType v = VotePrevote"
    and run: "onPrevote handle env vals stks v e = ok e'"
  shows "steps env e e'"
proof (cases "bget (Prevotes (rs e)) (ValidatorPK v) = None")
  case False
  then show ?thesis using run by (simp add: onPrevote_def)
next
  case True
  define e1 where "e1 = persistRoundState env (e\<lparr>rs := (rs e)\<lparr>Prevotes := bput (Prevotes (rs e)) (ValidatorPK v) v\<rparr>\<rparr>)"
  have s1: "steps env e e1" unfolding e1_def
    by (intro steps_cons[OF micro.prevote[OF assms(3,2,4) True]] steps_persist) simp
  have vs1: "(vals, stks) \<in> valSets e1" using assms(2) by (simp add: valSets_def e1_def)
  show ?thesis
  proof (cases "e' = e1")
    case False
    let ?e2 = "(setPhase PhasePrecommit e1)\<lparr>prevoteTimer := False, precommitTimer := True\<rparr>"
    obtain h q where q: "quorumBlock (Prevotes (rs e1)) vals stks = (h, q)" by fastforce
    define e2 where "e2 = (if q then ?e2\<lparr>rs := Lock h (RsRound (rs ?e2)) (rs ?e2)\<rparr> else ?e2)"
    have same: "sameCore e1 e2" by (simp add: e2_def sameCore_def Lock_def)
    have r: "selfVote handle vals stks (castVote env VotePrecommit (if q then h else 0) e2) = ok e'"
      using run True False q
      by (cases q) (auto simp: onPrevote_def Let_def broadcast_defs e2_def simp flip: e1_def split: if_splits)
    have "(vals, stks) \<in> valSets e2" using vs1 same by (simp add: valSets_def sameCore_def)
    then have "steps env e2 e'" using selfVote_micro[OF assms(1) _ _ r] by simp
    then show ?thesis using s1 steps_local_cons[OF same] rtranclp_trans by meson
  qed (use s1 in simp)
qed

lemma startNextRound_micro: "steps env e (startNextRound env vals e)"
proof -
  let ?r = "(rs e)\<lparr>RsHeight := RsHeight (rs e) + 1, RsRound := 0, RsPhase := PhasePropose, RsProposal := None,
      Prevotes := [], Precommits := [], LockedBlock := None\<rparr>"
  obtain e2 where e2: "startNextRound env vals e = persistRoundState env e2" and same: "sameCore (e\<lparr>rs := ?r\<rparr>) e2"
    by (simp add: startNextRound_def Let_def sameCore_def)
  show ?thesis unfolding e2 using steps_cons[OF micro.height steps_local[OF same]] by (rule steps_persist)
qed

text \<open>What follows a precommit: nothing, a new round, or a commit.\<close>

definition precommitted :: "EngineEnv \<Rightarrow> Vote \<Rightarrow> Engine \<Rightarrow> Engine" where
  "precommitted env v e = persistRoundState env (e\<lparr>rs := (rs e)\<lparr>Precommits := bput (Precommits (rs e)) (ValidatorPK v) v\<rparr>\<rparr>)"

definition committing :: "EngineEnv \<Rightarrow> Vote \<Rightarrow> Engine \<Rightarrow> Engine" where
  "committing env v e = setPhase PhaseCommit ((precommitted env v e)\<lparr>precommitTimer := False\<rparr>)"

definition attested_by :: "EngineEnv \<Rightarrow> bytes32 \<Rightarrow> Engine \<Rightarrow> Engine" where
  "attested_by env h e = e\<lparr>rs := (rs e)\<lparr>LastAttestation := attestationFromPrecommits (envVotes env) (Precommits (rs e)) h\<rparr>\<rparr>"

lemma onPrecommit_cases:
  assumes run: "onPrecommit handle env vals stks v e = ok e'"
  obtains (dup) "e' = e"
    | (counted) "bget (Precommits (rs e)) (ValidatorPK v) = None" "e' = precommitted env v e"
    | (mixed) "bget (Precommits (rs e)) (ValidatorPK v) = None" "restartRound handle env (rejectProposal env (precommitted env v e)) = ok e'"
    | (failed) "bget (Precommits (rs e)) (ValidatorPK v) = None" "restartRound handle env (rejectProposal env (committing env v e)) = ok e'"
    | (committed) h e3 where "bget (Precommits (rs e)) (ValidatorPK v) = None"
        "quorumBlock (Precommits (rs (precommitted env v e))) vals stks = (h, True)" "h \<noteq> 0"
        "commit env h (committing env v e) = Inr (e3, True)"
        "case BondedAmounts (stake (sm e3)) of Inl _ \<Rightarrow> e' = attested_by env h e3 | Inr (vals, _) \<Rightarrow> e' = startNextRound env vals (attested_by env h e3)"
proof (cases "bget (Precommits (rs e)) (ValidatorPK v) = None")
  case False
  then show thesis using run dup by (simp add: onPrecommit_def)
next
  case fresh: True
  let ?e1 = "precommitted env v e"
  obtain h q where q: "quorumBlock (Precommits (rs ?e1)) vals stks = (h, q)" by fastforce
  note run' = run[unfolded onPrecommit_def Let_def, folded precommitted_def, folded committing_def]
  show thesis
  proof (cases "QuorumReached (Precommits (rs ?e1)) vals stks \<and> RsPhase (rs ?e1) = PhasePrecommit")
    case False
    then show thesis using run' fresh counted by auto
  next
    case yes: True
    show thesis
    proof (cases "q \<and> h \<noteq> 0")
      case False
      then show thesis using run' fresh yes q mixed by auto
    next
      case qq: True
      then obtain e3 b where c: "commit env h (committing env v e) = Inr (e3, b)"
        using run' fresh yes q by (auto split: sum.splits)
      show thesis
      proof (cases b)
        case False
        then show thesis using run' fresh yes q qq c commit_False failed by auto
      next
        case b: True
        then have "case BondedAmounts (stake (sm e3)) of Inl _ \<Rightarrow> e' = attested_by env h e3 | Inr (vals, _) \<Rightarrow> e' = startNextRound env vals (attested_by env h e3)"
          using run' fresh yes q qq c by (auto simp: attested_by_def split: sum.splits)
        then show thesis using fresh q qq c b committed by auto
      qed
    qed
  qed
qed

lemma rejected_micro:
  assumes "microHandler env handle" "sameCore e e1" "restartRound handle env (rejectProposal env e1) = ok e'"
  shows "steps env e e'"
proof -
  have "sameCore e (rejectProposal env e1)" using assms(2) by (simp add: sameCore_def)
  then show ?thesis using restartRound_micro[OF assms(1,3)] by (rule steps_local_cons)
qed

lemma onPrecommit_micro:
  assumes "microHandler env handle" "(vals, stks) \<in> valSets e" "acceptable env vals v e" "VType v = VotePrecommit"
    and run: "onPrecommit handle env vals stks v e = ok e'"
  shows "steps env e e'"
proof -
  have s1: "steps env e (precommitted env v e)" if "bget (Precommits (rs e)) (ValidatorPK v) = None"
    unfolding precommitted_def by (intro steps_cons[OF micro.precommit[OF assms(3,2,4) that]] steps_persist) simp
  have same: "sameCore (precommitted env v e) (committing env v e)" by (simp add: sameCore_def committing_def)
  from run show ?thesis
  proof (cases rule: onPrecommit_cases)
    case counted
    then show ?thesis using s1 by simp
  next
    case mixed
    have "sameCore (precommitted env v e) (precommitted env v e)" by (simp add: sameCore_def)
    then show ?thesis using s1[OF mixed(1)] rejected_micro[OF assms(1) _ mixed(2)] rtranclp_trans by meson
  next
    case failed
    then show ?thesis using s1[OF failed(1)] rejected_micro[OF assms(1) same failed(2)] rtranclp_trans by meson
  next
    case (committed h e3)
    have "(vals, stks) \<in> valSets (committing env v e)" using assms(2) by (simp add: valSets_def committing_def precommitted_def)
    then have "micro env (committing env v e) (attested_by env h e3)"
      unfolding attested_by_def using committed(2-4) by (intro micro.commit) (auto simp: committing_def)
    moreover have "steps env (attested_by env h e3) e'"
      using committed(5) startNextRound_micro by (auto split: sum.splits)
    ultimately show ?thesis using s1[OF committed(1)] steps_local_cons[OF same] steps_cons rtranclp_trans by meson
  qed simp
qed

lemma handleVoteBody_micro: "microHandler env handle \<Longrightarrow> microHandler env (handleVoteBody handle env)"
  unfolding microHandler_def[of env "handleVoteBody handle env"]
  by (auto simp: handleVoteBody_def acceptable_def split: if_splits intro: onPrevote_micro onPrecommit_micro)

lemma handleVote_micro: "microHandler env (handleVote n env)"
  by (induction n) (auto simp: handleVoteBody_micro, simp add: microHandler_def)

lemma self_persist_micro:
  assumes "selfVote (handleVote n env) (engValidators e) (engStakes e) (castVote env ty h e1) = ok e2" "sameCore e e1"
    "ty = VotePrevote \<or> ty = VotePrecommit"
  shows "steps env e (persistRoundState env e2)"
proof -
  have "(engValidators e, engStakes e) \<in> valSets e1" using assms(2) by (simp add: valSets_def sameCore_def)
  then show ?thesis using selfVote_micro[OF handleVote_micro _ assms(3,1)] assms(2)
    by (intro steps_persist steps_local_cons[of e e1])
qed

lemma ownProposal_micro:
  assumes "broadcastProposal (handleVote n env) env (engValidators e) (engStakes e) e = ok e'"
  shows "steps env e e'"
  using broadcastProposal_micro[OF handleVote_micro _ assms] by (simp add: valSets_def)

lemma handleProposal_micro: "handleProposal n env p e = ok e' \<Longrightarrow> steps env e e'"
  by (auto simp: handleProposal_def Let_def broadcast_defs andThen_ok sameCore_def split: if_splits intro!: self_persist_micro)

lemma onProposeTimeout_micro: "onProposeTimeout n env e = ok e' \<Longrightarrow> steps env e e'"
  by (auto simp: onProposeTimeout_def Let_def broadcast_defs andThen_ok sameCore_def split: if_splits intro!: self_persist_micro)

lemma onPrevoteTimeout_micro: "onPrevoteTimeout n env e = ok e' \<Longrightarrow> steps env e e'"
  by (auto simp: onPrevoteTimeout_def Let_def broadcast_defs andThen_ok sameCore_def split: if_splits intro!: self_persist_micro)

lemma onProposeReady_micro: "onProposeReady n env e = ok e' \<Longrightarrow> steps env e e'"
  by (auto simp: onProposeReady_def split: if_splits intro: ownProposal_micro)

lemma onPrecommitTimeout_micro:
  assumes "onPrecommitTimeout n env e = ok e'"
  shows "steps env e e'"
proof -
  let ?e1 = "(setStatus (e\<lparr>rs := IncrementRound (rs e)\<rparr>))\<lparr>proposeTimer := True\<rparr>"
  have "sameCore (e\<lparr>rs := IncrementRound (rs e)\<rparr>) ?e1" by (simp add: sameCore_def)
  then have "steps env e ?e1" using steps_cons[OF micro.round steps_local] by blast
  moreover obtain e2 where "e' = persistRoundState env e2" "steps env ?e1 e2"
    using assms ownProposal_micro[of n env ?e1]
    by (auto simp: onPrecommitTimeout_def Let_def andThen_ok split: if_splits)
  ultimately show ?thesis using steps_persist rtranclp_trans by metis
qed

lemma engineStep_micro:
  assumes "engineStep n env ev e = ok e'"
  shows "steps env e e'"
proof -
  have timer: "steps env e e'" if "e' = e \<or> steps env e1 e'" "sameCore e e1" for e1 using that steps_local_cons by blast
  show ?thesis
  proof (cases ev)
    case (VoteIn raw)
    have "(engValidators e, engStakes e) \<in> valSets e" by (simp add: valSets_def)
    with VoteIn assms handleVote_micro[of env n] show ?thesis
      by (auto simp: engineStep_def microHandler_def split: sum.splits)
  next
    case (ProposalIn raw)
    then show ?thesis using assms handleProposal_micro by (auto simp: engineStep_def split: sum.splits option.splits)
  next
    case ProposeTimeout
    with assms onProposeTimeout_micro[of n env "e\<lparr>proposeTimer := False\<rparr>"] show ?thesis
      by (intro timer[of "e\<lparr>proposeTimer := False\<rparr>"]) (auto simp: engineStep_def sameCore_def split: if_splits)
  next
    case PrevoteTimeout
    with assms onPrevoteTimeout_micro[of n env "e\<lparr>prevoteTimer := False\<rparr>"] show ?thesis
      by (intro timer[of "e\<lparr>prevoteTimer := False\<rparr>"]) (auto simp: engineStep_def sameCore_def split: if_splits)
  next
    case PrecommitTimeout
    with assms onPrecommitTimeout_micro[of n env "e\<lparr>precommitTimer := False\<rparr>"] show ?thesis
      by (intro timer[of "e\<lparr>precommitTimer := False\<rparr>"]) (auto simp: engineStep_def sameCore_def split: if_splits)
  next
    case ProposeReady
    with assms onProposeReady_micro[of n env "e\<lparr>proposeReady := False\<rparr>"] show ?thesis
      by (intro timer[of "e\<lparr>proposeReady := False\<rparr>"]) (auto simp: engineStep_def sameCore_def split: if_splits)
  next
    case (TxIn t)
    then show ?thesis using assms by (auto simp: engineStep_def sameCore_def intro!: steps_local)
  qed
qed

lemma resumeCommit_micro:
  assumes "resumeCommit n env e = ok e'"
  shows "steps env e e'"
proof -
  obtain h q where q: "quorumBlock (Precommits (rs e)) (engValidators e) (engStakes e) = (h, q)" by fastforce
  show ?thesis
  proof (cases "q \<and> h \<noteq> 0")
    case False
    then show ?thesis using assms q by (auto simp: resumeCommit_def)
  next
    case qq: True
    then obtain e3 b where c: "commit env h e = Inr (e3, b)" using assms q by (auto simp: resumeCommit_def split: sum.splits)
    show ?thesis
    proof (cases b)
      case False
      then have "restartRound (handleVote n env) env (rejectProposal env e) = ok e'"
        using assms q qq c commit_False by (auto simp: resumeCommit_def)
      moreover have "sameCore e (rejectProposal env e)" by (simp add: sameCore_def)
      ultimately show ?thesis using restartRound_micro[OF handleVote_micro] steps_local_cons by blast
    next
      case True
      let ?e4 = "e3\<lparr>rs := (rs e3)\<lparr>LastAttestation := attestationFromPrecommits (envVotes env) (Precommits (rs e3)) h\<rparr>\<rparr>"
      have "micro env e ?e4" using q qq c True
        by (intro micro.commit[of "engValidators e" "engStakes e"]) (auto simp: valSets_def)
      moreover obtain vals stks where "BondedAmounts (stake (sm ?e4)) = Inr (vals, stks)"
        and e': "e' = startNextRound env vals (?e4\<lparr>engValidators := vals, engStakes := stks\<rparr>)"
        using assms q qq c True by (auto simp: resumeCommit_def Let_def split: sum.splits)
      ultimately show ?thesis unfolding e' using steps_cons micro.refresh startNextRound_micro by meson
    qed
  qed
qed

text \<open>A freshly started engine runs on from the restored round state.\<close>

lemma Start_micro:
  assumes "Start n env db bl = ok e"
  obtains height e0 where "CurrentHeight db = Inr height" "restoredState env db height = Inr (rs e0)" "sm e0 = db" "outbox e0 = []"
    "BondedAmounts (stake db) = Inr (engValidators e0, engStakes e0)" "steps env e0 e"
proof -
  from assms obtain height r vals stks where h: "CurrentHeight db = Inr height" and r: "restoredState env db height = Inr r"
    and b: "BondedAmounts (stake db) = Inr (vals, stks)" by (auto simp: Start_def split: sum.splits)
  define e0 where "e0 = setStatus \<lparr>sm = db, rs = r, proposer = bl, engValidators = vals, engStakes = stks, proposeTimer = True,
    prevoteTimer = False, precommitTimer = False, proposeReady = False, outbox = [], engStatus = \<lparr>StHeight = 0, StRound = 0, StPhase = 0\<rparr>\<rparr>"
  have e0: "sm e0 = db" "rs e0 = r" "outbox e0 = []" "engValidators e0 = vals" "engStakes e0 = stks" by (simp_all add: e0_def)
  consider "sameCore e0 e" | "resumeCommit n env (e0\<lparr>proposeTimer := False\<rparr>) = ok e"
    using assms by (auto simp: Start_def h r b Let_def simp flip: e0_def split: if_splits) (auto simp: sameCore_def)
  then have "steps env e0 e"
  proof cases
    case 2
    then show ?thesis using resumeCommit_micro steps_local_cons[of e0 "e0\<lparr>proposeTimer := False\<rparr>"] by (simp add: sameCore_def)
  qed (rule steps_local)
  then show thesis using h r b e0 by (intro that) simp_all
qed


section \<open>One vote per slot, across restarts\<close>

abbreviation dbSteps :: "EngineEnv \<Rightarrow> StateDB \<Rightarrow> StateDB \<Rightarrow> bool" where
  "dbSteps env \<equiv> (nodeStep (envC env) (envW env) (envB env) (envJ env) (envIter env))\<^sup>*\<^sup>*"

lemma commit_True:
  assumes "commit env h e = Inr (e1, True)"
  obtains p data db res where "RsProposal (rs e) = Some p" "BlockHashForChain (envC env) p (envChain env) = h"
    "SerializeProposal (envC env) p = Inr data"
    "ApplyBlockForChain (envC env) (envW env) (envB env) (envJ env) (envIter env) (sm e) (blockOf (rs e) p data) (envChain env) = Inr (db, res)"
    "e1 = e\<lparr>sm := ClearConsensusState db, proposer := map_option (OnCommit (envC env) (PropTxs p)) (proposer e)\<rparr>"
  using assms by (auto simp: commit_def split: option.splits if_splits sum.splits goerr.splits)

lemma micro_db:
  assumes "micro env e e'"
  shows "dbSteps env (sm e) (sm e')"
  using assms
proof (cases rule: micro.cases)
  case (cast ty h)
  have "sm e' = fst (RecordConsensusVote (sm e) (RsHeight (rs e)) (RsRound (rs e)) ty h)"
    unfolding cast by (simp add: castVote_def Let_def split: prod.splits bool.splits)
  then show ?thesis using nodeStep.vote by (metis prod.collapse r_into_rtranclp)
next
  case persist
  then show ?thesis by (auto simp: persistRoundState_def split: sum.splits intro: nodeStep.save)
next
  case (logged ty h)
  then show ?thesis using nodeStep.vote by (simp, metis prod.collapse r_into_rtranclp)
next
  case (commit vals stks h e1)
  from commit(5) obtain p data db res where
    ap: "ApplyBlockForChain (envC env) (envW env) (envB env) (envJ env) (envIter env) (sm e) (blockOf (rs e) p data) (envChain env) = Inr (db, res)"
    and e1: "e1 = e\<lparr>sm := ClearConsensusState db, proposer := map_option (OnCommit (envC env) (PropTxs p)) (proposer e)\<rparr>"
    by (rule commit_True)
  show ?thesis unfolding commit(1) e1
    using nodeStep.block[OF ap] nodeStep.clear[of "envC env" "envW env" "envB env" "envJ env" "envIter env" db]
    by (simp add: converse_rtranclp_into_rtranclp)
qed (auto simp: sameCore_def)

text \<open>A node over its lifetime: it boots on a database, handles events, and may stop between any two atomic updates and
  boot again on the database as it then is. The second argument collects the messages of the earlier incarnations.\<close>

inductive nodeRun :: "EngineEnv \<Rightarrow> StateDB \<Rightarrow> netMsg list \<Rightarrow> Engine \<Rightarrow> bool" for env db0 where
  boot: "Start n env db0 bl = ok e \<Longrightarrow> nodeRun env db0 [] e"
| event: "nodeRun env db0 past e \<Longrightarrow> engineStep n env ev e = ok e' \<Longrightarrow> nodeRun env db0 past e'"
| restart: "nodeRun env db0 past e \<Longrightarrow> steps env e e1 \<Longrightarrow> Start n env (sm e1) bl = ok e' \<Longrightarrow> nodeRun env db0 (past @ outbox e1) e'"

definition signedVote :: "EngineEnv \<Rightarrow> Vote \<Rightarrow> bool" where
  "signedVote env v \<longleftrightarrow> ValidatorPK v = PublicKey (envKp env) \<and>
     VSig v = Sign (envC env) (envKp env) (VoteSignBytesForChain v (envChain env))"

text \<open>Every vote sent is the engine's own, and is in the vote log.\<close>

definition sentLogged :: "EngineEnv \<Rightarrow> StateDB \<Rightarrow> netMsg list \<Rightarrow> bool" where
  "sentLogged env db msgs \<longleftrightarrow> (\<forall>d. VoteMsg d \<in> set msgs \<longrightarrow> (\<exists>v. d = SerializeVote v \<and> signedVote env v \<and>
     bget (meta db) (consensusVoteKey (VHeight v) (VRound v) (VType v)) = Some (arr32 (VBlockHash v))))"

lemma sentLogged_mono: "sentLogged env db msgs \<Longrightarrow> dbSteps env db db' \<Longrightarrow> sentLogged env db' msgs"
  unfolding sentLogged_def using voteKey_reach by meson

lemma VoteSignBytes_sig [simp]: "VoteSignBytesForChain (v\<lparr>VSig := s\<rparr>) chain = VoteSignBytesForChain v chain"
  by (simp add: VoteSignBytesForChain_def)

lemma castVote_sent:
  assumes "sentLogged env (sm e) (past @ outbox e)"
  shows "sentLogged env (sm (fst (castVote env ty h e))) (past @ outbox (fst (castVote env ty h e)))"
proof -
  let ?k = "consensusVoteKey (RsHeight (rs e)) (RsRound (rs e)) ty"
  have mono: "sentLogged env (sm (fst (castVote env ty h e))) (past @ outbox e)"
    using sentLogged_mono[OF assms]
  proof -
    have "sm (fst (castVote env ty h e)) = fst (RecordConsensusVote (sm e) (RsHeight (rs e)) (RsRound (rs e)) ty h)"
      by (simp add: castVote_def Let_def split: prod.splits bool.splits)
    then show ?thesis using sentLogged_mono[OF assms] nodeStep.vote by (metis prod.collapse r_into_rtranclp)
  qed
  show ?thesis
  proof (cases "bget (meta (sm e)) ?k")
    case None
    let ?v = "\<lparr>VType = ty, VHeight = RsHeight (rs e), VRound = RsRound (rs e), VBlockHash = h, ValidatorPK = PublicKey (envKp env), VSig = 0\<rparr>"
    let ?w = "?v\<lparr>VSig := Sign (envC env) (envKp env) (VoteSignBytesForChain ?v (envChain env))\<rparr>"
    have out: "outbox (fst (castVote env ty h e)) = outbox e @ [VoteMsg (SerializeVote ?w)]"
      and db: "meta (sm (fst (castVote env ty h e))) = bput (meta (sm e)) ?k (arr32 h)"
      by (simp_all add: castVote_def RecordConsensusVote_def Let_def None)
    have "signedVote env ?w" by (simp add: signedVote_def VoteSignBytesForChain_def)
    then show ?thesis using mono by (auto simp: sentLogged_def out db bget_bput intro!: exI[of _ ?w])
  next
    case (Some x)
    then have "outbox (fst (castVote env ty h e)) = outbox e" by (simp add: castVote_def RecordConsensusVote_def Let_def)
    then show ?thesis using mono by simp
  qed
qed

lemma micro_sent:
  assumes "micro env e e'" "sentLogged env (sm e) (past @ outbox e)"
  shows "sentLogged env (sm e') (past @ outbox e')"
proof (cases "outbox e' = outbox e")
  case True
  then show ?thesis using sentLogged_mono[OF assms(2) micro_db[OF assms(1)]] by simp
next
  case False
  with assms(1) consider ty h where "e' = fst (castVote env ty h e)" | d where "e' = BroadcastBlockHeader d e"
    by (cases rule: micro.cases) (auto simp: sameCore_def elim: commit_True)
  then show ?thesis
  proof cases
    case 1
    then show ?thesis using castVote_sent[OF assms(2)] by simp
  next
    case 2
    then show ?thesis using assms(2) by (auto simp: sentLogged_def BroadcastBlockHeader_def)
  qed
qed

lemma steps_sent: "steps env e e' \<Longrightarrow> sentLogged env (sm e) (past @ outbox e) \<Longrightarrow> sentLogged env (sm e') (past @ outbox e')"
  by (induction rule: rtranclp_induct) (auto intro: micro_sent)

lemma nodeRun_sent: "nodeRun env db0 past e \<Longrightarrow> sentLogged env (sm e) (past @ outbox e)"
proof (induction rule: nodeRun.induct)
  case (boot n bl e)
  from boot obtain e0 where e0: "sm e0 = db0" "outbox e0 = []" "steps env e0 e" by (rule Start_micro)
  then show ?case using steps_sent[OF e0(3), of "[]"] by (simp add: sentLogged_def)
next
  case (event past e n ev e')
  then show ?case using engineStep_micro steps_sent by blast
next
  case (restart past e e1 n bl e')
  from restart(3) obtain e0 where e0: "sm e0 = sm e1" "outbox e0 = []" "steps env e0 e'" by (rule Start_micro)
  have "sentLogged env (sm e1) (past @ outbox e1)" using steps_sent restart.IH restart.hyps(2) by blast
  then have "sentLogged env (sm e0) ((past @ outbox e1) @ outbox e0)" by (simp add: e0)
  then show ?case using steps_sent[OF e0(3)] by blast
qed

lemma SerializeVote_inject [simp]: "SerializeVote v = SerializeVote w \<longleftrightarrow> v = w"
  by (metis DeserializeVote_Serialize Inr_inject)

end
