(* ===== verification/FRG_EngineStore.thy ===== *)
theory FRG_EngineStore
  imports FRG_EngineRuns
begin

text \<open>Certificates of precommits, and the stored round state: what is written when a round state is saved and what a restart
  reads back.\<close>

section \<open>Certificates\<close>

text \<open>The stake behind a block hash among the recorded votes.\<close>

definition backers :: "bytes32 list \<Rightarrow> votes \<Rightarrow> bytes32 \<Rightarrow> bytes32 set" where
  "backers vals vm h = {pk \<in> set vals. \<exists>v. (pk, v) \<in> set vm \<and> VBlockHash v = h}"

lemma tally_get:
  "(case bget (fold (tallyVote smap) vs tally) h of None \<Rightarrow> 0 | Some s \<Rightarrow> s) =
   (case bget tally h of None \<Rightarrow> 0 | Some s \<Rightarrow> s) + sum_list (map (\<lambda>v. case smap (ValidatorPK v) of None \<Rightarrow> 0 | Some s \<Rightarrow> s) (filter (\<lambda>v. VBlockHash v = h) vs))"
  by (induction vs arbitrary: tally) (auto simp: tallyVote_def bget_bput split: option.split)

lemma tally_ok: "bucket_ok tally \<Longrightarrow> bucket_ok (fold (tallyVote smap) vs tally)"
  by (induction vs arbitrary: tally) (auto simp: tallyVote_def bucket_ok_bput split: option.split)

definition votesKeyed :: "votes \<Rightarrow> bool" where
  "votesKeyed vm \<longleftrightarrow> bucket_ok vm \<and> (\<forall>(pk, v)\<in>set vm. ValidatorPK v = pk)"

lemma backing_stake:
  assumes "validators_ok vals stks" "votesKeyed vm"
  shows "sum_list (map (\<lambda>v. stakeOf vals stks (ValidatorPK v)) (filter (\<lambda>v. VBlockHash v = h) (map snd vm))) =
    sum (stakeOf vals stks) (backers vals vm h)"
proof -
  let ?l = "filter (\<lambda>x. VBlockHash (snd x) = h) vm"
  have "map (\<lambda>v. stakeOf vals stks (ValidatorPK v)) (filter (\<lambda>v. VBlockHash v = h) (map snd vm)) = map (stakeOf vals stks) (map fst ?l)"
    using assms(2) by (auto simp: filter_map comp_def votesKeyed_def)
  moreover have "distinct (map fst ?l)" using assms(2) by (simp add: votesKeyed_def distinct_map_filter bucket_ok_distinct)
  moreover have "set (map fst ?l) \<inter> set vals = backers vals vm h" by (force simp: backers_def)
  ultimately show ?thesis using voted_stake[OF assms(1), of "map fst ?l"] by (simp only:)
qed

lemma quorumBlock_True:
  assumes "validators_ok vals stks" "votesKeyed vm" "quorumBlock vm vals stks = (h, True)"
  shows "byStake.quorum vals stks (backers vals vm h)"
proof -
  let ?t = "fold (tallyVote (stakeMap vals stks)) (map snd vm) []"
  from assms(3) obtain s where "find (\<lambda>(_, s). s * 3 > sum_list stks * 2) ?t = Some (h, s)"
    by (auto simp: quorumBlock_def Let_def split: option.splits)
  then have mem: "(h, s) \<in> set ?t" and s: "s * 3 > sum_list stks * 2" by (auto simp: find_Some_iff set_conv_nth)
  have "bucket_ok ?t" by (rule tally_ok) (simp add: bucket_ok_def)
  then have "bget ?t h = Some s" using mem by (simp add: bucket_ok_mem_iff)
  then have "s = sum (stakeOf vals stks) (backers vals vm h)"
    using tally_get[where h = h and smap = "stakeMap vals stks" and vs = "map snd vm" and tally = "[]"] backing_stake[OF assms(1,2), of h]
    by (simp add: stakeOf_def)
  moreover have "backers vals vm h \<subseteq> set vals" by (auto simp: backers_def)
  ultimately show ?thesis
    using s unfolding byStake.quorum_def int_stakes[OF assms(1), symmetric] stakeOf_total[OF assms(1), symmetric]
    by (simp del: int_sum of_nat_sum)
qed

text \<open>A quorum of verified precommits for one block at one height and round.\<close>

definition certificate :: "EngineEnv \<Rightarrow> bytes32 list \<Rightarrow> int list \<Rightarrow> u64 \<Rightarrow> u32 \<Rightarrow> bytes32 \<Rightarrow> Vote set \<Rightarrow> bool" where
  "certificate env vals stks height r h vs \<longleftrightarrow>
     (\<forall>v\<in>vs. VType v = VotePrecommit \<and> VHeight v = height \<and> VRound v = r \<and> VBlockHash v = h \<and> VerifyVoteForChain (envC env) v (envChain env))
     \<and> byStake.quorum vals stks (ValidatorPK ` vs)"

text \<open>The invariant of the recorded votes: keyed by their signer, verified, and all of the current height and round.\<close>

definition votesOf :: "EngineEnv \<Rightarrow> RoundState \<Rightarrow> u8 \<Rightarrow> votes \<Rightarrow> bool" where
  "votesOf env r ty vm \<longleftrightarrow> bucket_ok vm \<and> (\<forall>(pk, v)\<in>set vm. ValidatorPK v = pk \<and> VType v = ty \<and> VHeight v = RsHeight r \<and>
     VRound v = RsRound r \<and> VerifyVoteForChain (envC env) v (envChain env))"

definition rs_ok :: "EngineEnv \<Rightarrow> RoundState \<Rightarrow> bool" where
  "rs_ok env r \<longleftrightarrow> votesOf env r VotePrevote (Prevotes r) \<and> votesOf env r VotePrecommit (Precommits r)"

lemma votesOf_keyed: "votesOf env r ty vm \<Longrightarrow> votesKeyed vm"
  by (auto simp: votesOf_def votesKeyed_def)

lemma set_bput_fresh: "bucket_ok b \<Longrightarrow> bget b k = None \<Longrightarrow> set (bput b k v) = insert (k, v) (set b)"
  using bucket_ok_bput[of b k v] by (auto simp: bucket_ok_mem_iff bget_bput split: if_splits)

lemma votesOf_Nil [simp]: "votesOf env r ty []"
  by (simp add: votesOf_def bucket_ok_def)

lemma votesOf_bput:
  assumes "votesOf env r ty vm" "bget vm (ValidatorPK v) = None" "VType v = ty" "VHeight v = RsHeight r" "VRound v = RsRound r"
    "VerifyVoteForChain (envC env) v (envChain env)"
  shows "votesOf env r ty (bput vm (ValidatorPK v) v)"
  using assms by (auto simp: votesOf_def set_bput_fresh bucket_ok_bput)

lemma votesOf_cong: "RsHeight r = RsHeight r' \<Longrightarrow> RsRound r = RsRound r' \<Longrightarrow> votesOf env r ty vm = votesOf env r' ty vm"
  by (simp add: votesOf_def)

lemma precommit_certificate:
  assumes "votesOf env r VotePrecommit vm" "validators_ok vals stks" "quorumBlock vm vals stks = (h, True)"
  shows "certificate env vals stks (RsHeight r) (RsRound r) h {v \<in> snd ` set vm. VBlockHash v = h \<and> ValidatorPK v \<in> set vals}"
proof -
  let ?vs = "{v \<in> snd ` set vm. VBlockHash v = h \<and> ValidatorPK v \<in> set vals}"
  have "backers vals vm h = ValidatorPK ` ?vs" using assms(1) by (force simp: backers_def votesOf_def)
  then have "byStake.quorum vals stks (ValidatorPK ` ?vs)"
    using quorumBlock_True[OF assms(2) votesOf_keyed[OF assms(1)] assms(3)] by simp
  then show ?thesis using assms(1) by (auto simp: certificate_def votesOf_def)
qed

text \<open>Two certificates for different blocks of one round convict a third of the stake.\<close>

definition convicts :: "EngineEnv \<Rightarrow> Vote \<Rightarrow> Vote \<Rightarrow> bool" where
  "convicts env v w \<longleftrightarrow> (\<forall>t. noMissFields t \<and> WasmBytes t = [] \<and> InitArgs t = [] \<and> CallData t = [] \<and>
     EvidenceA t = SerializeVote v \<and> EvidenceB t = SerializeVote w \<longrightarrow>
     validateEquivocationEvidenceTx (envC env) t (envChain env) = Inr (ValidatorPK v))"

lemma conflicting_certificates:
  assumes "certificate env vals stks height r h vs" "certificate env vals stks height r h' ws" "h \<noteq> h'" "h \<noteq> 0" "h' \<noteq> 0"
  obtains S where "S \<subseteq> set vals" "3 * (\<Sum>pk\<in>S. nat (stakeOf vals stks pk)) > (\<Sum>pk\<in>set vals. nat (stakeOf vals stks pk))"
    "\<forall>pk\<in>S. \<exists>v\<in>vs. \<exists>w\<in>ws. ValidatorPK v = pk \<and> ValidatorPK w = pk \<and> convicts env v w"
proof -
  let ?S = "ValidatorPK ` vs \<inter> ValidatorPK ` ws"
  have q: "byStake.quorum vals stks (ValidatorPK ` vs)" "byStake.quorum vals stks (ValidatorPK ` ws)"
    using assms(1,2) by (simp_all add: certificate_def)
  have "convicts env v w" if "v \<in> vs" "w \<in> ws" "ValidatorPK v = ValidatorPK w" for v w
    using assms that unfolding certificate_def convicts_def
    by (auto simp: validateEquivocationEvidenceTx_def evidence_deserialize evidence_verify rguard_def)
       (auto simp: evidenceOf_def)
  moreover have "?S \<subseteq> set vals" using q by (auto simp: byStake.quorum_def)
  ultimately show thesis using that[of ?S] byStake.quorum_intersect[OF q] by force
qed


section \<open>The stored round state\<close>

lemma read_simps [simp]:
  "readU64 msg (PutUint64 x @ s) = Inr (x, s)" "readU32 msg (PutUint32 y @ s) = Inr (y, s)" "ReadByte msg (b # s) = Inr (b, s)"
  by (simp_all add: readU64_def readU32_def ReadByte_def rguard_def codec_simps)

lemma goRead_exact: "length x = n \<Longrightarrow> x @ s \<noteq> [] \<Longrightarrow> goRead msg n (x @ s) = Inr (x, s)"
  by (auto simp: goRead_def)

lemma goRead_vote [simp]: "goRead msg 141 (SerializeVote v @ s) = Inr (SerializeVote v, s)"
proof -
  have "SerializeVote v \<noteq> []" using length_SerializeVote[of v] by fastforce
  then show ?thesis by (intro goRead_exact) simp_all
qed

lemma goRead_arr32 [simp]: "goRead msg 32 (arr32 h @ s) = Inr (arr32 h, s)"
proof -
  have "length (arr32 h) = 32" by (simp add: codec_simps)
  then have "arr32 h \<noteq> []" by fastforce
  then show ?thesis by (intro goRead_exact) (simp_all add: codec_simps)
qed

lemma readSnapshotVotes_concat:
  assumes "\<forall>v\<in>set vs. VerifyVoteForChain C v chain"
  shows "readSnapshotVotes C chain (length vs) (concat (map SerializeVote vs) @ rest) vm = Inr (fold (\<lambda>v b. bput b (ValidatorPK v) v) vs vm, rest)"
  using assms by (induction vs arbitrary: vm) (simp_all add: readSnapshotVotes.simps rguard_def)

lemma readAttestationVotes_concat:
  assumes "\<forall>v\<in>set vs. VerifyVoteForChain C v chain \<and> VType v = VotePrecommit \<and> VHeight v = h \<and> VRound v = r \<and> VBlockHash v = bh"
  shows "readAttestationVotes C chain h r bh (length vs) (concat (map SerializeVote vs) @ rest) = Inr (vs, rest)"
  using assms
proof (induction vs)
  case Nil
  then show ?case by (subst readAttestationVotes.simps) simp
next
  case (Cons v vs)
  have "readAttestationVotes C chain h r bh (length vs) (concat (map SerializeVote vs) @ rest) = Inr (vs, rest)"
    using Cons.prems by (intro Cons.IH) simp
  moreover have "VerifyVoteForChain C v chain" "VType v = VotePrecommit" "VHeight v = h" "VRound v = r" "VBlockHash v = bh"
    using Cons.prems by simp_all
  ultimately show ?case by (subst readAttestationVotes.simps) (simp add: rguard_def)
qed

lemma fold_bput_get:
  "distinct (map ValidatorPK vs) \<Longrightarrow> bget (fold (\<lambda>v b. bput b (ValidatorPK v) v) vs vm) k =
    (case find (\<lambda>v. ValidatorPK v = k) vs of Some v \<Rightarrow> Some v | None \<Rightarrow> bget vm k)"
proof (induction vs arbitrary: vm)
  case (Cons v vs)
  from Cons.prems have "ValidatorPK v \<notin> ValidatorPK ` set vs" and dist: "distinct (map ValidatorPK vs)" by simp_all
  then have "find (\<lambda>w. ValidatorPK w = ValidatorPK v) vs = None" unfolding find_None_iff by (auto simp: image_iff)
  then show ?case by (auto simp: Cons.IH[OF dist] bget_bput split: option.split)
qed simp

lemma fold_bput_ok: "bucket_ok vm \<Longrightarrow> bucket_ok (fold (\<lambda>v b. bput b (ValidatorPK v) v) vs vm)"
  by (induction vs arbitrary: vm) (simp_all add: bucket_ok_bput)

lemma bucket_eqI:
  assumes "bucket_ok a" "bucket_ok b" "\<And>k. bget a k = bget b k"
  shows "a = b"
proof -
  have "set a = set b" using assms by (auto simp: bucket_ok_mem_iff)
  then have "map fst a = map fst b"
    using assms(1,2) by (intro sorted_distinct_set_unique) (auto simp: bucket_ok_def strict_sorted_iff)
  moreover have "map snd a = map snd b"
    using calculation assms by (intro nth_equalityI) (metis length_map, metis bucket_ok_mem_iff length_map nth_map nth_mem option.inject prod.collapse)
  ultimately show ?thesis by (metis zip_map_fst_snd)
qed

text \<open>A map of votes is rebuilt from any listing of its entries.\<close>

lemma votes_rebuilt:
  assumes "votesKeyed vm" "mset vs = mset (map snd vm)"
  shows "fold (\<lambda>v b. bput b (ValidatorPK v) v) vs [] = vm"
proof (rule bucket_eqI)
  have keys: "map (\<lambda>x. ValidatorPK (snd x)) vm = map fst vm" using assms(1) by (auto simp: votesKeyed_def)
  have "mset (map ValidatorPK vs) = mset (map ValidatorPK (map snd vm))" using assms(2) by (metis mset_map)
  then have "mset (map ValidatorPK vs) = mset (map fst vm)" using keys by (simp add: comp_def)
  then have dist: "distinct (map ValidatorPK vs)"
    using assms(1) bucket_ok_distinct mset_eq_imp_distinct_iff by (metis votesKeyed_def)
  have mem: "v \<in> set vs \<longleftrightarrow> (ValidatorPK v, v) \<in> set vm" for v
  proof -
    have "v \<in> set vs \<longleftrightarrow> v \<in> snd ` set vm" using assms(2) by (metis set_map set_mset_mset)
    then show ?thesis using assms(1) by (force simp: votesKeyed_def)
  qed
  show "bucket_ok vm" using assms(1) by (simp add: votesKeyed_def)
  show "bucket_ok (fold (\<lambda>v b. bput b (ValidatorPK v) v) vs [])" by (rule fold_bput_ok) (simp add: bucket_ok_def)
  show "bget (fold (\<lambda>v b. bput b (ValidatorPK v) v) vs []) k = bget vm k" for k
  proof (cases "find (\<lambda>v. ValidatorPK v = k) vs")
    case None
    have "bget vm k = None"
    proof (rule ccontr)
      assume "bget vm k \<noteq> None"
      then obtain v where v: "(k, v) \<in> set vm" using \<open>bucket_ok vm\<close> by (auto simp: bucket_ok_mem_iff)
      then have "ValidatorPK v = k" using assms(1) by (auto simp: votesKeyed_def)
      then show False using v mem[of v] None by (auto simp: find_None_iff)
    qed
    then show ?thesis using None by (simp add: fold_bput_get[OF dist])
  next
    case (Some v)
    then have "v \<in> set vs" "ValidatorPK v = k" by (auto simp: find_Some_iff)
    then show ?thesis using Some mem[of v] \<open>bucket_ok vm\<close> by (simp add: fold_bput_get[OF dist] bucket_ok_mem_iff)
  qed
qed

lemma readVoteMap_encode:
  assumes "encodeVotes ord vm = Inr d" "votesKeyed vm" "\<forall>x\<in>set vm. VerifyVoteForChain C (snd x) chain" "\<And>vs. mset (ord vs) = mset vs"
  shows "readVoteMap C chain (d @ rest) = Inr (vm, rest)"
proof -
  let ?vs = "ord (map snd vm)"
  have d: "d = PutUint32 (of_nat (length vm)) @ concat (map SerializeVote ?vs)" and n: "length vm \<le> maxPersistedVotes"
    using assms(1) by (auto simp: encodeVotes_def rguard_Inr_iff)
  have len: "length ?vs = length vm" using assms(4)[of "map snd vm"] by (metis length_map mset_eq_length)
  have ver: "\<forall>v\<in>set ?vs. VerifyVoteForChain C v chain"
    using assms(3) assms(4)[of "map snd vm"] by (metis imageE mset_eq_setD set_map)
  have u: "unat (of_nat (length vm) :: u32) = length vm" using n by (intro unat_of_nat_u32) simp
  have "readSnapshotVotes C chain (length vm) (concat (map SerializeVote ?vs) @ rest) [] = Inr (vm, rest)"
    using readSnapshotVotes_concat[OF ver, of rest "[]"] votes_rebuilt[OF assms(2) assms(4)] by (simp add: len)
  then show ?thesis using n by (simp add: readVoteMap_def d u rguard_def length_votes len)
qed

definition attestation_ok :: "crypto \<Rightarrow> bytes \<Rightarrow> AttestationSet \<Rightarrow> bool" where
  "attestation_ok C chain a \<longleftrightarrow> (\<forall>v\<in>set (AttVotes a). VerifyVoteForChain C v chain \<and> VType v = VotePrecommit \<and>
     VHeight v = AttHeight a \<and> VRound v = AttRound a \<and> VBlockHash v = AttBlockHash a)"

text \<open>An attestation without votes is stored as nothing.\<close>

definition storedAttestation :: "AttestationSet \<Rightarrow> AttestationSet" where
  "storedAttestation a = (if AttVotes a = [] then emptyAttestation else a)"

lemma deserializeAttestation_serialize:
  assumes "serializeAttestation a = Inr d" "attestation_ok C chain a"
  shows "deserializeAttestation C d chain = Inr (storedAttestation a)"
proof (cases "AttVotes a = []")
  case True
  then show ?thesis using assms by (simp add: serializeAttestation_def deserializeAttestation_def storedAttestation_def)
next
  case False
  let ?vs = "AttVotes a"
  have d: "d = PutUint64 (AttHeight a) @ PutUint32 (AttRound a) @ arr32 (AttBlockHash a) @ PutUint32 (of_nat (length ?vs)) @ concat (map SerializeVote ?vs)"
    and n: "length ?vs \<le> maxPersistedVotes"
    using assms(1) False by (auto simp: serializeAttestation_def rguard_Inr_iff)
  have u: "unat (of_nat (length ?vs) :: u32) = length ?vs" using n by (intro unat_of_nat_u32) simp
  have "PutUint64 (AttHeight a) \<noteq> []" using U64.enc_length[of "AttHeight a"] by fastforce
  moreover have "readAttestationVotes C chain (AttHeight a) (AttRound a) (AttBlockHash a) (length ?vs) (concat (map SerializeVote ?vs)) = Inr (?vs, [])"
    using readAttestationVotes_concat[of ?vs C chain _ _ _ "[]"] assms(2) False by (simp add: attestation_ok_def)
  moreover have "to32 (arr32 x) = x" for x by (simp add: A32.dec_enc_exact)
  ultimately show ?thesis using n unfolding deserializeAttestation_def by (simp add: d u length_votes rguard_def storedAttestation_def False)
qed


lemma SerializeProposal_length:
  assumes "SerializeProposal C p = Inr d"
  shows "128 \<le> length d" "length d \<le> 192 + 141 * maxProposalVotes + maxBatchBytes"
proof -
  from assms obtain body where b: "serializeProposalBody C p = Inr body" and d: "d = arr64 (ProposerSig p) @ body"
    by (auto simp: SerializeProposal_def res_simps)
  obtain batch where batch: "if PropTxs p = [] then batch = [] else SerializeBatch C (PropTxs p) = Inr batch"
    and lim: "length (AttVotes (PrevAttestations p)) \<le> maxProposalVotes"
    and body: "length body = 128 + 141 * length (AttVotes (PrevAttestations p)) + length batch"
  proof (rule serializeProposalBody_Inr[OF b], goal_cases)
    case (1 batch)
    then show ?case using that[of batch] by (simp add: codec_simps length_votes)
  qed
  have "length batch \<le> maxBatchBytes" using batch SerializeBatch_Inr by (metis le0 list.size(3))
  then show "128 \<le> length d" "length d \<le> 192 + 141 * maxProposalVotes + maxBatchBytes"
    using lim by (simp_all add: d body codec_simps)
qed

lemma u32_small: "n < 2 ^ 32 \<Longrightarrow> m < 2 ^ 32 \<Longrightarrow> n \<le> m \<Longrightarrow> \<not> (of_nat m :: u32) < of_nat n"
  by (simp add: word_less_nat_alt unat_of_nat_u32)

lemma encodeVotes_length: "encodeVotes ord vm = Inr d \<Longrightarrow> (\<And>vs. length (ord vs) = length vs) \<Longrightarrow> length d \<le> 4 + 141 * maxPersistedVotes"
  by (auto simp: encodeVotes_def rguard_Inr_iff codec_simps length_votes)

lemma serializeAttestation_length: "serializeAttestation a = Inr d \<Longrightarrow> length d \<le> 48 + 141 * maxPersistedVotes"
  by (auto simp: serializeAttestation_def rguard_Inr_iff codec_simps length_votes split: if_splits)

lemma readLastAttestation_encode:
  assumes "serializeAttestation a = Inr d" "attestation_ok C chain a"
  shows "readLastAttestation C chain (PutUint32 (of_nat (length d)) @ d) = Inr (storedAttestation a, [])"
proof -
  have len: "length d < 2 ^ 32" using serializeAttestation_length[OF assms(1)] by simp
  have u: "unat (of_nat (length d) :: u32) = length d" using len by (intro unat_of_nat_u32) simp
  have z: "(of_nat (length d) :: u32) = 0 \<longleftrightarrow> d = []" 
  proof
    assume "(of_nat (length d) :: u32) = 0"
    then show "d = []" using u by simp
  qed simp
  have ne: "PutUint32 x \<noteq> []" for x using U32.enc_length[of x] by fastforce
  have "d \<noteq> [] \<Longrightarrow> goRead ''snapshot attestation'' (length d) d = Inr (d, [])"
    using goRead_exact[of d "length d" "[]"] by simp
  then show ?thesis
    using deserializeAttestation_serialize[OF assms] ne
    by (cases "d = []") (use read_simps(2)[of _ 0 "[]"] in \<open>simp_all add: readLastAttestation_def rguard_def u z\<close>)
qed

text \<open>What the stored form of a round state reads back as: the same state, up to its proposal.\<close>

definition restorable :: "crypto \<Rightarrow> bytes \<Rightarrow> RoundState \<Rightarrow> bool" where
  "restorable C chain r \<longleftrightarrow> votesKeyed (Prevotes r) \<and> (\<forall>x\<in>set (Prevotes r). VerifyVoteForChain C (snd x) chain) \<and>
     votesKeyed (Precommits r) \<and> (\<forall>x\<in>set (Precommits r). VerifyVoteForChain C (snd x) chain) \<and>
     attestation_ok C chain (LastAttestation r)"

lemma decode_encode:
  assumes enc: "encodeRoundState C ord r = Inr d" and r: "restorable C chain r" and ord: "\<And>vs. mset (ord vs) = mset vs"
  obtains proposal where "serializeOptionalProposal C (RsProposal r) = Inr proposal"
    "decodeRoundState C d chain = rguard (RsPhase r < PhasePropose \<or> RsPhase r > PhaseCommit) (GoError ''snapshot phase'')
       (rbind (deserializeOptionalProposal C proposal chain) (\<lambda>p.
       Inr (r\<lparr>RsProposal := p, LockedRound := (if LockedBlock r = None then - 1 else LockedRound r),
              LastAttestation := storedAttestation (LastAttestation r)\<rparr>)))"
proof -
  from enc obtain proposal pv pc att where p: "serializeOptionalProposal C (RsProposal r) = Inr proposal"
    and pv: "encodeVotes ord (Prevotes r) = Inr pv" and pc: "encodeVotes ord (Precommits r) = Inr pc"
    and att: "serializeAttestation (LastAttestation r) = Inr att"
    and d: "d = PutUint64 (RsHeight r) @ PutUint32 (RsRound r) @ [RsPhase r]
       @ (case LockedBlock r of Some h \<Rightarrow> 1 # arr32 h | None \<Rightarrow> [0]) @ PutUint32 (LockedRound r)
       @ PutUint32 (of_nat (length proposal)) @ proposal @ pv @ pc @ PutUint32 (of_nat (length att)) @ att"
    by (auto simp: encodeRoundState_def rbind_Inr_iff)
  let ?rest = "proposal @ pv @ pc @ PutUint32 (of_nat (length att)) @ att"
  have ordlen: "length (ord vs) = length vs" for vs using ord by (metis mset_eq_length)
  have pl: "length proposal \<le> 192 + 141 * maxProposalVotes + maxBatchBytes"
    using p SerializeProposal_length(2)[of C] by (auto simp: serializeOptionalProposal_def split: option.splits)
  have small: "length ?rest < 2 ^ 32"
    using pl encodeVotes_length[OF pv ordlen] encodeVotes_length[OF pc ordlen] serializeAttestation_length[OF att] by (simp add: codec_simps)
  have u: "unat (of_nat (length proposal) :: u32) = length proposal" using pl by (intro unat_of_nat_u32) simp
  have guard: "\<not> (of_nat (length ?rest) :: u32) < of_nat (length proposal)" using small pl by (intro u32_small) simp_all
  have ne: "PutUint32 x \<noteq> []" for x using U32.enc_length[of x] by fastforce
  have rd: "goRead ''snapshot proposal'' (length proposal) ?rest = Inr (proposal, pv @ pc @ PutUint32 (of_nat (length att)) @ att)"
    using goRead_exact[of proposal "length proposal"] ne by simp
  have tail: "readVoteMap C chain (pv @ pc @ PutUint32 (of_nat (length att)) @ att) = Inr (Prevotes r, pc @ PutUint32 (of_nat (length att)) @ att)"
    "readVoteMap C chain (pc @ PutUint32 (of_nat (length att)) @ att) = Inr (Precommits r, PutUint32 (of_nat (length att)) @ att)"
    "readLastAttestation C chain (PutUint32 (of_nat (length att)) @ att) = Inr (storedAttestation (LastAttestation r), [])"
    using readVoteMap_encode[OF pv _ _ ord] readVoteMap_encode[OF pc _ _ ord] readLastAttestation_encode[OF att] r
    by (simp_all add: restorable_def)
  have "decodeRoundState C d chain = rguard (RsPhase r < PhasePropose \<or> RsPhase r > PhaseCommit) (GoError ''snapshot phase'')
       (rbind (deserializeOptionalProposal C proposal chain) (\<lambda>p.
       Inr (r\<lparr>RsProposal := p, LockedRound := (if LockedBlock r = None then - 1 else LockedRound r),
              LastAttestation := storedAttestation (LastAttestation r)\<rparr>)))"
    using guard
    by (cases "LockedBlock r"; cases "deserializeOptionalProposal C proposal chain")
      (simp_all add: decodeRoundState_def d u rd tail rguard_def NewRoundState_def A32.dec_enc_exact)
  then show thesis using p by (intro that)
qed


lemma verified_all: "\<forall>t\<in>set ts. VerifySigsForChain C chain t = Inr () \<Longrightarrow> rfold (\<lambda>t _. VerifySigsForChain C chain t) ts () = Inr ()"
  by (induction ts) simp_all

lemma deserialize_proposal:
  assumes "nfc_documented C" "serializeOptionalProposal C q = Inr d"
    and "\<forall>p. q = Some p \<longrightarrow> VerifyProposalForChain C p chain \<and> (\<forall>t\<in>set (PropTxs p). canonicalTx C t = t \<and> VerifySigsForChain C chain t = Inr ())"
  shows "deserializeOptionalProposal C d chain =
    (if \<exists>p. q = Some p \<and> length (PropTxs p) = maxProposalTxs then Inl canonErr else Inr q)"
proof (cases q)
  case None
  then show ?thesis using assms(2) by (simp add: serializeOptionalProposal_def deserializeOptionalProposal_def)
next
  case (Some p)
  then have s: "SerializeProposal C p = Inr d" using assms(2) by (simp add: serializeOptionalProposal_def)
  have "d \<noteq> []" using SerializeProposal_length(1)[OF s] by auto
  have len: "length (PropTxs p) \<le> maxProposalTxs"
  proof -
    from s obtain body where "serializeProposalBody C p = Inr body" by (auto simp: SerializeProposal_def rbind_Inr_iff)
    then show ?thesis by (rule serializeProposalBody_Inr)
  qed
  have "map (canonicalTx C) (PropTxs p) = PropTxs p" using assms(3) Some by (intro map_idI) simp
  then have "DeserializeProposal C d = (if length (PropTxs p) < maxProposalTxs then Inr p else Inl canonErr)"
    using proposal_roundtrip[OF assms(1) s] by simp
  then show ?thesis using assms(3) Some len \<open>d \<noteq> []\<close> verified_all[of "PropTxs p"]
    by (auto simp: deserializeOptionalProposal_def VerifyProposalForChain_def rguard_def)
qed

end
