(* ===== verification/FRG_EngineLaws.thy ===== *)
theory FRG_EngineLaws
  imports FRG_EngineStore
begin

text \<open>Laws of the consensus engine: every block of a node's chain is certified, a fork has culprits, which timer is armed in
  which phase, and what stops an engine.\<close>

section \<open>Every block of the chain is certified\<close>

lemma bondedEntries_keys:
  "bondedEntries b = Inr es \<Longrightarrow> bucket_ok b \<Longrightarrow> bucket_ok es \<and> fst ` set es \<subseteq> fst ` set b"
proof (induction b arbitrary: es rule: bondedEntries.induct)
  case (2 k v b)
  from 2(2) obtain rec out where "decodeRecord v = Inr rec" and out: "bondedEntries b = Inr out"
    and es: "es = (if State rec = stateBonded then (k, BondedAmount rec) # out else out)"
    by (auto simp: rbind_Inr_iff)
  moreover have "bucket_ok b" "\<forall>x\<in>fst ` set b. k < x" using 2(3) by (simp_all add: bucket_ok_def)
  ultimately have "bucket_ok out" "fst ` set out \<subseteq> fst ` set b" "\<forall>x\<in>fst ` set out. k < x" using 2(1) by blast+
  then show ?case by (auto simp: es bucket_ok_def)
qed (simp add: bucket_ok_def)

lemma bonded_validators_ok:
  assumes "stake_ok s" "BondedAmounts s = Inr (vals, stks)"
  shows "validators_ok vals stks"
proof -
  obtain es where es: "bondedEntries (validatorsBucket s) = Inr es" and v: "vals = map fst es" "stks = map snd es"
    using assms(2) by (auto simp: BondedAmounts_def rbind_Inr_iff)
  have "distinct vals" unfolding v
    using bondedEntries_keys[OF es] assms(1) bucket_ok_distinct by (auto simp: stake_ok_def)
  moreover have "0 \<le> x" if "x \<in> set stks" for x
  proof -
    from that v(2) obtain k where "(k, x) \<in> set es" by auto
    then obtain r where "recAt s k = Some r" "x = BondedAmount r" using bondedEntries_set[OF assms(1) es] by auto
    then show ?thesis using recAt_ok[OF assms(1)] by (auto simp: record_ok_def)
  qed
  ultimately show ?thesis by (simp add: validators_ok_def v)
qed

text \<open>Two databases with the same chain differ at most in the vote log and the stored round state.\<close>

definition sameChain :: "StateDB \<Rightarrow> StateDB \<Rightarrow> bool" where
  "sameChain db db' \<longleftrightarrow> stake db' = stake db \<and> contracts db' = contracts db \<and> blocks db' = blocks db \<and>
     block_telemetry db' = block_telemetry db \<and>
     (\<forall>k. k \<noteq> consensusStateKey \<and> (\<forall>h r t. k \<noteq> consensusVoteKey h r t) \<longrightarrow> bget (meta db') k = bget (meta db) k)"

text \<open>The database of a node whose every block is the content of a proposal that a quorum of the validators bonded at an
  earlier point of this chain has precommitted to.\<close>

inductive certifiedChain :: "EngineEnv \<Rightarrow> StateDB \<Rightarrow> StateDB \<Rightarrow> bool" for env db0 where
  genesis: "certifiedChain env db0 db0"
| quiet: "certifiedChain env db0 db \<Longrightarrow> sameChain db db' \<Longrightarrow> certifiedChain env db0 db'"
| block: "\<lbrakk>certifiedChain env db0 db; certifiedChain env db0 dbv; BondedAmounts (stake dbv) = Inr (vals, stks);
    certificate env vals stks (Height b) r (BlockHashForChain (envC env) p (envChain env)) vs;
    Txs b = PropTxs p; ProposerPubKey b = ProposerPK p; PrevStateRoot b = PropPrevStateRoot p;
    SerializeProposal (envC env) p = Inr (ProposalBytes b);
    ApplyBlockForChain (envC env) (envW env) (envB env) (envJ env) (envIter env) db b (envChain env) = Inr (db', res)\<rbrakk>
    \<Longrightarrow> certifiedChain env db0 db'"

lemma certifiedChain_stake_ok: "certifiedChain env db0 db \<Longrightarrow> stake_ok (stake db0) \<Longrightarrow> stake_ok (stake db)"
  by (induction rule: certifiedChain.induct) (auto simp: sameChain_def dest: block_effect(1))

definition rsInv :: "EngineEnv \<Rightarrow> RoundState \<Rightarrow> bool" where
  "rsInv env r \<longleftrightarrow> rs_ok env r \<and> attestation_ok (envC env) (envChain env) (LastAttestation r)"

definition storedInv :: "EngineEnv \<Rightarrow> StateDB \<Rightarrow> bool" where
  "storedInv env db \<longleftrightarrow> LoadConsensusState db = [] \<or>
     (\<exists>r. rsInv env r \<and> encodeRoundState (envC env) (envVotes env) r = Inr (LoadConsensusState db))"

definition engInv :: "EngineEnv \<Rightarrow> StateDB \<Rightarrow> Engine \<Rightarrow> bool" where
  "engInv env db0 e \<longleftrightarrow> certifiedChain env db0 (sm e) \<and> rsInv env (rs e) \<and> storedInv env (sm e) \<and>
     (\<exists>dbv. certifiedChain env db0 dbv \<and> BondedAmounts (stake dbv) = Inr (engValidators e, engStakes e))"

lemma valSets_source:
  assumes "engInv env db0 e" "(vals, stks) \<in> valSets e"
  obtains dbv where "certifiedChain env db0 dbv" "BondedAmounts (stake dbv) = Inr (vals, stks)"
  using assms by (auto simp: engInv_def valSets_def)

lemma rsInv_cong:
  assumes "RsHeight r' = RsHeight r" "RsRound r' = RsRound r" "Prevotes r' = Prevotes r" "Precommits r' = Precommits r"
    "LastAttestation r' = LastAttestation r"
  shows "rsInv env r' = rsInv env r"
  using assms votesOf_cong[of r' r] by (simp add: rsInv_def rs_ok_def)

lemma attestation_from_ok:
  assumes "rs_ok env r" "\<And>vs. mset (ord vs) = mset vs"
  shows "attestation_ok (envC env) (envChain env) (attestationFromPrecommits ord (Precommits r) h)"
proof -
  define vs where "vs = sort_key ValidatorPK (filter (\<lambda>v. VType v = VotePrecommit \<and> VBlockHash v = h) (ord (map snd (Precommits r))))"
  have set: "set vs \<subseteq> {v \<in> snd ` set (Precommits r). VBlockHash v = h}"
    using mset_eq_setD[OF assms(2)[of "map snd (Precommits r)"]] by (auto simp: vs_def)
  have "\<forall>v\<in>set vs. VType v = VotePrecommit \<and> VHeight v = RsHeight r \<and> VRound v = RsRound r \<and> VBlockHash v = h \<and>
      VerifyVoteForChain (envC env) v (envChain env)"
    using set assms(1) by (fastforce simp: rs_ok_def votesOf_def)
  then show ?thesis
    by (cases vs) (auto simp: attestation_ok_def attestationFromPrecommits_def Let_def simp flip: vs_def)
qed

lemma sameChain_refl [simp]: "sameChain db db"
  by (simp add: sameChain_def)

lemma record_quiet:
  "sameChain db (fst (RecordConsensusVote db h r ty bh))" "LoadConsensusState (fst (RecordConsensusVote db h r ty bh)) = LoadConsensusState db"
  by (auto simp: RecordConsensusVote_def Let_def sameChain_def LoadConsensusState_def bget_bput voteKey_distinct(6)[symmetric]
      split: option.splits)

lemma save_quiet:
  "sameChain db (SaveConsensusState db d)" "LoadConsensusState (SaveConsensusState db d) = d"
  "sameChain db (ClearConsensusState db)" "LoadConsensusState (ClearConsensusState db) = []"
  by (auto simp: SaveConsensusState_def ClearConsensusState_def sameChain_def LoadConsensusState_def bget_bput bget_bdel)

lemma sm_cast: "sm (fst (castVote env ty h e)) = fst (RecordConsensusVote (sm e) (RsHeight (rs e)) (RsRound (rs e)) ty h)"
  by (simp add: castVote_def Let_def split: prod.splits bool.splits)

lemma persist_inv:
  assumes "engInv env db0 e"
  shows "certifiedChain env db0 (sm (persistRoundState env e)) \<and> storedInv env (sm (persistRoundState env e))"
proof (cases "encodeRoundState (envC env) (envVotes env) (rs e)")
  case (Inl x)
  then show ?thesis using assms by (simp add: persistRoundState_def engInv_def)
next
  case (Inr d)
  then have "sm (persistRoundState env e) = SaveConsensusState (sm e) d" by (simp add: persistRoundState_def)
  moreover have "rsInv env (rs e)" "certifiedChain env db0 (sm e)" using assms by (simp_all add: engInv_def)
  ultimately show ?thesis
    using Inr certifiedChain.quiet save_quiet(1) by (auto simp: storedInv_def save_quiet)
qed

lemma commit_inv:
  assumes inv: "engInv env db0 e" and ok: "stake_ok (stake db0)" and vs: "(vals, stks) \<in> valSets e"
    and q: "quorumBlock (Precommits (rs e)) vals stks = (h, True)" and c: "commit env h e = Inr (e1, True)"
  shows "certifiedChain env db0 (sm e1) \<and> storedInv env (sm e1) \<and> rs e1 = rs e \<and>
    engValidators e1 = engValidators e \<and> engStakes e1 = engStakes e"
proof -
  obtain dbv where dbv: "certifiedChain env db0 dbv" "BondedAmounts (stake dbv) = Inr (vals, stks)"
    using valSets_source[OF inv vs] .
  have "validators_ok vals stks" using bonded_validators_ok[OF certifiedChain_stake_ok[OF dbv(1) ok] dbv(2)] .
  moreover have "votesOf env (rs e) VotePrecommit (Precommits (rs e))" using inv by (simp add: engInv_def rsInv_def rs_ok_def)
  ultimately have cert: "certificate env vals stks (RsHeight (rs e)) (RsRound (rs e)) h
      {v \<in> snd ` set (Precommits (rs e)). VBlockHash v = h \<and> ValidatorPK v \<in> set vals}"
    using precommit_certificate q by blast
  from c show ?thesis
  proof (rule commit_True, goal_cases)
    case (1 p data db res)
    have "certifiedChain env db0 db"
      using inv cert by (intro certifiedChain.block[OF _ dbv _ _ _ _ _ 1(4), where p = p])
        (auto simp: engInv_def blockOf_def 1(2,3))
    then show ?case using certifiedChain.quiet save_quiet(3,4) by (auto simp: 1(5) storedInv_def)
  qed
qed

lemma micro_inv:
  assumes "micro env e e'" "engInv env db0 e" "stake_ok (stake db0)" "\<And>vs. mset (envVotes env vs) = mset vs"
  shows "engInv env db0 e'"
  using assms(1)
proof (cases rule: micro.cases)
  case (cast ty h)
  have "certifiedChain env db0 (sm e')" unfolding cast sm_cast
    using assms(2) record_quiet(1) certifiedChain.quiet by (auto simp: engInv_def)
  moreover have "storedInv env (sm e')" unfolding cast sm_cast using assms(2) by (simp add: engInv_def storedInv_def record_quiet)
  ultimately show ?thesis using assms(2) by (simp add: engInv_def cast)
next
  case persist
  then show ?thesis using persist_inv[OF assms(2)] assms(2) by (simp add: engInv_def)
next
  case (header d)
  then show ?thesis using assms(2) by (simp add: engInv_def)
next
  case local
  then show ?thesis using assms(2) rsInv_cong[of "rs e'" "rs e"] by (simp add: engInv_def sameCore_def)
next
  case (prevote vals v stks)
  then show ?thesis using assms(2)
    by (auto simp: engInv_def rsInv_def rs_ok_def acceptable_def votesOf_cong[of "rs e\<lparr>Prevotes := _\<rparr>" "rs e"] intro!: votesOf_bput)
next
  case (precommit vals v stks)
  then show ?thesis using assms(2)
    by (auto simp: engInv_def rsInv_def rs_ok_def acceptable_def votesOf_cong[of "rs e\<lparr>Precommits := _\<rparr>" "rs e"] intro!: votesOf_bput)
next
  case (logged ty h)
  have "certifiedChain env db0 (sm e')" using assms(2) record_quiet(1) certifiedChain.quiet by (auto simp: engInv_def logged)
  then show ?thesis using assms(2) by (simp add: engInv_def storedInv_def logged record_quiet)
next
  case (refresh vals stks)
  then show ?thesis using assms(2) by (auto simp: engInv_def)
next
  case round
  then show ?thesis using assms(2) by (simp add: engInv_def rsInv_def rs_ok_def IncrementRound_def)
next
  case (commit vals stks h e1)
  have ok: "rs_ok env (rs e)" using assms(2) by (simp add: engInv_def rsInv_def)
  then have "rsInv env (rs e\<lparr>LastAttestation := attestationFromPrecommits (envVotes env) (Precommits (rs e)) h\<rparr>)"
    using attestation_from_ok[OF ok assms(4)] by (simp add: rsInv_def rs_ok_def votesOf_def)
  then show ?thesis using commit_inv[OF assms(2,3) commit(2,3,5)] assms(2) by (auto simp: engInv_def commit(1))
next
  case height
  then show ?thesis using assms(2) by (simp add: engInv_def rsInv_def rs_ok_def)
qed

lemma steps_inv:
  assumes "steps env e e'" "engInv env db0 e" "stake_ok (stake db0)" "\<And>vs. mset (envVotes env vs) = mset vs"
  shows "engInv env db0 e'"
  using assms(1,2) by (induction rule: rtranclp_induct) (auto intro: micro_inv[OF _ _ assms(3,4)])


lemma storedAttestation_ok: "attestation_ok C chain a \<Longrightarrow> attestation_ok C chain (storedAttestation a)"
  by (simp add: attestation_ok_def storedAttestation_def emptyAttestation_def)

lemma Start_inv:
  assumes run: "Start n env db bl = ok e" and chain: "certifiedChain env db0 db" "storedInv env db" "stake_ok (stake db0)"
    and ord: "\<And>vs. mset (envVotes env vs) = mset vs"
  shows "engInv env db0 e"
  using run
proof (rule Start_micro, goal_cases)
  case (1 height e0)
  have fresh: "rsInv env (NewRoundState x)" for x
    by (simp add: rsInv_def rs_ok_def NewRoundState_def attestation_ok_def emptyAttestation_def)
  have "rsInv env (rs e0)"
  proof (cases "LoadConsensusState db = []")
    case True
    then have "rs e0 = NewRoundState (height + 1)" using 1(2) by (simp add: restoredState_def Let_def)
    then show ?thesis using fresh by simp
  next
    case False
    with chain(2) obtain r where r: "rsInv env r" "encodeRoundState (envC env) (envVotes env) r = Inr (LoadConsensusState db)"
      by (auto simp: storedInv_def)
    have rest: "restorable (envC env) (envChain env) r"
      using r(1) by (auto simp: restorable_def rsInv_def rs_ok_def votesOf_def votesKeyed_def)
    obtain proposal where dec: "decodeRoundState (envC env) (LoadConsensusState db) (envChain env) =
       rguard (RsPhase r < PhasePropose \<or> RsPhase r > PhaseCommit) (GoError ''snapshot phase'')
       (rbind (deserializeOptionalProposal (envC env) proposal (envChain env)) (\<lambda>p.
       Inr (r\<lparr>RsProposal := p, LockedRound := (if LockedBlock r = None then - 1 else LockedRound r),
              LastAttestation := storedAttestation (LastAttestation r)\<rparr>)))"
      by (rule decode_encode[OF r(2) rest ord])
    have "rsInv env r'" if "decodeRoundState (envC env) (LoadConsensusState db) (envChain env) = Inr r'" for r'
      using that r(1) unfolding dec
      by (auto simp: rguard_Inr_iff rbind_Inr_iff rsInv_def rs_ok_def votesOf_def storedAttestation_ok)
    then have "rsInv env r0" if "restoredState env db height = Inr r0" for r0
      using that False fresh by (auto simp: restoredState_def Let_def split: sum.splits goerr.splits if_splits)
    then show ?thesis using 1(2) .
  qed
  then have "engInv env db0 e0" using chain 1(3,5) by (auto simp: engInv_def)
  then show ?case using steps_inv[OF 1(6) _ chain(3) ord] by blast
qed

lemma nodeRun_inv:
  assumes "nodeRun env db0 past e" "stake_ok (stake db0)" "LoadConsensusState db0 = []" "\<And>vs. mset (envVotes env vs) = mset vs"
  shows "engInv env db0 e"
  using assms(1)
proof (induction rule: nodeRun.induct)
  case (boot n bl e)
  then show ?case using Start_inv[OF boot certifiedChain.genesis _ assms(2,4)] assms(3) by (simp add: storedInv_def)
next
  case (event past e n ev e')
  then show ?case using steps_inv[OF engineStep_micro] assms(2,4) by blast
next
  case (restart past e e1 n bl e')
  have "engInv env db0 e1" using steps_inv[OF restart(2) restart.IH assms(2,4)] .
  then show ?case using Start_inv[OF restart(3) _ _ assms(2,4)] by (simp add: engInv_def)
qed


section \<open>A proposal that stops every validator\<close>

text \<open>A transaction cut off inside its nonce, in a batch of one, in an unsigned proposal.\<close>

definition crashTx :: bytes where
  "crashTx = DomainTx @ [0] @ PutUint16 278 @ replicate 278 0"

definition crashProposal :: bytes where
  "crashProposal = replicate 188 0 @ PutUint32 1 @ DomainTxBatch @ PutUint16 1 @ PutUint16 287 @ crashTx"

lemma crashTx_panics: "length crashTx = 287" "Deserialize C crashTx = Inl Panic"
proof -
  have h: "drop 7 crashTx = PutUint16 278 @ replicate 278 0" "take 6 crashTx = DomainTx"
    by (simp_all add: crashTx_def DomainTx_def str_def)
  show len: "length crashTx = 287" by (simp add: crashTx_def DomainTx_def str_def codec_simps)
  show "Deserialize C crashTx = Inl Panic" by (simp add: Deserialize_panics_iff len h codec_simps Let_def)
qed

lemma crash_batch: "DeserializeBatch C (DomainTxBatch @ PutUint16 1 @ PutUint16 287 @ crashTx) = Inl Panic"
proof -
  let ?d = "DomainTxBatch @ PutUint16 1 @ PutUint16 287 @ crashTx"
  have "length ?d \<le> maxBatchBytes" by (simp add: codec_simps crashTx_panics(1) DomainTxBatch_def str_def)
  then have "DeserializeBatch C ?d = readBatch C (unat (1::u16)) (PutUint16 287 @ crashTx)" by (rule DeserializeBatch_header[OF refl])
  also have "\<dots> = Inl Panic"
    by (simp add: codec_simps crashTx_panics Let_def rguard_def)
  finally show ?thesis .
qed

lemma crash_proposal: "DeserializeProposal C crashProposal = Inl Panic"
proof -
  let ?batch = "DomainTxBatch @ PutUint16 1 @ PutUint16 287 @ crashTx"
  have d: "drop 64 crashProposal = replicate 124 0 @ PutUint32 1 @ ?batch" by (simp add: crashProposal_def)
  have z: "Uint32 (drop 120 (drop 64 crashProposal)) = 0"
  proof -
    have "drop 120 (drop 64 crashProposal) = PutUint32 0 @ PutUint32 1 @ ?batch"
      by (simp add: d PutUint32_def)
    then show ?thesis by (simp add: codec_simps)
  qed
  have r: "drop 124 (drop 64 crashProposal) = PutUint32 1 @ ?batch" by (simp add: d)
  have len: "length crashProposal \<ge> 192" by (simp add: crashProposal_def codec_simps)
  have ne: "?batch \<noteq> []" by (simp add: DomainTxBatch_def str_def)
  show ?thesis
    using len ne unfolding DeserializeProposal_def Let_def z r
    by (simp add: readVotes.simps rguard_def codec_simps crash_batch)
qed


section \<open>Timers\<close>

text \<open>The timer that moves the engine on from its phase is armed. In the prevote phase of its own proposal it need not be;
  the commit phase is left at once unless the validator set cannot be read.\<close>

definition timed :: "Engine \<Rightarrow> bool" where
  "timed e \<longleftrightarrow> (RsPhase (rs e) = PhasePropose \<and> proposeTimer e) \<or>
     (RsPhase (rs e) = PhasePrevote \<and>
       (prevoteTimer e \<or> (\<exists>bl p. proposer e = Some bl \<and> RsProposal (rs e) = Some p \<and> ProposerPK p = PublicKey (blKeypair bl)))) \<or>
     (RsPhase (rs e) = PhasePrecommit \<and> precommitTimer e) \<or>
     (RsPhase (rs e) = PhaseCommit \<and> (\<exists>err. BondedAmounts (stake (sm e)) = Inl err))"

definition timedHandler :: "voteHandler \<Rightarrow> bool" where
  "timedHandler handle \<longleftrightarrow> (\<forall>vals stks v e e'. timed e \<longrightarrow> handle vals stks v e = ok e' \<longrightarrow> timed e')"

lemma timed_persist [simp]: "timed (persistRoundState env e) = timed e"
  by (simp add: timed_def)

lemma timed_cast [simp]: "timed (fst (castVote env ty h e)) = timed e"
  by (simp add: timed_def)

lemma timed_header [simp]: "timed (BroadcastBlockHeader d e) = timed e"
  by (simp add: timed_def)

lemma selfVote_timed:
  assumes "timedHandler handle" "selfVote handle vals stks (castVote env ty h e) = ok e'" "timed e"
  shows "timed e'"
proof -
  obtain e1 r where c: "castVote env ty h e = (e1, r)" by fastforce
  have "timed e1" using assms(3) timed_cast[of env ty h e] by (simp add: c)
  then show ?thesis using assms(1,2) by (cases r) (auto simp: c selfVote_def timedHandler_def)
qed

lemma broadcastProposal_timed:
  assumes "timedHandler handle" "broadcastProposal handle env vals stks e = ok e'" "timed e"
  shows "timed e'"
proof (cases "e' = e")
  case False
  with assms(2) obtain bl p data where bl: "proposer e = Some bl"
    and p: "p = ProposeForState (envC env) bl (RsHeight (rs e)) (RsRound (rs e)) (LastAttestation (rs e)) (prevStateRoot e)"
    and run: "selfVote handle vals stks (castVote env VotePrevote (BlockHashForChain (envC env) p (envChain env))
      (BroadcastBlockHeader data (persistRoundState env (setPhase PhasePrevote (e\<lparr>rs := (rs e)\<lparr>RsProposal := Some p\<rparr>\<rparr>))))) = ok e'"
    by (auto simp: broadcastProposal_def Let_def broadcast_defs split: option.splits sum.splits if_splits)
  have "ProposerPK p = PublicKey (blKeypair bl)" by (simp add: p ProposeForState_def propose_def Let_def)
  then have "timed (setPhase PhasePrevote (e\<lparr>rs := (rs e)\<lparr>RsProposal := Some p\<rparr>\<rparr>))" by (simp add: timed_def bl)
  then show ?thesis using selfVote_timed[OF assms(1) run] by simp
qed (use assms(3) in simp)

lemma restartRound_timed:
  assumes "timedHandler handle" "restartRound handle env e = ok e'" "timed e \<or> (\<exists>vs. BondedAmounts (stake (sm e)) = Inr vs)"
  shows "timed e'"
proof (cases "BondedAmounts (stake (sm e))")
  case (Inl err)
  then show ?thesis using assms(2,3) by (auto simp: restartRound_def)
next
  case (Inr vs)
  let ?e1 = "(setStatus (e\<lparr>rs := IncrementRound (Unlock (rs e))\<rparr>))\<lparr>proposeTimer := True\<rparr>"
  have "timed ?e1" by (simp add: timed_def IncrementRound_def)
  then show ?thesis using assms(2) broadcastProposal_timed[OF assms(1)] Inr
    by (cases vs) (auto simp: restartRound_def Let_def andThen_ok split: if_splits)
qed

lemma onPrevote_timed:
  assumes "timedHandler handle" "onPrevote handle env vals stks v e = ok e'" "timed e"
  shows "timed e'"
proof (cases "bget (Prevotes (rs e)) (ValidatorPK v) = None")
  case False
  then show ?thesis using assms by (simp add: onPrevote_def)
next
  case True
  define e1 where "e1 = persistRoundState env (e\<lparr>rs := (rs e)\<lparr>Prevotes := bput (Prevotes (rs e)) (ValidatorPK v) v\<rparr>\<rparr>)"
  have t1: "timed e1" using assms(3) by (simp add: e1_def timed_def)
  let ?e2 = "(setPhase PhasePrecommit e1)\<lparr>prevoteTimer := False, precommitTimer := True\<rparr>"
  obtain h q where q: "quorumBlock (Prevotes (rs e1)) vals stks = (h, q)" by fastforce
  have t2: "timed ?e2" "timed (?e2\<lparr>rs := Lock h (RsRound (rs ?e2)) (rs ?e2)\<rparr>)" by (simp_all add: timed_def Lock_def)
  show ?thesis
    using assms(2) True q t1 selfVote_timed[OF assms(1) _ t2(1)] selfVote_timed[OF assms(1) _ t2(2)]
    by (cases q) (auto simp: onPrevote_def Let_def broadcast_defs simp flip: e1_def split: if_splits)
qed

lemma startNextRound_timed: "timed (startNextRound env vals e)"
  by (simp add: startNextRound_def Let_def timed_def)

lemma rejected_timed:
  assumes "timedHandler handle" "restartRound handle env (rejectProposal env e) = ok e'" "timed e \<or> RsPhase (rs e) = PhaseCommit"
  shows "timed e'"
proof (rule restartRound_timed[OF assms(1,2)])
  show "timed (rejectProposal env e) \<or> (\<exists>vs. BondedAmounts (stake (sm (rejectProposal env e))) = Inr vs)"
    using assms(3) by (cases "BondedAmounts (stake (sm e))") (auto simp: timed_def rejectProposal_def OnReject_def split: option.splits)
qed

lemma onPrecommit_timed:
  assumes "timedHandler handle" "onPrecommit handle env vals stks v e = ok e'" "timed e"
  shows "timed e'"
proof -
  have t1: "timed (precommitted env v e)" using assms(3) by (simp add: precommitted_def timed_def)
  have ph: "RsPhase (rs (committing env v e)) = PhaseCommit" by (simp add: committing_def)
  from assms(2) show ?thesis
  proof (cases rule: onPrecommit_cases)
    case mixed
    then show ?thesis using rejected_timed[OF assms(1)] t1 by blast
  next
    case failed
    then show ?thesis using rejected_timed[OF assms(1)] ph by blast
  next
    case (committed h e3)
    from committed(4) have "RsPhase (rs e3) = PhaseCommit" by (rule commit_True) (simp add: ph)
    then show ?thesis using committed(5) startNextRound_timed by (auto simp: timed_def attested_by_def split: sum.splits)
  qed (use assms(3) t1 in simp_all)
qed

lemma handleVote_timed: "timedHandler (handleVote n env)"
proof (induction n)
  case (Suc n)
  show ?case unfolding timedHandler_def
    using onPrevote_timed[OF Suc] onPrecommit_timed[OF Suc] by (auto simp: handleVoteBody_def split: if_splits)
qed (simp add: timedHandler_def)

lemma engineStep_timed:
  assumes "engineStep n env ev e = ok e'" "timed e"
  shows "timed e'"
proof -
  note self = selfVote_timed[OF handleVote_timed] and own = broadcastProposal_timed[OF handleVote_timed]
  show ?thesis
  proof (cases ev)
    case (VoteIn raw)
    then show ?thesis using assms handleVote_timed[of n env] by (auto simp: engineStep_def timedHandler_def split: sum.splits)
  next
    case (ProposalIn raw)
    then show ?thesis using assms
      by (auto simp: engineStep_def handleProposal_def Let_def broadcast_defs andThen_ok split: sum.splits option.splits if_splits
          dest!: self) (auto simp: timed_def)
  next
    case ProposeTimeout
    then show ?thesis using assms
      by (auto simp: engineStep_def onProposeTimeout_def Let_def broadcast_defs andThen_ok split: if_splits dest!: self) (auto simp: timed_def)
  next
    case PrevoteTimeout
    then show ?thesis using assms
      by (auto simp: engineStep_def onPrevoteTimeout_def Let_def broadcast_defs andThen_ok split: if_splits dest!: self) (auto simp: timed_def)
  next
    case PrecommitTimeout
    then show ?thesis using assms
      by (auto simp: engineStep_def onPrecommitTimeout_def Let_def andThen_ok split: if_splits dest!: own)
        (auto simp: timed_def IncrementRound_def)
  next
    case ProposeReady
    then show ?thesis using assms
      by (auto simp: engineStep_def onProposeReady_def split: if_splits dest!: own) (auto simp: timed_def)
  next
    case (TxIn t)
    then show ?thesis using assms by (cases "proposer e") (auto simp: engineStep_def timed_def)
  qed
qed


lemma Start_timed:
  assumes "LoadConsensusState db = []" "Start n env db bl = ok e"
  shows "timed e"
  using assms
  by (auto simp: Start_def restoredState_def Let_def timed_def NewRoundState_def split: sum.splits if_splits)

text \<open>The exception of the invariant is real: a proposer without a quorum of its own sits in the prevote phase of its
  proposal, and no timer moves it on.\<close>

lemma proposer_stall:
  assumes "RsPhase (rs e) = PhasePropose" "Prevotes (rs e) = []" "proposeReady e" "\<not> prevoteTimer e" "\<not> precommitTimer e" "0 < n"
    and bl: "proposer e = Some bl" and turn: "skipProposerPK env (engValidators e) e = PublicKey (envKp env)"
    and data: "SerializeProposal (envC env) (ProposeForState (envC env) bl (RsHeight (rs e)) (RsRound (rs e)) (LastAttestation (rs e)) (prevStateRoot e)) = Inr data"
    and minority: "\<forall>v. \<not> QuorumReached [(PublicKey (envKp env), v)] (engValidators e) (engStakes e)"
  shows "\<exists>e'. engineStep n env ProposeReady e = ok e' \<and> RsPhase (rs e') = PhasePrevote \<and>
    (\<forall>ev\<in>{ProposeTimeout, PrevoteTimeout, PrecommitTimeout, ProposeReady}. \<exists>e''. engineStep n env ev e' = ok e'' \<and> rs e'' = rs e')"
proof -
  obtain m where n: "n = Suc m" using assms(6) by (cases n) auto
  let ?e0 = "e\<lparr>proposeReady := False\<rparr>"
  let ?p = "ProposeForState (envC env) bl (RsHeight (rs e)) (RsRound (rs e)) (LastAttestation (rs e)) (prevStateRoot e)"
  define e1 where "e1 = BroadcastBlockHeader data (persistRoundState env (setPhase PhasePrevote (?e0\<lparr>rs := (rs e)\<lparr>RsProposal := Some ?p\<rparr>\<rparr>)))"
  have e1: "RsPhase (rs e1) = PhasePrevote" "Prevotes (rs e1) = []" "\<not> prevoteTimer e1" "\<not> precommitTimer e1" "\<not> proposeReady e1"
    "engValidators e1 = engValidators e" "engStakes e1 = engStakes e" using assms by (simp_all add: e1_def)
  have step: "engineStep n env ProposeReady e =
      selfVote (handleVote n env) (engValidators e) (engStakes e) (castVote env VotePrevote (BlockHashForChain (envC env) ?p (envChain env)) e1)"
  proof -
    have "skipProposerPK env (engValidators e) ?e0 = PublicKey (envKp env)" "prevStateRoot ?e0 = prevStateRoot e"
      using turn by (simp_all add: skipProposerPK_def prevStateRoot_def)
    then show ?thesis using assms(1,3) bl data
      by (simp add: engineStep_def onProposeReady_def broadcastProposal_def Let_def broadcast_defs e1_def)
  qed
  obtain e2 r where c: "castVote env VotePrevote (BlockHashForChain (envC env) ?p (envChain env)) e1 = (e2, r)" by fastforce
  have e2: "rs e2 = rs e1" "\<not> prevoteTimer e2" "\<not> precommitTimer e2" "\<not> proposeReady e2" "engValidators e2 = engValidators e" "engStakes e2 = engStakes e"
    using castVote_fields[of env VotePrevote "BlockHashForChain (envC env) ?p (envChain env)" e1] e1 by (simp_all add: c)
  have r: "r = None \<or> (\<exists>v. r = Some v \<and> ValidatorPK v = PublicKey (envKp env) \<and> VType v = VotePrevote)"
    using c by (auto simp: castVote_def Let_def split: prod.splits bool.splits)
  have "\<exists>e'. engineStep n env ProposeReady e = ok e' \<and> RsPhase (rs e') = PhasePrevote \<and> \<not> prevoteTimer e' \<and> \<not> precommitTimer e' \<and> \<not> proposeReady e'"
    unfolding step c selfVote_def using r e1 e2 minority
    by (auto simp: n handleVoteBody_def onPrevote_def Let_def split: option.splits)
  then obtain e' where e': "engineStep n env ProposeReady e = ok e'" "RsPhase (rs e') = PhasePrevote"
      "\<not> prevoteTimer e'" "\<not> precommitTimer e'" "\<not> proposeReady e'" by blast
  have "\<exists>e''. engineStep n env ev e' = ok e'' \<and> rs e'' = rs e'"
    if "ev \<in> {ProposeTimeout, PrevoteTimeout, PrecommitTimeout, ProposeReady}" for ev
    using that e'(2-5) by (auto simp: engineStep_def onProposeTimeout_def)
  with e'(1,2) show ?thesis by blast
qed

text \<open>A validator that has locked on a block gives the lock up when the precommits of a round add up to a quorum but not
  for one block, and the timer of the round goes on running into the next.\<close>

lemma lock_dropped:
  assumes "bget (Precommits (rs e)) (ValidatorPK v) = None" "RsPhase (rs e) = PhasePrecommit"
    and "QuorumReached (bput (Precommits (rs e)) (ValidatorPK v) v) vals stks" "quorumBlock (bput (Precommits (rs e)) (ValidatorPK v) v) vals stks = (h, False)"
    and "BondedAmounts (stake (sm e)) = Inr (vals', stks')"
    and "SkipProposer (envC env) (prevStateRoot (precommitted env v e)) (RsHeight (rs e)) vals' (RsRound (rs e) + 1) = Inr pk" "pk \<noteq> PublicKey (envKp env)"
  shows "\<exists>e'. onPrecommit handle env vals stks v e = ok e' \<and> LockedBlock (rs e') = None \<and> RsRound (rs e') = RsRound (rs e) + 1 \<and>
    RsPhase (rs e') = PhasePropose \<and> precommitTimer e' = precommitTimer e"
proof -
  let ?e1 = "precommitted env v e"
  have e1: "rs ?e1 = (rs e)\<lparr>Precommits := bput (Precommits (rs e)) (ValidatorPK v) v\<rparr>" "stake (sm ?e1) = stake (sm e)" "precommitTimer ?e1 = precommitTimer e"
    by (simp_all add: precommitted_def)
  have "onPrecommit handle env vals stks v e = restartRound handle env (rejectProposal env ?e1)"
    using assms(1-4) unfolding onPrecommit_def Let_def precommitted_def[symmetric] by (simp add: e1)
  moreover have "skipProposerPK env vals' ((setStatus ((rejectProposal env ?e1)\<lparr>rs := IncrementRound (Unlock (rs ?e1))\<rparr>))\<lparr>proposeTimer := True\<rparr>) = pk"
    using assms(6) by (simp add: skipProposerPK_def prevStateRoot_def IncrementRound_def Unlock_def e1)
  ultimately show ?thesis using assms(5,7)
    by (simp add: restartRound_def Let_def e1 andThen_def IncrementRound_def Unlock_def)
qed


section \<open>A sample node\<close>

text \<open>A chain with one bonded validator, and another node started on it.\<close>

definition sampleEnv :: EngineEnv where
  "sampleEnv = \<lparr>envC = sample_crypto, envW = sampleWasm, envB = sampleCurve, envJ = sampleJson, envIter = id, envVotes = id,
     envKp = \<lparr>PublicKey = 5, PrivateKey = 5\<rparr>, envChain = DefaultChainID\<rparr>"

definition sampleChain :: StateDB where
  "sampleChain = (sampleDB 0)\<lparr>stake := sampleStore\<lparr>validatorsBucket := [(3, rawRecord (newBond (2000 * 10 ^ 18) 7))]\<rparr>\<rparr>"

definition sampleEngine :: Engine where
  "sampleEngine = \<lparr>sm = sampleChain, rs = NewRoundState 1, proposer = None, engValidators = [3], engStakes = [2000 * 10 ^ 18],
     proposeTimer = True, prevoteTimer = False, precommitTimer = False, proposeReady = False, outbox = [],
     engStatus = \<lparr>StHeight = 1, StRound = 0, StPhase = PhasePropose\<rparr>\<rparr>"

definition sampleBallot :: "Keypair \<Rightarrow> u8 \<Rightarrow> bytes32 \<Rightarrow> Vote" where
  "sampleBallot k ty h = (let v = \<lparr>VType = ty, VHeight = 1, VRound = 0, VBlockHash = h, ValidatorPK = PublicKey k, VSig = 0\<rparr> in
     v\<lparr>VSig := Sign sample_crypto k (VoteSignBytesForChain v DefaultChainID)\<rparr>)"

abbreviation sampleVoter :: Keypair where "sampleVoter \<equiv> \<lparr>PublicKey = 3, PrivateKey = 3\<rparr>"

lemma sampleBallot_fields [simp]:
  "VType (sampleBallot k ty h) = ty" "VHeight (sampleBallot k ty h) = 1" "VRound (sampleBallot k ty h) = 0"
  "VBlockHash (sampleBallot k ty h) = h" "ValidatorPK (sampleBallot k ty h) = PublicKey k"
  by (simp_all add: sampleBallot_def Let_def)

lemma sampleBallot_verifies: "ty = 1 \<or> ty = 2 \<Longrightarrow> VerifyVoteForChain sample_crypto (sampleBallot sampleVoter ty h) DefaultChainID"
proof -
  assume ty: "ty = 1 \<or> ty = 2"
  have "keypair_ok sample_crypto sampleVoter" by code_simp
  from Verify_Sign[OF sample_crypto_ok(1) this] show ?thesis
    using ty by (auto simp: VerifyVoteForChain_def sampleBallot_def VoteSignBytesForChain_def)
qed

lemma sample_bonded: "stake_ok (stake sampleChain)" "BondedAmounts (stake sampleChain) = Inr ([3], [2000 * 10 ^ 18])"
  "LoadConsensusState sampleChain = []" "CurrentHeight sampleChain = Inr 0"
proof -
  have r: "record_ok (newBond (2000 * 10 ^ 18) 7)" by (simp add: record_ok_def newBond_def UINT256_MAX_def)
  show "stake_ok (stake sampleChain)"
    using r by (auto simp: sampleChain_def stake_ok_def sampleStore_def NewStore_def ledger_ok_def balances_ok_def bucket_ok_def)
  show "BondedAmounts (stake sampleChain) = Inr ([3], [2000 * 10 ^ 18])"
    using r by (simp add: sampleChain_def BondedAmounts_def decodeRecord_raw newBond_def)
  show "LoadConsensusState sampleChain = []" "CurrentHeight sampleChain = Inr 0"
    by (simp_all add: sampleChain_def sampleDB_def LoadConsensusState_def CurrentHeight_def bget_def key_defs str_def)
qed

lemma sample_start: "Start n sampleEnv sampleChain None = ok sampleEngine"
proof -
  have "SkipProposer sample_crypto r h [3] k = Inr 3" for r h k
    by (simp add: SkipProposer_def rguard_def Let_def)
  then show ?thesis
    by (simp add: Start_def sample_bonded restoredState_def sampleEnv_def setStatus_def NewRoundState_def skipProposerPK_def
        sampleEngine_def)
qed

lemma sample_boot: "nodeRun sampleEnv sampleChain [] sampleEngine"
  using sample_start by (rule nodeRun.boot)

text \<open>A precommit that arrives before its round has a proposal is recorded.\<close>

definition sampleCounted :: "bytes32 \<Rightarrow> Engine" where
  "sampleCounted h = precommitted sampleEnv (sampleBallot sampleVoter VotePrecommit h) sampleEngine"

lemma sample_precommit: "engineStep 1 sampleEnv (VoteIn (SerializeVote (sampleBallot sampleVoter VotePrecommit h))) sampleEngine = ok (sampleCounted h)"
proof -
  let ?v = "sampleBallot sampleVoter VotePrecommit h"
  have v: "VerifyVoteForChain (envC sampleEnv) ?v (envChain sampleEnv)" using sampleBallot_verifies[of 2 h] by (simp add: sampleEnv_def)
  have "onPrecommit handle sampleEnv [3] [2000 * 10 ^ 18] ?v sampleEngine = ok (sampleCounted h)" for handle
    unfolding onPrecommit_def Let_def sampleCounted_def precommitted_def[symmetric]
    by (simp add: sampleEngine_def NewRoundState_def) (simp add: precommitted_def)
  then show ?thesis using v
    by (simp add: engineStep_def handleVoteBody_def) (simp add: sampleEngine_def NewRoundState_def)
qed

lemma sample_counted: "nodeRun sampleEnv sampleChain [] (sampleCounted h)"
  using nodeRun.event[OF sample_boot sample_precommit] .

lemma sample_precommits: "Precommits (rs (sampleCounted h)) = [(3, sampleBallot sampleVoter VotePrecommit h)]"
  "RsHeight (rs (sampleCounted h)) = 1" "RsRound (rs (sampleCounted h)) = 0"
  by (simp_all add: sampleCounted_def precommitted_def sampleEngine_def NewRoundState_def)

text \<open>A node that times out waiting for a proposal prevotes for no block.\<close>

lemma sample_timeout:
  obtains e where "engineStep 1 sampleEnv ProposeTimeout sampleEngine = ok e"
    "VoteMsg (SerializeVote (sampleBallot \<lparr>PublicKey = 5, PrivateKey = 5\<rparr> VotePrevote 0)) \<in> set (outbox e)"
proof -
  define e1 where "e1 = (setPhase PhasePrevote (sampleEngine\<lparr>proposeTimer := False\<rparr>))\<lparr>prevoteTimer := True\<rparr>"
  let ?v = "sampleBallot \<lparr>PublicKey = 5, PrivateKey = 5\<rparr> VotePrevote 0"
  have none: "bget (meta (sm e1)) (consensusVoteKey 1 0 VotePrevote) = None"
    using voteKey_distinct(4)[of 1 0 1] by (simp add: e1_def sampleEngine_def sampleChain_def sampleDB_def bget_def)
  have e1: "RsHeight (rs e1) = 1" "RsRound (rs e1) = 0" "engValidators e1 = [3]" "outbox e1 = []"
    by (simp_all add: e1_def sampleEngine_def NewRoundState_def)
  obtain e2 where c: "castVote sampleEnv VotePrevote 0 e1 = (e2, Some ?v)" and e2: "outbox e2 = [VoteMsg (SerializeVote ?v)]"
    using none by (simp add: castVote_def RecordConsensusVote_def e1 Let_def sampleBallot_def sampleEnv_def)
  have "engineStep 1 sampleEnv ProposeTimeout sampleEngine = ok (persistRoundState sampleEnv e2)"
  proof -
    have timer: "proposeTimer sampleEngine" "RsPhase (rs sampleEngine) = PhasePropose" by (simp_all add: sampleEngine_def NewRoundState_def)
    have "handleVote 1 sampleEnv (engValidators e1) stks ?v e2 = ok e2" for stks by (simp add: handleVoteBody_def e1)
    then show ?thesis
      by (simp add: engineStep_def onProposeTimeout_def Let_def broadcast_defs andThen_def selfVote_def c
          timer flip: e1_def)
  qed
  then show thesis by (rule that) (simp add: e2)
qed


section \<open>Properties\<close>

text \<open>C10. Every event is handled to its end: the handlers call each other in a cycle (a vote leads to a vote of the
  engine's own, a failed commit to a new round and a new proposal), but each nested call has used up one slot of the
  durable vote log, so that a depth above the number of free slots is never reached, and the outcome does not depend on
  the depth allowed. There are at most \<open>2 ^ 104\<close> slots.\<close>

theorem consensus_handlers_terminate:
  assumes "card (freeSlots (sm e)) < n"
  shows "(\<exists>r. engineStep n env ev e = Some r) \<and> (\<forall>m\<ge>n. engineStep m env ev e = engineStep n env ev e)"
  using engineStep_defined[OF assms] engineStep_fuel[OF assms] by blast

theorem consensus_handlers_terminate_witness:
  "card (freeSlots (sm sampleEngine)) < 2 ^ 104 + 1 \<and> (\<exists>r. engineStep (2 ^ 104 + 1) sampleEnv ProposeTimeout sampleEngine = Some r)"
proof -
  have "card (freeSlots (sm sampleEngine)) < 2 ^ 104 + 1" by (rule le_less_trans[OF freeSlots_bound]) simp
  with consensus_handlers_terminate[OF this] show ?thesis by blast
qed

text \<open>C3. A validator never signs two different votes for the same height, round and vote type, whatever messages
  arrive and in whatever order, and also when it crashes at any point and starts again: of all votes it ever sent, two for
  the same slot are the same vote, and no two of them are accepted as evidence of equivocation.\<close>

theorem consensus_never_equivocates:
  assumes "nodeRun env db0 past e" "VoteMsg (SerializeVote v) \<in> set (past @ outbox e)" "VoteMsg (SerializeVote w) \<in> set (past @ outbox e)"
  shows "((VHeight v, VRound v, VType v) = (VHeight w, VRound w, VType w) \<longrightarrow> v = w) \<and>
    (\<forall>t pk. EvidenceA t = SerializeVote v \<and> EvidenceB t = SerializeVote w \<longrightarrow>
       validateEquivocationEvidenceTx (envC env) t (envChain env) \<noteq> Inr pk)"
proof -
  have logged: "signedVote env u \<and> bget (meta (sm e)) (consensusVoteKey (VHeight u) (VRound u) (VType u)) = Some (arr32 (VBlockHash u))"
    if "VoteMsg (SerializeVote u) \<in> set (past @ outbox e)" for u
    using nodeRun_sent[OF assms(1)] that unfolding sentLogged_def by (metis SerializeVote_inject)
  have same: "v = w" if "(VHeight v, VRound v, VType v) = (VHeight w, VRound w, VType w)"
  proof -
    have "VBlockHash v = VBlockHash w" using logged[OF assms(2)] logged[OF assms(3)] that by (simp add: A32.enc_inject)
    then show ?thesis using logged[OF assms(2)] logged[OF assms(3)] that
      by (intro Vote.equality) (auto simp: signedVote_def VoteSignBytesForChain_def Let_def)
  qed
  moreover have "validateEquivocationEvidenceTx (envC env) t (envChain env) \<noteq> Inr pk"
    if "EvidenceA t = SerializeVote v" "EvidenceB t = SerializeVote w" for t pk
    using same that by (auto simp: validateEquivocationEvidenceTx_def res_simps evidence_deserialize evidenceOf_def)
  ultimately show ?thesis by blast
qed

theorem consensus_never_equivocates_witness:
  "\<exists>e v. nodeRun sampleEnv sampleChain [] e \<and> VoteMsg (SerializeVote v) \<in> set (outbox e) \<and>
     validateEquivocationEvidenceTx sample_crypto (sampleTx\<lparr>EvidenceA := SerializeVote v, EvidenceB := SerializeVote v\<rparr>) DefaultChainID \<noteq> Inr 5"
proof -
  obtain e where e: "engineStep 1 sampleEnv ProposeTimeout sampleEngine = ok e"
    "VoteMsg (SerializeVote (sampleBallot \<lparr>PublicKey = 5, PrivateKey = 5\<rparr> VotePrevote 0)) \<in> set (outbox e)" by (rule sample_timeout)
  let ?v = "sampleBallot \<lparr>PublicKey = 5, PrivateKey = 5\<rparr> VotePrevote 0"
  let ?t = "sampleTx\<lparr>EvidenceA := SerializeVote ?v, EvidenceB := SerializeVote ?v\<rparr>"
  have run: "nodeRun sampleEnv sampleChain [] e" by (rule nodeRun.event[OF sample_boot e(1)])
  have "EvidenceA ?t = SerializeVote ?v \<and> EvidenceB ?t = SerializeVote ?v" by simp
  then have "validateEquivocationEvidenceTx (envC sampleEnv) ?t (envChain sampleEnv) \<noteq> Inr 5"
    using consensus_never_equivocates[OF run, of ?v ?v] e(2) by simp
  moreover have "envC sampleEnv = sample_crypto" "envChain sampleEnv = DefaultChainID" by (simp_all add: sampleEnv_def)
  ultimately show ?thesis using run e(2) by metis
qed



text \<open>C11. Agreement, with culprits: when two nodes of one chain find a quorum of precommits for two different blocks in
  the same round, counting the same stakes, then validators holding more than a third of the stake have signed both;
  each of them is convicted by a transaction carrying its two votes, which the state machine accepts as evidence of
  equivocation.\<close>

theorem consensus_fork_accountable:
  assumes "nodeRun env db1 past1 e1" "stake_ok (stake db1)" "LoadConsensusState db1 = []"
    and "nodeRun (env\<lparr>envKp := kp2\<rparr>) db2 past2 e2" "stake_ok (stake db2)" "LoadConsensusState db2 = []"
    and "\<forall>vs. mset (envVotes env vs) = mset vs" "validators_ok vals stks"
    and "RsHeight (rs e1) = RsHeight (rs e2)" "RsRound (rs e1) = RsRound (rs e2)"
    and "quorumBlock (Precommits (rs e1)) vals stks = (h1, True)" "quorumBlock (Precommits (rs e2)) vals stks = (h2, True)"
    and "h1 \<noteq> h2" "h1 \<noteq> 0" "h2 \<noteq> 0"
  shows "\<exists>S \<subseteq> set vals. 3 * (\<Sum>pk\<in>S. stakeOf vals stks pk) > sum_list stks \<and>
    (\<forall>pk\<in>S. \<exists>v w. (pk, v) \<in> set (Precommits (rs e1)) \<and> (pk, w) \<in> set (Precommits (rs e2)) \<and>
       (\<forall>t. noMissFields t \<and> WasmBytes t = [] \<and> InitArgs t = [] \<and> CallData t = [] \<and>
          EvidenceA t = SerializeVote v \<and> EvidenceB t = SerializeVote w \<longrightarrow>
          validateEquivocationEvidenceTx (envC env) t (envChain env) = Inr pk))"
proof -
  have env2: "votesOf (env\<lparr>envKp := kp2\<rparr>) r ty vm = votesOf env r ty vm" for r ty vm by (simp add: votesOf_def)
  have v1: "votesOf env (rs e1) VotePrecommit (Precommits (rs e1))"
    using nodeRun_inv[OF assms(1-3)] assms(7) by (simp add: engInv_def rsInv_def rs_ok_def)
  have v2: "votesOf env (rs e2) VotePrecommit (Precommits (rs e2))"
    using nodeRun_inv[OF assms(4-6)] assms(7) by (simp add: engInv_def rsInv_def rs_ok_def env2)
  let ?C = "\<lambda>e h. {v \<in> snd ` set (Precommits (rs e)). VBlockHash v = h \<and> ValidatorPK v \<in> set vals}"
  have c: "certificate env vals stks (RsHeight (rs e1)) (RsRound (rs e1)) h1 (?C e1 h1)"
    "certificate env vals stks (RsHeight (rs e1)) (RsRound (rs e1)) h2 (?C e2 h2)"
    using precommit_certificate[OF v1 assms(8,11)] precommit_certificate[OF v2 assms(8,12)] assms(9,10) by simp_all
  obtain S where S: "S \<subseteq> set vals" "3 * (\<Sum>pk\<in>S. nat (stakeOf vals stks pk)) > (\<Sum>pk\<in>set vals. nat (stakeOf vals stks pk))"
    "\<forall>pk\<in>S. \<exists>v\<in>?C e1 h1. \<exists>w\<in>?C e2 h2. ValidatorPK v = pk \<and> ValidatorPK w = pk \<and> convicts env v w"
    using conflicting_certificates[OF c assms(13-15)] .
  have "int (\<Sum>pk\<in>set vals. nat (stakeOf vals stks pk)) < int (3 * (\<Sum>pk\<in>S. nat (stakeOf vals stks pk)))" using S(2) by linarith
  then have "sum_list stks < 3 * (\<Sum>pk\<in>S. stakeOf vals stks pk)"
    using int_stakes[OF assms(8)] stakeOf_total[OF assms(8)] by simp
  moreover have "\<exists>v w. (pk, v) \<in> set (Precommits (rs e1)) \<and> (pk, w) \<in> set (Precommits (rs e2)) \<and> convicts env v w \<and> ValidatorPK v = pk"
    if "pk \<in> S" for pk
  proof -
    from S(3) that obtain v w where vw: "v \<in> ?C e1 h1" "w \<in> ?C e2 h2" "ValidatorPK v = pk" "ValidatorPK w = pk" "convicts env v w" by blast
    moreover have "(pk, v) \<in> set (Precommits (rs e1))" "(pk, w) \<in> set (Precommits (rs e2))"
      using vw v1 v2 by (auto simp: votesOf_def)
    ultimately show ?thesis by blast
  qed
  ultimately show ?thesis using S(1) by (intro exI[of _ S]) (auto simp: convicts_def, metis)
qed

theorem consensus_fork_accountable_witness:
  "\<exists>S \<subseteq> {3 :: bytes32}. 3 * (\<Sum>pk\<in>S. stakeOf [3] [2000 * 10 ^ 18] pk) > 2000 * 10 ^ 18 \<and>
     (\<exists>v w. (3, v) \<in> set (Precommits (rs (sampleCounted 7))) \<and> (3, w) \<in> set (Precommits (rs (sampleCounted 9))) \<and> VBlockHash v \<noteq> VBlockHash w)"
proof -
  have q: "quorumBlock (Precommits (rs (sampleCounted h))) [3] [2000 * 10 ^ 18] = (h, True)" for h
    by (simp add: sample_precommits quorumBlock_def tallyVote_def stakeMap_def)
  have ord: "\<forall>vs. mset (envVotes sampleEnv vs) = mset vs" by (simp add: sampleEnv_def)
  have vok: "validators_ok [3] [2000 * 10 ^ 18]" by (simp add: validators_ok_def)
  have run: "nodeRun (sampleEnv\<lparr>envKp := envKp sampleEnv\<rparr>) sampleChain [] (sampleCounted 9)" using sample_counted[of 9] by simp
  have "\<exists>S \<subseteq> set [3 :: bytes32]. 3 * (\<Sum>pk\<in>S. stakeOf [3] [2000 * 10 ^ 18] pk) > sum_list [2000 * 10 ^ 18]"
    using consensus_fork_accountable[OF sample_counted[of 7] sample_bonded(1,3) run sample_bonded(1,3) ord vok _ _ q q]
    by (simp add: sample_precommits) blast
  then show ?thesis by (simp add: sample_precommits)
qed



text \<open>C35. One message of fewer than 550 bytes stops any validator, in any state of its engine: the proposal is parsed
  before its signature is looked at, and the parser of the transactions it carries indexes past the end of its
  input.\<close>

theorem consensus_proposal_crash:
  "length crashProposal < 550 \<and> engineStep n env (ProposalIn crashProposal) e = Some (Inl Panic)"
  by (simp add: engineStep_def parseProposal_def crash_proposal)
    (simp add: crashProposal_def codec_simps crashTx_panics DomainTxBatch_def str_def)



end
