(* ===== verification/FRG_Genesis.thy ===== *)
theory FRG_Genesis
  imports FRG_BlockLaws
begin

text \<open>Genesis (\<^verbatim>\<open>core/genesis/genesis.go\<close>): seeding balances, recording the total supply and bonding the first validators, and
  the default genesis that \<^verbatim>\<open>cmd/frg-node/main.go\<close> writes for a new node. Reading the file and its JSON are not modelled.\<close>


section \<open>Hexadecimal text\<close>

text \<open>\<^verbatim>\<open>hex.DecodeString\<close> and \<^verbatim>\<open>hex.EncodeToString\<close> of the standard library.\<close>

definition hexVal :: "byte \<Rightarrow> byte option" where
  "hexVal c = (if 48 \<le> c \<and> c \<le> 57 then Some (c - 48) else if 97 \<le> c \<and> c \<le> 102 then Some (c - 87)
     else if 65 \<le> c \<and> c \<le> 70 then Some (c - 55) else None)"

fun DecodeString :: "bytes \<Rightarrow> bytes option" where
  "DecodeString [] = Some []"
| "DecodeString [_] = None"
| "DecodeString (a # b # s) = (case (hexVal a, hexVal b, DecodeString s) of
     (Some x, Some y, Some r) \<Rightarrow> Some ((16 * x + y) # r) | _ \<Rightarrow> None)"

definition hexDigit :: "byte \<Rightarrow> byte" where
  "hexDigit x = (if x < 10 then 48 + x else 87 + x)"

definition EncodeToString :: "bytes \<Rightarrow> bytes" where
  "EncodeToString bs = concat (map (\<lambda>b. [hexDigit (b div 16), hexDigit (b mod 16)]) bs)"


section \<open>Genesis\<close>

record ValidatorEntry =
  VePubKey :: bytes
  VeBond :: bytes

record BalanceEntry =
  BeAccount :: bytes
  BeAmount :: bytes

record Genesis =
  GenChainID :: bytes
  GenValidators :: "ValidatorEntry list"
  GenBalances :: "BalanceEntry list"

definition decodeKey :: "bytes \<Rightarrow> string \<Rightarrow> bytes32 res" where
  "decodeKey hexValue label = (case DecodeString hexValue of
     None \<Rightarrow> Inl (GoError (''invalid '' @ label @ '': expected 32-byte hex''))
   | Some b \<Rightarrow> rguard (length b \<noteq> 32) (GoError (''invalid '' @ label @ '': expected 32-byte hex'')) (Inr (to32 b)))"

text \<open>The two loops of \<^verbatim>\<open>Apply\<close>. The map of genesis balances is kept in key order; only its sum is used.\<close>

definition seedEntry :: "BalanceEntry \<Rightarrow> LedgerDB \<times> (bytes32, int) bucket \<Rightarrow> (LedgerDB \<times> (bytes32, int) bucket) res" where
  "seedEntry entry st = (case st of (l, genesisBalances) \<Rightarrow>
     rbind (decodeKey (BeAccount entry) ''account'') (\<lambda>addr.
     case SetString (BeAmount entry) of None \<Rightarrow> Inl (GoError ''invalid amount string'')
     | Some amt \<Rightarrow> rbind (SeedTx l addr (Some amt)) (\<lambda>l. Inr (l, bput genesisBalances addr amt))))"

definition bondEntry :: "crypto \<Rightarrow> ValidatorEntry \<Rightarrow> StakeDB \<Rightarrow> StakeDB res" where
  "bondEntry C entry s =
     rbind (decodeKey (VePubKey entry) ''validator pubkey'') (\<lambda>pub.
     case SetString (VeBond entry) of None \<Rightarrow> Inl (GoError ''invalid bond string'')
     | Some amt \<Rightarrow> BondTx C s pub (Some amt) 0)"

text \<open>The writes are one transaction of the store: an error leaves the database as it was. Errors of the stores are
  wrapped with a prefix by the code and passed on here.\<close>

definition Apply :: "crypto \<Rightarrow> StateDB \<Rightarrow> Genesis \<Rightarrow> StateDB res" where
  "Apply C db g =
     rbind (CurrentHeight db) (\<lambda>height.
     if GenesisApplied db \<or> height > 0 then Inr db
     else rbind (rfold seedEntry (GenBalances g) (ledger (stake db), [])) (\<lambda>(l, genesisBalances).
       let totalSupply = sum_list (map snd genesisBalances) in
       rbind (SetTotalSupplyTx (db\<lparr>stake := (stake db)\<lparr>ledger := l\<rparr>\<rparr>) totalSupply) (\<lambda>db.
       rbind (rfold (bondEntry C) (GenValidators g) (stake db)) (\<lambda>s.
       Inr (MarkGenesisAppliedTx (db\<lparr>stake := s\<rparr>))))))"

text \<open>The genesis that a node without a genesis file writes for itself.\<close>

definition bootstrapGenesis :: "bytes \<Rightarrow> Keypair \<Rightarrow> Genesis" where
  "bootstrapGenesis chain k = \<lparr>GenChainID = chain,
     GenValidators = [\<lparr>VePubKey = EncodeToString (arr32 (PublicKey k)), VeBond = str ''1000000000000000000000''\<rparr>],
     GenBalances = [\<lparr>BeAccount = EncodeToString (arr32 (PublicKey k)), BeAmount = str ''10000000000000000000000''\<rparr>]\<rparr>"


section \<open>Laws\<close>

lemma hexDigits_all: "list_all (\<lambda>n. hexVal (hexDigit (of_nat n)) = Some (of_nat n)) [0..<16]"
  by code_simp

lemma hexVal_hexDigit: "x < 16 \<Longrightarrow> hexVal (hexDigit x) = Some x"
proof -
  assume "x < 16"
  then have "unat x \<in> set [0..<16]" by (simp add: word_less_nat_alt del: upt_rec_numeral)
  then have "hexVal (hexDigit (of_nat (unat x))) = Some (of_nat (unat x))" using hexDigits_all by (simp only: list_all_iff)
  then show ?thesis by simp
qed

lemma hex_byte:
  "hexVal (hexDigit (b div 16)) = Some (b div 16)" "hexVal (hexDigit (b mod 16)) = Some (b mod 16)" "16 * (b div 16) + b mod 16 = (b :: byte)"
proof -
  have "unat b < 256" using unsigned_less[of b, where 'a = nat] by simp
  then have "unat b div 16 < 16" by simp
  then have "b div 16 < 16" by (simp add: word_less_nat_alt unat_div)
  moreover have "b mod 16 < 16" by (simp add: word_less_nat_alt unat_mod)
  ultimately show "hexVal (hexDigit (b div 16)) = Some (b div 16)" "hexVal (hexDigit (b mod 16)) = Some (b mod 16)"
    by (simp_all add: hexVal_hexDigit)
  show "16 * (b div 16) + b mod 16 = b" by (rule mult_div_mod_eq)
qed

lemma DecodeString_Encode [simp]: "DecodeString (EncodeToString bs) = Some bs"
  by (induction bs) (simp_all add: EncodeToString_def hex_byte)

lemma decodeKey_Encode [simp]: "decodeKey (EncodeToString (arr32 k)) label = Inr k"
  by (simp add: decodeKey_def codec_simps A32.dec_enc_exact rguard_def)

lemma sum_bput:
  assumes "bucket_ok b"
  shows "sum_list (map snd (bput b k v)) = sum_list (map snd b) - (case bget b k of None \<Rightarrow> 0 | Some x \<Rightarrow> x) + (v :: int)"
  using assms
proof (induction b k v rule: bput.induct)
  case (2 k' v' b k v)
  have ok: "bucket_ok b" and gt: "\<forall>x\<in>fst ` set b. k' < x" using "2.prems" by (simp_all add: bucket_ok_def)
  have none: "bget b k = None" if "k < k'" using gt that by (force simp: bget_def map_of_eq_None_iff)
  show ?case using "2.IH"[OF _ _ ok] none by (auto simp: bget_def)
qed (simp add: bget_def)

text \<open>While balances are seeded into an empty ledger, the collected map is the ledger's content.\<close>

definition seeded :: "LedgerDB \<times> (bytes32, int) bucket \<Rightarrow> bool" where
  "seeded st \<longleftrightarrow> (case st of (l, bals) \<Rightarrow> ledger_ok l \<and> bucket_ok bals \<and> supplyOf l = sum_list (map snd bals) \<and>
     (\<forall>a. BalanceOfTx l a = (case bget bals a of None \<Rightarrow> 0 | Some v \<Rightarrow> v)))"

lemma SeedTx_law:
  assumes "ledger_ok l" "SeedTx l a (Some v) = Inr l'"
  shows "ledger_ok l' \<and> 0 \<le> v \<and> BalanceOfTx l' = (BalanceOfTx l)(a := v) \<and> supplyOf l' = supplyOf l - BalanceOfTx l a + v \<and> nonces l' = nonces l"
proof -
  from assms(2) have v: "0 \<le> v" "v \<le> UINT256_MAX" and l': "l' = l\<lparr>balances := bput (balances l) a (be_bytes 32 v)\<rparr>"
    by (auto simp: SeedTx_def setBalances_def writeBalance_eq res_simps split: if_splits)
  have "balances_ok (bput (balances l) a (be_bytes 32 v))" using assms(1) by (simp add: ledger_ok_def balances_ok_bput)
  then show ?thesis using assms(1) v
    by (simp add: l' ledger_ok_def BalanceOfTx_def fun_eq_iff readBalance_bput[OF v] totalBalances_bput[OF v])
qed

lemma seedEntry_seeded: "seeded st \<Longrightarrow> seedEntry x st = Inr st' \<Longrightarrow> seeded st'"
proof -
  assume st: "seeded st" and run: "seedEntry x st = Inr st'"
  obtain l bals where s: "st = (l, bals)" by fastforce
  from run obtain a v l' where s': "SeedTx l a (Some v) = Inr l'" "st' = (l', bput bals a v)"
    by (auto simp: seedEntry_def s rbind_Inr_iff split: option.splits)
  have "ledger_ok l" using st by (simp add: seeded_def s)
  from SeedTx_law[OF this s'(1)] st show ?thesis
    by (auto simp: seeded_def s s'(2) bucket_ok_bput sum_bput bget_bput)
qed

lemma bondEntry_law:
  assumes "stake_ok s" "bondEntry C x s = Inr s'"
  obtains pk v where "decodeKey (VePubKey x) ''validator pubkey'' = Inr pk" "SetString (VeBond x) = Some v"
    "recAt s pk = None" "recAt s' = (recAt s)(pk := Some (newBond v 0))" "stake_ok s'"
    "supplyOf (ledger s') = supplyOf (ledger s) + (if escrowAccount C pk = pk then v else 0)"
proof -
  from assms(2) obtain pk v where k: "decodeKey (VePubKey x) ''validator pubkey'' = Inr pk" "SetString (VeBond x) = Some v"
    and b: "BondTx C s pk (Some v) 0 = Inr s'" by (auto simp: bondEntry_def rbind_Inr_iff split: option.splits)
  have law: "recAt s pk = None" "moveAll (ledger s) pk (escrowAccount C pk) v = Inr (ledger s')"
    "recAt s' = (recAt s)(pk := Some (newBond v 0))" "stake_ok s'" by (rule BondTx_law[OF assms(1) b], simp)+
  moreover have "supplyOf (ledger s') = supplyOf (ledger s) + (if escrowAccount C pk = pk then v else 0)"
    using moveAll_law[OF _ law(2)] assms(1) by (auto simp: stake_ok_def)
  ultimately show thesis using k that by blast
qed

lemma bondEntries_law:
  assumes "rfold (bondEntry C) xs s = Inr s'" "stake_ok s"
    and "\<forall>x\<in>set xs. \<forall>pk. decodeKey (VePubKey x) ''validator pubkey'' = Inr pk \<longrightarrow> escrowAccount C pk \<noteq> pk"
  shows "stake_ok s' \<and> supplyOf (ledger s') = supplyOf (ledger s) \<and> (\<forall>pk r. recAt s pk = Some r \<longrightarrow> recAt s' pk = Some r) \<and>
    (\<forall>x\<in>set xs. \<exists>pk v. decodeKey (VePubKey x) ''validator pubkey'' = Inr pk \<and> SetString (VeBond x) = Some v \<and> recAt s' pk = Some (newBond v 0))"
  using assms
proof (induction xs arbitrary: s)
  case (Cons x xs)
  from Cons.prems(1) obtain s1 where s1: "bondEntry C x s = Inr s1" and rest: "rfold (bondEntry C) xs s1 = Inr s'"
    by (auto simp: rbind_Inr_iff)
  from bondEntry_law[OF Cons.prems(2) s1] obtain pk v where k: "decodeKey (VePubKey x) ''validator pubkey'' = Inr pk" "SetString (VeBond x) = Some v"
    and r: "recAt s pk = None" "recAt s1 = (recAt s)(pk := Some (newBond v 0))" and ok: "stake_ok s1"
    and tot: "supplyOf (ledger s1) = supplyOf (ledger s) + (if escrowAccount C pk = pk then v else 0)" by metis
  have ih: "stake_ok s' \<and> supplyOf (ledger s') = supplyOf (ledger s1) \<and> (\<forall>pk r. recAt s1 pk = Some r \<longrightarrow> recAt s' pk = Some r) \<and>
    (\<forall>x\<in>set xs. \<exists>pk v. decodeKey (VePubKey x) ''validator pubkey'' = Inr pk \<and> SetString (VeBond x) = Some v \<and> recAt s' pk = Some (newBond v 0))"
    using Cons.prems(3) by (intro Cons.IH[OF rest ok]) simp
  moreover have "recAt s' pk = Some (newBond v 0)" using ih r(2) by simp
  moreover have "recAt s' pk' = Some r'" if "recAt s pk' = Some r'" for pk' r'
    using ih r that by (metis fun_upd_apply option.distinct(1))
  moreover have "escrowAccount C pk \<noteq> pk" using Cons.prems(3) k(1) by simp
  ultimately show ?case using tot k by auto
qed simp

text \<open>C22. Genesis: on an empty ledger the recorded total supply is the sum of all balances, before and after the validators'
  bonds moved into escrow; every listed validator is bonded with its listed bond, and a genesis that has been applied is
  never applied again, whatever file is given. (A validator key must not be its own escrow account.)\<close>

theorem genesis_supply_exact:
  assumes "CurrentHeight db = Inr 0" "\<not> GenesisApplied db" "stake_ok (stake db)" "balances (ledger (stake db)) = []"
    and "\<forall>x\<in>set (GenValidators g). \<forall>pk. decodeKey (VePubKey x) ''validator pubkey'' = Inr pk \<longrightarrow> escrowAccount C pk \<noteq> pk"
    and "Apply C db g = Inr db'"
  shows "CurrentTotalSupply db' = (supplyOf (ledger (stake db')), True) \<and> stake_ok (stake db') \<and>
    (\<forall>x\<in>set (GenValidators g). \<exists>pk v. decodeKey (VePubKey x) ''validator pubkey'' = Inr pk \<and> SetString (VeBond x) = Some v \<and>
       recAt (stake db') pk = Some (newBond v 0)) \<and>
    CurrentHeight db' = Inr 0 \<and> Apply C db' g' = Inr db'"
proof -
  from assms(1,2,6) obtain l bals db1 s where seed: "rfold seedEntry (GenBalances g) (ledger (stake db), []) = Inr (l, bals)"
    and tot: "SetTotalSupplyTx (db\<lparr>stake := (stake db)\<lparr>ledger := l\<rparr>\<rparr>) (sum_list (map snd bals)) = Inr db1"
    and bond: "rfold (bondEntry C) (GenValidators g) (stake db1) = Inr s" and db': "db' = MarkGenesisAppliedTx (db1\<lparr>stake := s\<rparr>)"
    by (auto simp: Apply_def rbind_Inr_iff Let_def)
  have "seeded (ledger (stake db), [])"
    using assms(3,4) by (simp add: seeded_def stake_ok_def bucket_ok_def totalBalances_def BalanceOfTx_def readBalance_def bget_def)
  then have sd: "seeded (l, bals)" using rfold_invariant[OF seed, of seeded] seedEntry_seeded by blast
  have db1: "db1 = db\<lparr>stake := (stake db)\<lparr>ledger := l\<rparr>, meta := bput (meta db) totalSupplyKey (nat_bytes (sum_list (map snd bals)))\<rparr>"
    and pos: "0 \<le> sum_list (map snd bals)"
    using tot by (auto simp: SetTotalSupplyTx_def rguard_Inr_iff)
  have "stake_ok (stake db1)" using stake_ok_ledger[OF assms(3)] sd by (simp add: db1 seeded_def)
  note b = bondEntries_law[OF bond this assms(5)]
  have "GenesisApplied db'" by (simp add: db' GenesisApplied_def MarkGenesisAppliedTx_def bget_bput)
  moreover have h: "CurrentHeight db' = Inr 0" using assms(1) by (simp add: db' db1 CurrentHeight_def MarkGenesisAppliedTx_def bget_bput)
  moreover have "CurrentTotalSupply db' = (supplyOf (ledger (stake db')), True)"
    using b sd pos by (simp add: CurrentTotalSupply_def db' db1 MarkGenesisAppliedTx_def bget_bput seeded_def)
  ultimately show ?thesis using b by (simp add: Apply_def db' MarkGenesisAppliedTx_def)
qed


definition freshDB :: StateDB where
  "freshDB = NewStateMachine (NewStore NewLedger)"

lemma bootstrap_applies: "case Apply sample_crypto freshDB (bootstrapGenesis DefaultChainID \<lparr>PublicKey = 3, PrivateKey = 3\<rparr>) of Inr db \<Rightarrow> True | _ \<Rightarrow> False"
  by code_simp

theorem genesis_supply_exact_witness:
  "\<exists>db. Apply sample_crypto freshDB (bootstrapGenesis DefaultChainID \<lparr>PublicKey = 3, PrivateKey = 3\<rparr>) = Inr db \<and>
     CurrentTotalSupply db = (supplyOf (ledger (stake db)), True) \<and> recAt (stake db) 3 = Some (newBond (1000 * 10 ^ 18) 0)"
proof -
  let ?g = "bootstrapGenesis DefaultChainID \<lparr>PublicKey = 3, PrivateKey = 3\<rparr>"
  obtain db where db: "Apply sample_crypto freshDB ?g = Inr db" using bootstrap_applies by (auto split: sum.splits)
  have f: "CurrentHeight freshDB = Inr 0" "\<not> GenesisApplied freshDB" "stake_ok (stake freshDB)" "balances (ledger (stake freshDB)) = []"
    by (simp_all add: freshDB_def NewStateMachine_def NewStore_def NewLedger_def CurrentHeight_def GenesisApplied_def bget_bput bget_def stake_ok_def
        ledger_ok_def balances_ok_def bucket_ok_def)
  have sep: "escrowAccount sample_crypto 3 \<noteq> 3" by code_simp
  have bond: "SetString (str ''1000000000000000000000'') = Some (1000 * 10 ^ 18)" by code_simp
  have "\<forall>x\<in>set (GenValidators ?g). \<forall>pk. decodeKey (VePubKey x) ''validator pubkey'' = Inr pk \<longrightarrow> escrowAccount sample_crypto pk \<noteq> pk"
    using sep by (simp add: bootstrapGenesis_def)
  from genesis_supply_exact[OF f this db] db bond show ?thesis by (auto simp: bootstrapGenesis_def)
qed

end
