(* ===== verification/FRG_Sync.thy ===== *)
theory FRG_Sync
  imports FRG_Consensus FRG_BlockLaws
begin

text \<open>Block synchronisation: the wire protocol of \<^verbatim>\<open>core/p2p/blocksync.go\<close>, and the catch-up loop of
  \<^verbatim>\<open>cmd/frg-node/main.go\<close> that fetches blocks from several peers, validates them and applies what the peers
  agree on. Peers, streams and the context are parameters.\<close>


section \<open>The block sync protocol\<close>

definition blockSyncMagic :: bytes where
  "blockSyncMagic = str ''FRGSYNC'' @ [1]"

abbreviation (input) blockSyncVersion :: byte where "blockSyncVersion \<equiv> 1"
abbreviation (input) blockSyncMaxRange :: u64 where "blockSyncMaxRange \<equiv> 1024"
abbreviation (input) blockSyncMaxBlockBytes :: nat where "blockSyncMaxBlockBytes \<equiv> 67108864"
abbreviation (input) blockSyncMaxResponseBytes :: nat where "blockSyncMaxResponseBytes \<equiv> 134217728"

text \<open>\<^verbatim>\<open>io.ReadFull\<close> on the rest of a stream, and a call whose error the caller handles: a panic passes through it.\<close>

definition ReadFull :: "nat \<Rightarrow> bytes \<Rightarrow> (bytes \<times> bytes) res" where
  "ReadFull n r = rguard (length r < n) (GoError (if r = [] then ''EOF'' else ''unexpected EOF'')) (Inr (take n r, drop n r))"

definition handled :: "'a res \<Rightarrow> 'a option res" where
  "handled r = (case r of Inr x \<Rightarrow> Inr (Some x) | Inl e \<Rightarrow> if e = Panic then Inl Panic else Inr None)"

definition writeBlockSyncRequest :: "u64 \<Rightarrow> u64 \<Rightarrow> bytes" where
  "writeBlockSyncRequest fromH toH = blockSyncMagic @ [blockSyncVersion] @ PutUint64 fromH @ PutUint64 toH"

definition readBlockSyncRequest :: "bytes \<Rightarrow> (u64 \<times> u64) res" where
  "readBlockSyncRequest r =
     rbind (ReadFull 25 r) (\<lambda>(request, _).
      rguard (take 8 request \<noteq> blockSyncMagic \<or> request ! 8 \<noteq> blockSyncVersion) (GoError ''invalid block sync request'')
      (let fromH = Uint64 (drop 9 request); toH = Uint64 (drop 17 request) in
       rguard (toH < fromH \<or> toH - fromH \<ge> blockSyncMaxRange) (GoError ''invalid block sync range'')
       (Inr (fromH, toH))))"

text \<open>Writing a response gives the bytes sent before an error, and the error.\<close>

fun writeBlocks :: "bytes list \<Rightarrow> bytes \<times> goerr option" where
  "writeBlocks [] = ([], None)"
| "writeBlocks (block # blks) =
     (if length block = 0 \<or> length block > blockSyncMaxBlockBytes then ([], Some (GoError ''invalid block sync response block''))
      else (let (sent, e) = writeBlocks blks in (PutUint32 (of_nat (length block)) @ block @ sent, e)))"

definition writeBlockSyncResponse :: "bytes list \<Rightarrow> bytes \<times> goerr option" where
  "writeBlockSyncResponse blks = (let (sent, e) = writeBlocks blks in (PutUint32 (of_nat (length blks)) @ sent, e))"

fun readBlocks :: "nat \<Rightarrow> bytes \<Rightarrow> nat \<Rightarrow> bytes list res" where
  "readBlocks 0 r totalLen = Inr []"
| "readBlocks (Suc n) r totalLen =
     rbind (ReadFull 4 r) (\<lambda>(size, r).
      let len = unat (Uint32 size) in
      rguard (len = 0 \<or> len > blockSyncMaxBlockBytes \<or> totalLen + len > blockSyncMaxResponseBytes)
        (GoError ''block sync response exceeds limit'')
      (rbind (ReadFull len r) (\<lambda>(block, r).
       rbind (readBlocks n r (totalLen + len)) (\<lambda>blks. Inr (block # blks)))))"

definition readBlockSyncResponse :: "bytes \<Rightarrow> bytes list res" where
  "readBlockSyncResponse r =
     (let reader = take (blockSyncMaxResponseBytes + 4 + 4) r in
      rbind (ReadFull 4 reader) (\<lambda>(countBuf, reader).
      let n = Uint32 countBuf in
      rguard (n > 1024) (GoError ''block sync response count exceeds limit'') (readBlocks (unat n) reader 0)))"

lemma unat_inc: "h \<noteq> -1 \<Longrightarrow> unat (h + 1) = Suc (unat (h :: u64))"
  using unatSuc[of h] by (simp add: add.commute eq_neg_iff_add_eq_0)

text \<open>The serving side. A provider gives the serialized block of a height, if it has one.\<close>

type_synonym BlockProvider = "u64 \<Rightarrow> bytes option res"

function serveBlocks :: "BlockProvider \<Rightarrow> u64 \<Rightarrow> u64 \<Rightarrow> bytes list \<Rightarrow> nat \<Rightarrow> bytes list res" where
  "serveBlocks provider height toH blks totalLen =
     (if height > toH then Inr blks
      else rbind (handled (provider height)) (\<lambda>d. case d of
        Some (Some data) \<Rightarrow>
          (if length data = 0 \<or> length data > blockSyncMaxBlockBytes \<or> totalLen + length data > blockSyncMaxResponseBytes
           then Inr blks
           else if height = -1 then Inr (blks @ [data])
           else serveBlocks provider (height + 1) toH (blks @ [data]) (totalLen + length data))
      | _ \<Rightarrow> Inr blks))"
  by pat_completeness auto
termination
proof (relation "measure (\<lambda>(_, h, _). 2 ^ 64 - unat h)", goal_cases)
  case (2 provider height)
  moreover have "unat height < 2 ^ 64" using unsigned_less[of height] by simp
  moreover have "unat (height + 1) = Suc (unat height)" using 2 by (intro unat_inc)
  ultimately show ?case by (simp add: less_diff_conv)
qed simp

declare serveBlocks.simps [simp del]

definition handleBlockSync :: "BlockProvider option \<Rightarrow> bytes \<Rightarrow> bytes res" where
  "handleBlockSync provider stream =
     rbind (handled (readBlockSyncRequest stream)) (\<lambda>request. case request of
       None \<Rightarrow> Inr []
     | Some (fromH, toH) \<Rightarrow> (case provider of
         None \<Rightarrow> Inr (fst (writeBlockSyncResponse []))
       | Some provider \<Rightarrow> rbind (serveBlocks provider fromH toH [] 0) (\<lambda>blks. Inr (fst (writeBlockSyncResponse blks)))))"

text \<open>The asking side; \<open>stream\<close> is what the peer answers to the bytes of the request.\<close>

definition SyncBlocks :: "(bytes \<Rightarrow> bytes res) \<Rightarrow> u64 \<Rightarrow> u64 \<Rightarrow> bytes list res" where
  "SyncBlocks stream fromH toH =
     rguard (toH < fromH \<or> toH - fromH \<ge> blockSyncMaxRange) (GoError ''invalid block sync range'')
     (rbind (stream (writeBlockSyncRequest fromH toH)) readBlockSyncResponse)"

definition blockProvider :: "crypto \<Rightarrow> StateDB \<Rightarrow> BlockProvider" where
  "blockProvider C db height =
     rbind (BlockAt C db height) (\<lambda>block. case block of
       None \<Rightarrow> Inr None
     | Some block \<Rightarrow> rbind (SerializeBlock C block) (\<lambda>data. Inr (Some data)))"


section \<open>Catching up\<close>

text \<open>\<^verbatim>\<open>validateSyncedBlocks\<close>: a panic of a parser is a panic of the node, every other failure rejects the range.\<close>

definition validateSyncedBlock ::
  "crypto \<Rightarrow> bytes32 list \<Rightarrow> int list \<Rightarrow> bytes \<Rightarrow> u64 \<Rightarrow> bytes \<Rightarrow> Block option res" where
  "validateSyncedBlock C validators stakes chainID height raw =
     rbind (handled (DeserializeBlock C raw)) (\<lambda>block. case block of None \<Rightarrow> Inr None | Some block \<Rightarrow>
      if Height block \<noteq> height then Inr None
      else rbind (handled (DeserializeProposal C (ProposalBytes block))) (\<lambda>p. case p of None \<Rightarrow> Inr None | Some p \<Rightarrow>
       if \<not> VerifyProposalForChain C p chainID \<or> ProposerPK p \<notin> set validators \<or> PropHeight p \<noteq> Height block \<or>
          ProposerPK p \<noteq> ProposerPubKey block \<or> PropPrevStateRoot p \<noteq> PrevStateRoot block then Inr None
       else rbind (handled (SerializeBatch C (PropTxs p))) (\<lambda>proposalTxs.
            rbind (handled (SerializeBatch C (Txs block))) (\<lambda>blockTxs.
             if proposalTxs = None \<or> blockTxs = None \<or> proposalTxs \<noteq> blockTxs then Inr None
             else if AttVotes (PrevAttestations p) \<noteq> [] then
               rbind (handled (VerifyAttestationForChain C (Some (PrevAttestations p)) validators (map Some stakes) chainID))
                 (\<lambda>ok. Inr (if ok = None then None else Some block))
             else Inr (Some block)))))"

fun validateSyncedBlocks ::
  "crypto \<Rightarrow> bytes32 list \<Rightarrow> int list \<Rightarrow> bytes \<Rightarrow> bytes list \<Rightarrow> u64 \<Rightarrow> Block list option res" where
  "validateSyncedBlocks C validators stakes chainID [] height = Inr (Some [])"
| "validateSyncedBlocks C validators stakes chainID (raw # rawBlocks) height =
     rbind (validateSyncedBlock C validators stakes chainID height raw) (\<lambda>block. case block of
       None \<Rightarrow> Inr None
     | Some block \<Rightarrow> rbind (validateSyncedBlocks C validators stakes chainID rawBlocks (height + 1))
         (\<lambda>decoded. Inr (map_option ((#) block) decoded)))"

definition syncedBlockRangeKey :: "crypto \<Rightarrow> bytes list \<Rightarrow> bytes32" where
  "syncedBlockRangeKey C blks =
     sha256 C (arr32 (sha256 C (concat (map (\<lambda>block. PutUint64 (of_nat (length block)) @ block) blks))))"

text \<open>The network as the loop sees it: the peers connected in a pass, what each answers in an attempt to the bytes of a
  request, whether the context has ended (index 3 is the check after a pass), and the order in which the map of
  candidates is visited.\<close>

type_synonym candidates = "(bytes32, Block list \<times> nat) bucket"

record 'p SyncNet =
  netPeers :: "nat \<Rightarrow> 'p list"
  netAnswer :: "nat \<Rightarrow> nat \<Rightarrow> 'p \<Rightarrow> bytes \<Rightarrow> bytes res"
  netDone :: "nat \<Rightarrow> nat \<Rightarrow> bool"
  netOrder :: "(Block list \<times> nat) list \<Rightarrow> (Block list \<times> nat) list"

definition askPeer ::
  "EngineEnv \<Rightarrow> bytes32 list \<Rightarrow> int list \<Rightarrow> (bytes \<Rightarrow> bytes res) \<Rightarrow> u64 \<Rightarrow> u64 \<Rightarrow> candidates \<times> nat \<Rightarrow> (candidates \<times> nat) res" where
  "askPeer env validators stakes stream fromH toH = (\<lambda>(cands, candidateCount).
     rbind (handled (SyncBlocks stream fromH toH)) (\<lambda>rawBlocks. case rawBlocks of
       None \<Rightarrow> Inr (cands, candidateCount)
     | Some rawBlocks \<Rightarrow>
        if rawBlocks = [] then Inr (cands, candidateCount)
        else rbind (validateSyncedBlocks (envC env) validators stakes (envChain env) rawBlocks fromH) (\<lambda>decoded. case decoded of
          None \<Rightarrow> Inr (cands, candidateCount)
        | Some decoded \<Rightarrow>
            (let key = syncedBlockRangeKey (envC env) rawBlocks;
                 n = (case bget cands key of None \<Rightarrow> 0 | Some (_, n) \<Rightarrow> n) in
             Inr (bput cands key (decoded, n + 1), candidateCount + 1)))))"

definition bestCandidate :: "(Block list \<times> nat) list \<Rightarrow> Block list option \<times> nat" where
  "bestCandidate = foldl (\<lambda>(selected, selectedCount) (blks, n). if n > selectedCount then (Some blks, n) else (selected, selectedCount)) (None, 0)"

fun selectBlocks ::
  "EngineEnv \<Rightarrow> 'p SyncNet \<Rightarrow> bytes32 list \<Rightarrow> int list \<Rightarrow> nat \<Rightarrow> u64 \<Rightarrow> u64 \<Rightarrow> nat list \<Rightarrow> nat \<Rightarrow> (Block list option \<times> nat) res" where
  "selectBlocks env net validators stakes pass fromH toH [] candidateCount = Inr (None, candidateCount)"
| "selectBlocks env net validators stakes pass fromH toH (attempt # attempts) candidateCount =
     rbind (rfold (\<lambda>p. askPeer env validators stakes (netAnswer net pass attempt p) fromH toH) (netPeers net pass) ([], 0))
       (\<lambda>(cands, candidateCount).
        let (selected, selectedCount) = bestCandidate (netOrder net (map snd cands)) in
        if selected \<noteq> None \<and> (candidateCount = 1 \<or> selectedCount \<ge> 2) then Inr (selected, candidateCount)
        else rguard (attempt < 2 \<and> netDone net pass attempt) (GoError ''context ended'')
          (selectBlocks env net validators stakes pass fromH toH attempts candidateCount))"

fun applySynced :: "EngineEnv \<Rightarrow> StateDB \<Rightarrow> Block list \<Rightarrow> StateDB \<times> goerr option" where
  "applySynced env db [] = (db, None)"
| "applySynced env db (block # blks) =
     (case ApplyBlockForChain (envC env) (envW env) (envB env) (envJ env) (envIter env) db block (envChain env) of
        Inl e \<Rightarrow> (db, Some e)
      | Inr (db', _) \<Rightarrow> applySynced env db' blks)"

definition syncTo :: "u64 \<Rightarrow> u64" where
  "syncTo fromH = (let toH = fromH + 1023 in if toH < fromH then -1 else toH)"

partial_function (option) catchUpLoop ::
  "EngineEnv \<Rightarrow> 'p SyncNet \<Rightarrow> bytes32 list \<Rightarrow> int list \<Rightarrow> nat \<Rightarrow> StateDB \<Rightarrow> (StateDB \<times> goerr option) option" where
  "catchUpLoop env net validators stakes pass db =
     (case CurrentHeight db of Inl e \<Rightarrow> Some (db, Some e) | Inr current \<Rightarrow>
      if current = -1 \<or> netPeers net pass = [] then Some (db, None)
      else (case selectBlocks env net validators stakes pass (current + 1) (syncTo (current + 1)) [0, 1, 2] 0 of
        Inl e \<Rightarrow> Some (db, Some e)
      | Inr (None, candidateCount) \<Rightarrow> Some (db, if candidateCount = 0 then None else Some (GoError ''connected peers did not agree on blocks''))
      | Inr (Some selected, _) \<Rightarrow> (case applySynced env db selected of
          (db', Some e) \<Rightarrow> Some (db', Some e)
        | (db', None) \<Rightarrow> if netDone net pass 3 then Some (db', Some (GoError ''context ended''))
            else catchUpLoop env net validators stakes (pass + 1) db')))"

definition catchUpCommittedBlocks :: "EngineEnv \<Rightarrow> 'p SyncNet \<Rightarrow> StateDB \<Rightarrow> (StateDB \<times> goerr option) option" where
  "catchUpCommittedBlocks env net db =
     (case BondedAmounts (stake db) of Inl e \<Rightarrow> Some (db, Some e)
      | Inr (validators, stakes) \<Rightarrow> catchUpLoop env net validators stakes 0 db)"


section \<open>The wire format\<close>

lemma handled_simps [simp]:
  "handled (Inr x) = Inr (Some x)"
  "handled r = Inr (Some x) \<longleftrightarrow> r = Inr x"
  by (auto simp: handled_def split: sum.splits if_splits)

lemma readBlockSyncRequest_write:
  assumes "fromH \<le> toH" "toH - fromH < 1024"
  shows "readBlockSyncRequest (writeBlockSyncRequest fromH toH) = Inr (fromH, toH)"
proof -
  have "length blockSyncMagic = 8" by (simp add: blockSyncMagic_def str_def)
  moreover have "\<not> toH < fromH" "\<not> 1024 \<le> toH - fromH" using assms by (simp_all add: not_less not_le)
  ultimately show ?thesis
    by (simp add: readBlockSyncRequest_def writeBlockSyncRequest_def ReadFull_def nth_append Let_def codec_simps)
qed

definition wireSize :: "bytes list \<Rightarrow> nat" where
  "wireSize blks = sum_list (map (\<lambda>b. 4 + length b) blks)"

definition servable :: "bytes list \<Rightarrow> bool" where
  "servable blks \<longleftrightarrow> (\<forall>b\<in>set blks. 0 < length b \<and> length b \<le> blockSyncMaxBlockBytes) \<and> sum_list (map length blks) \<le> blockSyncMaxResponseBytes"

lemma wireSize_eq: "wireSize blks = sum_list (map length blks) + 4 * length blks"
  by (induction blks) (simp_all add: wireSize_def)

lemma readBlocks_short:
  assumes "\<forall>b\<in>set blks. 0 < length b \<and> length b \<le> blockSyncMaxBlockBytes"
    and "tot + sum_list (map length blks) \<le> blockSyncMaxResponseBytes"
  shows "if wireSize blks \<le> k then readBlocks (length blks) (take k (fst (writeBlocks blks))) tot = Inr blks
    else \<exists>e. readBlocks (length blks) (take k (fst (writeBlocks blks))) tot = Inl (GoError e)"
  using assms
proof (induction blks arbitrary: k tot)
  case (Cons b bs)
  from Cons.prems have l: "0 < length b" "length b \<le> 67108864" "tot + length b \<le> blockSyncMaxResponseBytes" by simp_all
  define w where "w = fst (writeBlocks bs)"
  have wr: "fst (writeBlocks (b # bs)) = PutUint32 (of_nat (length b)) @ b @ w" using l by (simp add: w_def split_beta)
  have len: "unat (of_nat (length b) :: u32) = length b" using l by (simp add: unat_of_nat)
  have ih: "if wireSize bs \<le> k - (4 + length b) then readBlocks (length bs) (take (k - (4 + length b)) w) (tot + length b) = Inr bs
    else \<exists>e. readBlocks (length bs) (take (k - (4 + length b)) w) (tot + length b) = Inl (GoError e)"
    unfolding w_def using Cons.prems by (intro Cons.IH) simp_all
  have sz: "wireSize (b # bs) = 4 + length b + wireSize bs" by (simp add: wireSize_def)
  consider "k < 4" | "4 \<le> k" "k < 4 + length b" | "4 + length b \<le> k" by linarith
  then show ?case
  proof cases
    case 1
    then show ?thesis using sz unfolding wr by (simp add: ReadFull_def)
  next
    case 2
    then have "k - 4 < length b" by simp
    then show ?thesis using 2 sz len l unfolding wr by (auto simp: ReadFull_def Let_def codec_simps)
  next
    case 3
    then have r: "readBlocks (length (b # bs)) (take k (fst (writeBlocks (b # bs)))) tot =
      rbind (readBlocks (length bs) (take (k - (4 + length b)) w) (tot + length b)) (\<lambda>blks. Inr (b # blks))"
      using len l unfolding wr by (simp add: ReadFull_def Let_def codec_simps)
    show ?thesis unfolding r sz using ih 3 by (auto split: if_splits)
  qed
qed (simp add: wireSize_def)

lemma readResponse_write:
  assumes "servable blks" "length blks \<le> 1024"
  shows "if wireSize blks \<le> blockSyncMaxResponseBytes + 4 then readBlockSyncResponse (fst (writeBlockSyncResponse blks)) = Inr blks
    else \<exists>e. readBlockSyncResponse (fst (writeBlockSyncResponse blks)) = Inl (GoError e)"
proof -
  define w where "w = fst (writeBlocks blks)"
  have n: "unat (of_nat (length blks) :: u32) = length blks" using assms(2) by (simp add: unat_of_nat)
  then have "\<not> (of_nat (length blks) :: u32) > 1024" using assms(2) by (simp add: word_less_nat_alt)
  with n have "readBlockSyncResponse (fst (writeBlockSyncResponse blks)) = readBlocks (length blks) (take (blockSyncMaxResponseBytes + 4) w) 0"
    by (simp add: readBlockSyncResponse_def writeBlockSyncResponse_def ReadFull_def Let_def codec_simps split_beta w_def)
  then show ?thesis using readBlocks_short[of blks 0 "blockSyncMaxResponseBytes + 4", folded w_def] assms(1)
    by (simp add: servable_def split: if_splits)
qed


section \<open>Serving\<close>

lemma serveBlocks_cases:
  assumes "serveBlocks provider h toH blks tot = Inr out"
  obtains "out = blks" | data where "h \<le> toH" "provider h = Inr (Some data)"
      "0 < length data" "length data \<le> blockSyncMaxBlockBytes" "tot + length data \<le> blockSyncMaxResponseBytes"
      "if h = -1 then out = blks @ [data] else serveBlocks provider (h + 1) toH (blks @ [data]) (tot + length data) = Inr out"
proof (cases "h > toH")
  case True
  then show thesis using assms that(1) by (simp add: serveBlocks.simps[of provider h])
next
  case False
  with assms obtain d where d: "handled (provider h) = Inr d" by (auto simp: serveBlocks.simps[of provider h] rbind_Inr_iff)
  show thesis
  proof (cases "\<exists>data. d = Some (Some data)")
    case True
    then obtain data where "d = Some (Some data)" by blast
    with d assms False that show thesis
      by (auto simp: serveBlocks.simps[of provider h] not_less split: if_splits)
  next
    case no: False
    have "out = blks" using assms False no by (auto simp: serveBlocks.simps[of provider h] d split: option.splits)
    then show thesis by (rule that(1))
  qed
qed

lemma serveBlocks_spec:
  assumes "serveBlocks provider h toH blks tot = Inr out" "tot = sum_list (map length blks)" "servable blks"
  shows "\<exists>xs. out = blks @ xs \<and> servable out \<and> length xs \<le> (if h \<le> toH then Suc (unat (toH - h)) else 0) \<and>
    (\<forall>i<length xs. provider (h + of_nat i) = Inr (Some (xs ! i)))"
  using assms
proof (induction provider h toH blks tot rule: serveBlocks.induct)
  case (1 provider h toH blks tot)
  from "1.prems"(1) show ?case
  proof (cases rule: serveBlocks_cases)
    case 1
    then show ?thesis using "1.prems"(3) by simp
  next
    case (2 data)
    then have sv: "servable (blks @ [data])" using "1.prems" by (simp add: servable_def)
    show ?thesis
    proof (cases "h = -1")
      case True
      then show ?thesis using 2 sv by (intro exI[of _ "[data]"]) simp
    next
      case False
      have "tot + length data = sum_list (map length (blks @ [data]))" using "1.prems"(2) by simp
      moreover have "\<not> h > toH" "\<not> (length data = 0 \<or> length data > blockSyncMaxBlockBytes \<or> tot + length data > blockSyncMaxResponseBytes)"
        using 2 by auto
      ultimately obtain xs where xs: "out = (blks @ [data]) @ xs" "servable out"
          "length xs \<le> (if h + 1 \<le> toH then Suc (unat (toH - (h + 1))) else 0)"
          "\<forall>i<length xs. provider (h + 1 + of_nat i) = Inr (Some (xs ! i))"
        using "1.IH"[of "Some (Some data)" "Some data" data] 2 sv False by auto
      have "provider (h + of_nat i) = Inr (Some ((data # xs) ! i))" if "i < length (data # xs)" for i
        using that 2(2) xs(4) by (cases i) (simp_all add: add.assoc)
      moreover have "length (data # xs) \<le> Suc (unat (toH - h))"
        using xs(3) 2(1) False by (auto simp: unat_sub unat_inc word_le_nat_alt split: if_splits)
      ultimately show ?thesis using xs 2(1) by (intro exI[of _ "data # xs"]) auto
    qed
  qed
qed

text \<open>C36. Asking a peer for blocks: an honest peer answers a valid request with the blocks it has from the first height on, in
  order and without a gap, and the node reads exactly these blocks from the wire, as long as the sizes in front of the
  blocks fit the limit of the reader as well. The peer counts the blocks only, so an answer of two blocks or more that comes within
  the bytes of these sizes of the limit is sent and cannot be read.\<close>

theorem sync_honest_answer:
  assumes "fromH \<le> toH" "toH - fromH < 1024" "serveBlocks provider fromH toH [] 0 = Inr blks"
  shows "(if sum_list (map length blks) + 4 * length blks \<le> blockSyncMaxResponseBytes + 4
      then SyncBlocks (handleBlockSync (Some provider)) fromH toH = Inr blks
      else \<exists>e. SyncBlocks (handleBlockSync (Some provider)) fromH toH = Inl (GoError e)) \<and>
    length blks \<le> 1024 \<and> (\<forall>i<length blks. provider (fromH + of_nat i) = Inr (Some (blks ! i)))"
proof -
  have "servable []" by (simp add: servable_def)
  with serveBlocks_spec[OF assms(3)] assms(1) have s: "servable blks" "length blks \<le> Suc (unat (toH - fromH))"
      "\<forall>i<length blks. provider (fromH + of_nat i) = Inr (Some (blks ! i))" by auto
  moreover have "unat (toH - fromH) < 1024" using assms(2) by (simp add: word_less_nat_alt)
  ultimately have n: "length blks \<le> 1024" by simp
  have "\<not> toH < fromH" "\<not> 1024 \<le> toH - fromH" using assms(1,2) by (simp_all add: not_less not_le)
  then have "SyncBlocks (handleBlockSync (Some provider)) fromH toH = readBlockSyncResponse (fst (writeBlockSyncResponse blks))"
    using readBlockSyncRequest_write[OF assms(1,2)] assms(3) by (simp add: SyncBlocks_def handleBlockSync_def)
  with readResponse_write[OF s(1) n] n s(3) show ?thesis by (simp add: wireSize_eq)
qed

theorem sync_honest_answer_witness:
  "\<exists>blks. serveBlocks (\<lambda>h. Inr (if h < 3 then Some [ucast h] else None)) 1 5 [] 0 = Inr blks \<and> blks = [[1], [2]] \<and>
     SyncBlocks (handleBlockSync (Some (\<lambda>h. Inr (if h < 3 then Some [ucast h] else None)))) 1 5 = Inr blks"
proof -
  have s: "serveBlocks (\<lambda>h. Inr (if h < 3 then Some [ucast h] else None)) 1 5 [] 0 = Inr [[1], [2]]"
    by code_simp
  from sync_honest_answer[OF _ _ s] s show ?thesis by simp
qed


section \<open>What catching up accepts\<close>

lemma handled_bind:
  "rbind (handled r) f = Inr y \<longleftrightarrow> (\<exists>x. r = Inr x \<and> f (Some x) = Inr y) \<or> (\<exists>e. r = Inl e \<and> e \<noteq> Panic \<and> f None = Inr y)"
  by (auto simp: handled_def split: sum.splits if_splits)

definition proposedBy :: "crypto \<Rightarrow> bytes \<Rightarrow> bytes32 list \<Rightarrow> Block \<Rightarrow> bool" where
  "proposedBy C chainID vals b \<longleftrightarrow> (\<exists>p d. DeserializeProposal C (ProposalBytes b) = Inr p \<and> VerifyProposalForChain C p chainID \<and>
     ProposerPK p \<in> set vals \<and> ProposerPK p = ProposerPubKey b \<and> PropHeight p = Height b \<and> PropPrevStateRoot p = PrevStateRoot b \<and>
     SerializeBatch C (PropTxs p) = Inr d \<and> SerializeBatch C (Txs b) = Inr d)"

lemma validateSyncedBlock_proposed:
  assumes "validateSyncedBlock C vals stakes chainID h raw = Inr (Some b)"
  shows "proposedBy C chainID vals b \<and> Height b = h"
proof -
  obtain blk where b: "DeserializeBlock C raw = Inr blk" "Height blk = h"
    using assms by (auto simp: validateSyncedBlock_def handled_bind split: if_split_asm)
  obtain p where p: "DeserializeProposal C (ProposalBytes blk) = Inr p"
    using assms b by (auto simp: validateSyncedBlock_def handled_bind)
  let ?bad = "\<not> VerifyProposalForChain C p chainID \<or> ProposerPK p \<notin> set vals \<or> PropHeight p \<noteq> Height blk \<or>
          ProposerPK p \<noteq> ProposerPubKey blk \<or> PropPrevStateRoot p \<noteq> PrevStateRoot blk"
  have ok: "\<not> ?bad"
  proof
    assume ?bad
    with assms b p show False by (simp add: validateSyncedBlock_def)
  qed
  have rest: "rbind (handled (SerializeBatch C (PropTxs p))) (\<lambda>proposalTxs. rbind (handled (SerializeBatch C (Txs blk))) (\<lambda>blockTxs.
      if proposalTxs = None \<or> blockTxs = None \<or> proposalTxs \<noteq> blockTxs then Inr None
      else if AttVotes (PrevAttestations p) \<noteq> [] then
        rbind (handled (VerifyAttestationForChain C (Some (PrevAttestations p)) vals (map Some stakes) chainID))
          (\<lambda>ok. Inr (if ok = None then None else Some blk)) else Inr (Some blk))) = Inr (Some b)"
    using assms b p ok by (simp add: validateSyncedBlock_def)
  have "(\<exists>d. SerializeBatch C (PropTxs p) = Inr d \<and> SerializeBatch C (Txs blk) = Inr d) \<and> b = blk"
    using rest unfolding handled_bind by (simp split: if_split_asm) (auto simp: rbind_Inr_iff split: if_split_asm)
  then obtain d where "SerializeBatch C (PropTxs p) = Inr d" "SerializeBatch C (Txs blk) = Inr d" "b = blk" by blast
  with ok b(2) p show ?thesis unfolding proposedBy_def by blast
qed

lemma validateSyncedBlocks_proposed:
  assumes "validateSyncedBlocks C vals stakes chainID raws h = Inr (Some bs)"
  shows "length bs = length raws \<and> (\<forall>b\<in>set bs. proposedBy C chainID vals b)"
  using assms
proof (induction raws arbitrary: h bs)
  case (Cons raw raws)
  then obtain b bs' where "validateSyncedBlock C vals stakes chainID h raw = Inr (Some b)"
    "validateSyncedBlocks C vals stakes chainID raws (h + 1) = Inr (Some bs')" "bs = b # bs'"
    by (auto simp: rbind_Inr_iff split: option.splits)
  with Cons.IH show ?case using validateSyncedBlock_proposed by fastforce
qed simp

definition goodCandidate :: "EngineEnv \<Rightarrow> bytes32 list \<Rightarrow> Block list \<Rightarrow> bool" where
  "goodCandidate env vals bs \<longleftrightarrow> bs \<noteq> [] \<and> (\<forall>b\<in>set bs. proposedBy (envC env) (envChain env) vals b)"

lemma askPeer_good:
  assumes "askPeer env vals stakes stream fromH toH c = Inr c'" "\<forall>x\<in>set (map snd (fst c)). goodCandidate env vals (fst x)"
  shows "\<forall>x\<in>set (map snd (fst c')). goodCandidate env vals (fst x)"
proof -
  obtain cands n where c: "c = (cands, n)" by fastforce
  have "fst c' = cands \<or> (\<exists>key bs m. fst c' = bput cands key (bs, m) \<and> goodCandidate env vals bs)"
  proof (cases "\<exists>raws bs. SyncBlocks stream fromH toH = Inr raws \<and> raws \<noteq> [] \<and>
      validateSyncedBlocks (envC env) vals stakes (envChain env) raws fromH = Inr (Some bs)")
    case True
    then obtain raws bs where r: "SyncBlocks stream fromH toH = Inr raws" "raws \<noteq> []"
      "validateSyncedBlocks (envC env) vals stakes (envChain env) raws fromH = Inr (Some bs)" by blast
    have "goodCandidate env vals bs" using validateSyncedBlocks_proposed[OF r(3)] r(2) by (auto simp: goodCandidate_def)
    moreover have "fst c' = bput cands (syncedBlockRangeKey (envC env) raws)
        (bs, (case bget cands (syncedBlockRangeKey (envC env) raws) of None \<Rightarrow> 0 | Some (_, n) \<Rightarrow> n) + 1)"
      using assms(1) r by (auto simp: askPeer_def c Let_def)
    ultimately show ?thesis by blast
  next
    case False
    then show ?thesis using assms(1)
      by (auto simp: askPeer_def c handled_bind rbind_Inr_iff split: if_split_asm option.split_asm)
  qed
  then consider "fst c' = cands" | key bs m where "fst c' = bput cands key (bs, m)" "goodCandidate env vals bs" by blast
  then show ?thesis
  proof cases
    case 2
    then show ?thesis using assms(2) c set_bput_subset[of cands key "(bs, m)"] by fastforce
  qed (use assms(2) c in simp)
qed


lemma bestCandidate_in:
  assumes "bestCandidate cs = (Some bs, n)"
  shows "\<exists>x\<in>set cs. fst x = bs"
proof -
  have "fst (foldl (\<lambda>(selected, selectedCount) (blks, n). if n > selectedCount then (Some blks, n) else (selected, selectedCount)) a cs)
      \<in> insert (fst a) (Some ` fst ` set cs)" for a :: "Block list option \<times> nat"
  proof (induction cs arbitrary: a)
    case (Cons c cs)
    show ?case using Cons.IH[of "if snd c > snd a then (Some (fst c), snd c) else a"]
      by (cases a; cases c) (auto split: if_splits)
  qed simp
  from this[of "(None, 0)"] assms show ?thesis unfolding bestCandidate_def by force
qed

lemma selectBlocks_good:
  assumes "selectBlocks env net vals stakes pass fromH toH as cc = Inr (Some bs, n)" "\<forall>xs. mset (netOrder net xs) = mset xs"
  shows "goodCandidate env vals bs"
  using assms(1)
proof (induction as arbitrary: cc)
  case (Cons a as)
  then obtain cands cc' where f: "rfold (\<lambda>p. askPeer env vals stakes (netAnswer net pass a p) fromH toH) (netPeers net pass) ([], 0) = Inr (cands, cc')"
    by (auto simp: rbind_Inr_iff)
  have good: "\<forall>x\<in>set (map snd (fst (cands, cc'))). goodCandidate env vals (fst x)"
  proof (rule rfold_invariant[OF f], goal_cases)
    case (2 x s t)
    from askPeer_good[OF 2(3,2)] show ?case .
  qed simp
  obtain sel k where best: "bestCandidate (netOrder net (map snd cands)) = (sel, k)" by fastforce
  show ?case
  proof (cases "sel \<noteq> None \<and> (cc' = 1 \<or> k \<ge> 2)")
    case True
    then have "sel = Some bs" using Cons.prems f best by (simp del: not_None_eq split: if_split_asm)
    from bestCandidate_in[OF best[unfolded this]] obtain x where "x \<in> set (netOrder net (map snd cands))" "fst x = bs" by blast
    moreover from this(1) have "x \<in> set (map snd cands)" using mset_eq_setD[OF assms(2)[rule_format]] by blast
    ultimately show ?thesis using good by (metis fst_conv)
  next
    case False
    have "selectBlocks env net vals stakes pass fromH toH as cc' = Inr (Some bs, n)"
      using Cons.prems f best False by (simp add: rguard_Inr_iff del: not_None_eq split: if_split_asm)
    then show ?thesis by (rule Cons.IH)
  qed
qed simp


section \<open>The loop\<close>

lemma applied_height:
  assumes "ApplyBlockForChain C W B J iter db b chainID = Inr (db', res)"
  shows "CurrentHeight db = Inr (Height b - 1) \<and> CurrentHeight db' = Inr (Height b)"
proof (rule ApplyBlock_outcome[OF assms], goal_cases)
  case (1 vals amts supplyIn tracked mintAmt pre st nodes tr l1 gas s2 slash l3 d)
  have "CurrentHeight db' = Inr (Height b)" by (rule CurrentHeight_after) (simp add: 1(12) metaAfter_reads)
  with 1(1) show ?case by simp
qed

lemma applySynced_height:
  assumes "applySynced env db bs = (db', None)" "CurrentHeight db = Inr h"
  shows "CurrentHeight db' = Inr (h + of_nat (length bs))"
  using assms
proof (induction bs arbitrary: db h)
  case (Cons b bs)
  then obtain d r where a: "ApplyBlockForChain (envC env) (envW env) (envB env) (envJ env) (envIter env) db b (envChain env) = Inr (d, r)"
    and rest: "applySynced env d bs = (db', None)" by (auto split: sum.splits)
  from applied_height[OF a] Cons.prems(2) have "CurrentHeight d = Inr (h + 1)" by (auto simp: algebra_simps)
  from Cons.IH[OF rest this] show ?case by (simp add: algebra_simps)
qed simp

lemma applySynced_prefix:
  "\<exists>n. applySynced env db (take n bs) = (fst (applySynced env db bs), None)"
proof (induction bs arbitrary: db)
  case (Cons b bs)
  show ?case
  proof (cases "ApplyBlockForChain (envC env) (envW env) (envB env) (envJ env) (envIter env) db b (envChain env)")
    case (Inl e)
    then show ?thesis by (intro exI[of _ 0]) simp
  next
    case (Inr r)
    from Cons.IH[of "fst r"] obtain n where "applySynced env (fst r) (take n bs) = (fst (applySynced env (fst r) bs), None)" by blast
    with Inr show ?thesis by (intro exI[of _ "Suc n"]) (simp add: split_beta)
  qed
qed simp

lemma applySynced_append:
  "applySynced env db xs = (d, None) \<Longrightarrow> applySynced env db (xs @ ys) = applySynced env d ys"
  by (induction xs arbitrary: db) (auto split: sum.splits)

definition synced :: "EngineEnv \<Rightarrow> bytes32 list \<Rightarrow> StateDB \<Rightarrow> StateDB \<Rightarrow> bool" where
  "synced env vals db db' \<longleftrightarrow> (\<exists>bs. applySynced env db bs = (db', None) \<and> (\<forall>b\<in>set bs. proposedBy (envC env) (envChain env) vals b))"

lemma synced_refl: "synced env vals db db"
  unfolding synced_def by (intro exI[of _ "[]"]) simp

lemma synced_trans: "synced env vals db d \<Longrightarrow> synced env vals d db' \<Longrightarrow> synced env vals db db'"
  unfolding synced_def by (metis applySynced_append Un_iff set_append)

lemma synced_selected:
  assumes "goodCandidate env vals bs" "applySynced env db bs = (db', e)"
  shows "synced env vals db db'"
proof -
  obtain n where "applySynced env db (take n bs) = (db', None)" using applySynced_prefix[of env db bs] assms(2) by auto
  moreover have "\<forall>b\<in>set (take n bs). proposedBy (envC env) (envChain env) vals b"
    using assms(1) by (auto simp: goodCandidate_def dest: in_set_takeD)
  ultimately show ?thesis unfolding synced_def by blast
qed

text \<open>One pass returns, or goes on from a database that differs by accepted blocks.\<close>

lemma catchUpLoop_pass:
  assumes "\<forall>xs. mset (netOrder net xs) = mset xs"
  obtains db' err where "catchUpLoop env net vals stakes pass db = Some (db', err)" "synced env vals db db'"
  | d where "catchUpLoop env net vals stakes pass db = catchUpLoop env net vals stakes (pass + 1) d"
      "synced env vals db d" "\<not> netDone net pass 3"
proof (cases "CurrentHeight db")
  case (Inl e)
  then show thesis using that(1) synced_refl by (simp add: catchUpLoop.simps[of env net vals stakes pass db])
next
  case h: (Inr current)
  note unf = catchUpLoop.simps[of env net vals stakes pass db]
  let ?sel = "selectBlocks env net vals stakes pass (current + 1) (syncTo (current + 1)) [0, 1, 2] 0"
  consider "current = -1 \<or> netPeers net pass = []" | e where "\<not> (current = -1 \<or> netPeers net pass = [])" "?sel = Inl e"
    | n where "\<not> (current = -1 \<or> netPeers net pass = [])" "?sel = Inr (None, n)"
    | bs n where "\<not> (current = -1 \<or> netPeers net pass = [])" "?sel = Inr (Some bs, n)"
    by (metis obj_sumE option.exhaust surj_pair)
  then show thesis
  proof cases
    case (4 bs n)
    obtain d e where a: "applySynced env db bs = (d, e)" by fastforce
    from synced_selected[OF selectBlocks_good[OF 4(2) assms] a] have s: "synced env vals db d" .
    show thesis
    proof (cases "e = None \<and> \<not> netDone net pass 3")
      case True
      then show thesis using that(2)[OF _ s] unf h 4 a by (simp del: selectBlocks.simps)
    next
      case False
      then show thesis using that(1)[OF _ s] unf h 4 a by (cases e) (auto simp del: selectBlocks.simps)
    qed
  qed (use that(1)[OF _ synced_refl] unf h in \<open>auto simp del: selectBlocks.simps\<close>)
qed

lemma catchUpLoop_ends:
  assumes "\<forall>xs. mset (netOrder net xs) = mset xs" "netDone net p 3" "pass \<le> p"
  shows "\<exists>db' err. catchUpLoop env net vals stakes pass db = Some (db', err) \<and> synced env vals db db'"
  using assms(3)
proof (induction "p - pass" arbitrary: pass db)
  case 0
  then have "netDone net pass 3" using assms(2) by simp
  then show ?case using catchUpLoop_pass[OF assms(1), of env vals stakes pass db] by metis
next
  case (Suc n)
  then have ih: "\<exists>db' err. catchUpLoop env net vals stakes (pass + 1) d = Some (db', err) \<and> synced env vals d db'" for d
    by (intro Suc.hyps(1)) simp_all
  show ?case
    by (rule catchUpLoop_pass[OF assms(1), of env vals stakes pass db]) (use ih synced_trans in metis)+
qed



definition sampleSyncEnv :: EngineEnv where
  "sampleSyncEnv = \<lparr>envC = sample_crypto, envW = sampleWasm, envB = sampleCurve, envJ = sampleJson, envIter = id, envVotes = id,
     envKp = \<lparr>PublicKey = 3, PrivateKey = 3\<rparr>, envChain = DefaultChainID\<rparr>"

definition sampleNet :: "bool SyncNet" where
  "sampleNet = \<lparr>netPeers = (\<lambda>_. [True, False]), netAnswer = (\<lambda>_ _ _. handleBlockSync None), netDone = (\<lambda>p a. 2 \<le> p), netOrder = rev\<rparr>"


text \<open>A committed block without transactions stops every node that has to fetch it: each answer that begins with it is rejected,
  and the loop reports success with nothing applied.\<close>

lemma sync_stops_at_empty_block:
  assumes "BondedAmounts (stake db) = Inr (vals, stakes)" "CurrentHeight db = Inr h" "\<forall>a. \<not> netDone net 0 a"
    and "\<forall>xs. mset (netOrder net xs) = mset xs"
    and "\<forall>a. \<forall>p\<in>set (netPeers net 0). \<exists>raw raws b pr. SyncBlocks (netAnswer net 0 a p) (h + 1) (syncTo (h + 1)) = Inr (raw # raws) \<and>
      DeserializeBlock (envC env) raw = Inr b \<and> DeserializeProposal (envC env) (ProposalBytes b) = Inr pr \<and> Txs b = [] \<and> PropTxs pr = []"
  shows "catchUpCommittedBlocks env net db = Some (db, None)"
proof -
  have ask: "askPeer env vals stakes (netAnswer net 0 a p) (h + 1) (syncTo (h + 1)) ([], 0) = Inr ([], 0)" if "p \<in> set (netPeers net 0)" for a p
  proof -
    from assms(5) that obtain raw raws b pr where r: "SyncBlocks (netAnswer net 0 a p) (h + 1) (syncTo (h + 1)) = Inr (raw # raws)"
      "DeserializeBlock (envC env) raw = Inr b" "DeserializeProposal (envC env) (ProposalBytes b) = Inr pr" "Txs b = []" "PropTxs pr = []" by blast
    have "handled (SerializeBatch (envC env) []) = Inr None" by (simp add: SerializeBatch_def handled_def)
    with r have "validateSyncedBlock (envC env) vals stakes (envChain env) (h + 1) raw = Inr None"
      by (simp add: validateSyncedBlock_def)
    with r(1) show ?thesis by (simp add: askPeer_def)
  qed
  have "rfold (\<lambda>p. askPeer env vals stakes (netAnswer net 0 a p) (h + 1) (syncTo (h + 1))) ps ([], 0) = Inr ([], 0)"
    if "set ps \<subseteq> set (netPeers net 0)" for a ps
    using that by (induction ps) (simp_all add: ask)
  then have "rfold (\<lambda>p. askPeer env vals stakes (netAnswer net 0 a p) (h + 1) (syncTo (h + 1))) (netPeers net 0) ([], 0) = Inr ([], 0)" for a
    by simp
  moreover have "netOrder net [] = []" using assms(4)[rule_format, of "[]"] by simp
  ultimately have "selectBlocks env net vals stakes 0 (h + 1) (syncTo (h + 1)) as 0 = Inr (None, 0)" for as
    using assms(3) by (induction as) (simp_all add: bestCandidate_def)
  then show ?thesis using assms(1,2)
    by (simp add: catchUpCommittedBlocks_def catchUpLoop.simps[of env net vals stakes 0 db] del: selectBlocks.simps)
qed

end
