(* ===== verification/FRG_Rpc.thy ===== *)
theory FRG_Rpc
  imports FRG_Genesis FRG_Sync
begin

text \<open>What a node lets in: the gossip readers and publishers of \<^verbatim>\<open>core/p2p/p2p.go\<close>, the roles of
  \<^verbatim>\<open>cmd/frg-node/authorization.go\<close>, the rate limit and the handlers of \<^verbatim>\<open>cmd/frg-node/grpc_server.go\<close>, and the queries that
  \<^verbatim>\<open>nodeRuntime\<close> of \<^verbatim>\<open>cmd/frg-node/main.go\<close> answers.\<close>


section \<open>Gossip\<close>

text \<open>A buffered channel that drops what does not fit (\<^verbatim>\<open>select\<close> with a \<^verbatim>\<open>default\<close>).\<close>

definition offer :: "nat \<Rightarrow> 'a \<Rightarrow> 'a list \<Rightarrow> 'a list" where
  "offer capacity x ch = (if length ch < capacity then ch @ [x] else ch)"

definition chainIDOf :: "bytes \<Rightarrow> bytes" where
  "chainIDOf configured = (if configured = [] then str ''frg-mainnet-1'' else configured)"

definition topicTx :: "bytes \<Rightarrow> bytes" where
  "topicTx configured = str ''frg/'' @ chainIDOf configured @ str ''/tx/v1''"

definition topicBatch :: "bytes \<Rightarrow> bytes" where
  "topicBatch configured = str ''frg/'' @ chainIDOf configured @ str ''/batch/v1''"

definition topicBlock :: "bytes \<Rightarrow> bytes" where
  "topicBlock configured = str ''frg/'' @ chainIDOf configured @ str ''/block/v1''"

definition topicVote :: "bytes \<Rightarrow> bytes" where
  "topicVote configured = str ''frg/'' @ chainIDOf configured @ str ''/vote/v1''"

definition parseTxForChain :: "crypto \<Rightarrow> bytes \<Rightarrow> bytes \<Rightarrow> Tx res" where
  "parseTxForChain C data chainID =
     rbind (Deserialize C data) (\<lambda>t. rbind (VerifySigsForChain C chainID t) (\<lambda>_. Inr t))"

definition parseTx :: "crypto \<Rightarrow> bytes \<Rightarrow> Tx res" where
  "parseTx C data = parseTxForChain C data DefaultChainID"

text \<open>One turn of each reader loop, on one message.\<close>

definition readTxs :: "crypto \<Rightarrow> bytes \<Rightarrow> bytes \<Rightarrow> Tx list \<Rightarrow> Tx list res" where
  "readTxs C chainID msg txCh =
     (if length msg > maxTxBytes then Inr txCh
      else rbind (handled (parseTxForChain C msg chainID)) (\<lambda>t. case t of
        None \<Rightarrow> Inr txCh
      | Some t \<Rightarrow> Inr (offer 16384 t txCh)))"

definition offerSigned :: "crypto \<Rightarrow> bytes \<Rightarrow> Tx \<Rightarrow> Tx list \<Rightarrow> Tx list res" where
  "offerSigned C chainID t txCh =
     rbind (handled (VerifySigsForChain C chainID t)) (\<lambda>ok. Inr (if ok = None then txCh else offer 16384 t txCh))"

definition readBatches :: "crypto \<Rightarrow> bytes \<Rightarrow> bytes \<Rightarrow> Tx list \<Rightarrow> Tx list res" where
  "readBatches C chainID msg txCh =
     (if length msg > maxBatchBytes then Inr txCh
      else rbind (handled (DeserializeBatch C msg)) (\<lambda>txs. case txs of
        None \<Rightarrow> Inr txCh
      | Some txs \<Rightarrow> rfold (offerSigned C chainID) txs txCh))"

definition readProposals :: "bytes \<Rightarrow> bytes list \<Rightarrow> bytes list" where
  "readProposals msg blockCh = (if length msg > 67108864 then blockCh else offer 16 msg blockCh)"

definition readGossipVotes :: "bytes \<Rightarrow> bytes list \<Rightarrow> bytes list" where
  "readGossipVotes msg voteCh = (if length msg \<noteq> 141 then voteCh else offer 1024 msg voteCh)"

text \<open>Publishing. What the transport does with a message is the parameter \<open>publish\<close>; a node without a transport
  (grpc-only mode) has none.\<close>

type_synonym publisher = "bytes \<Rightarrow> bytes \<Rightarrow> unit res"

definition BroadcastTx :: "crypto \<Rightarrow> bytes \<Rightarrow> publisher option \<Rightarrow> Tx \<Rightarrow> bytes list res" where
  "BroadcastTx C configured publish t = (case publish of
     None \<Rightarrow> Inl (GoError ''transaction submission unavailable in grpc-only mode'')
   | Some publish \<Rightarrow> rbind (Serialize C t) (\<lambda>b. rbind (publish (topicTx configured) b) (\<lambda>_. Inr [b])))"

definition BroadcastBatch :: "crypto \<Rightarrow> bytes \<Rightarrow> publisher option \<Rightarrow> Tx list \<Rightarrow> bytes list res" where
  "BroadcastBatch C configured publish txs = (case publish of
     None \<Rightarrow> Inl (GoError ''transaction submission unavailable in grpc-only mode'')
   | Some publish \<Rightarrow> rbind (SerializeBatch C txs) (\<lambda>b. rbind (publish (topicBatch configured) b) (\<lambda>_. Inr [b])))"


section \<open>Who may call\<close>

definition roleAdmin :: bytes where "roleAdmin = str ''admin''"
definition roleSubmitter :: bytes where "roleSubmitter = str ''submitter''"
definition roleObserver :: bytes where "roleObserver = str ''observer''"
definition roleValidator :: bytes where "roleValidator = str ''validator''"

record rpcAuthorizer =
  authRoles :: "(bytes, bytes) bucket"
  requireIdentity :: bool

definition addRole :: "bytes \<times> bytes \<Rightarrow> (bytes, bytes) bucket \<Rightarrow> (bytes, bytes) bucket res" where
  "addRole = (\<lambda>(fingerprint, configuredRole) rs.
     rguard (DecodeString fingerprint = None \<or> length fingerprint \<noteq> 64) (GoError ''invalid client certificate fingerprint'')
     (if configuredRole \<in> {roleAdmin, roleSubmitter, roleObserver, roleValidator} then Inr (bput rs fingerprint configuredRole)
      else Inl (GoError ''invalid RPC role'')))"

definition newRPCAuthorizer :: "(bytes \<times> bytes) list \<Rightarrow> bool \<Rightarrow> rpcAuthorizer res" where
  "newRPCAuthorizer configured required =
     rbind (rfold addRole configured []) (\<lambda>rs. Inr \<lparr>authRoles = rs, requireIdentity = required\<rparr>)"

definition roleAllows :: "bytes \<Rightarrow> bytes \<Rightarrow> bool" where
  "roleAllows actual required =
     (if actual = roleAdmin \<or> actual = required then True else required \<noteq> roleAdmin \<and> actual = roleValidator)"

text \<open>What the connection says of its peer: nothing, a TLS state with the certificates the peer presented, or
  another kind of credentials.\<close>

datatype authInfo = NoAuthInfo | TLSInfo "bytes list" | OtherAuthInfo

definition authorize :: "crypto \<Rightarrow> rpcAuthorizer option \<Rightarrow> authInfo \<Rightarrow> bytes \<Rightarrow> unit res" where
  "authorize C a info required = (case a of None \<Rightarrow> Inr () | Some a \<Rightarrow>
     (case info of
        NoAuthInfo \<Rightarrow> rguard (requireIdentity a) (GoError ''RPC client identity is not authenticated'') (Inr ())
      | OtherAuthInfo \<Rightarrow> Inl (GoError ''RPC client identity is not authenticated'')
      | TLSInfo [] \<Rightarrow> if \<not> requireIdentity a then Inr () else Inl (GoError ''RPC client certificate is missing'')
      | TLSInfo (cert # _) \<Rightarrow>
         (case bget (authRoles a) (EncodeToString (arr32 (sha256 C cert))) of
            None \<Rightarrow> Inl (GoError ''RPC client is not authorized'')
          | Some role \<Rightarrow> rguard (\<not> roleAllows role required) (GoError ''RPC client is not authorized'') (Inr ()))))"

text \<open>The flag that \<^verbatim>\<open>startGRPCServer\<close> passes: identity is required on a listener that is not a loopback address, or
  when roles are configured. \<open>loopback\<close> is the verdict of \<^verbatim>\<open>requiresGRPCTLS\<close>, negated.\<close>

definition serverAuthorizer :: "bool \<Rightarrow> (bytes \<times> bytes) list \<Rightarrow> rpcAuthorizer res" where
  "serverAuthorizer loopback clientRoles = newRPCAuthorizer clientRoles (\<not> loopback \<or> clientRoles \<noteq> [])"


section \<open>How often\<close>

abbreviation (input) submitWindow :: int where "submitWindow \<equiv> 1000000000"
abbreviation (input) maxSubmitTxPerPeer :: int where "maxSubmitTxPerPeer \<equiv> 2048"
abbreviation (input) maxSubmitReqsPerPeer :: int where "maxSubmitReqsPerPeer \<equiv> 128"
abbreviation (input) maxTrackedSubmitPeers :: nat where "maxTrackedSubmitPeers \<equiv> 4096"

record submitWindowState =
  winStarted :: int
  winTxs :: int
  winRequests :: int

type_synonym submitLimiter = "(bytes, submitWindowState) bucket"

definition freshWindow :: "int \<Rightarrow> submitWindowState" where
  "freshWindow now = \<lparr>winStarted = now, winTxs = 0, winRequests = 0\<rparr>"

definition chargeWindow :: "submitLimiter \<Rightarrow> bytes \<Rightarrow> int \<Rightarrow> int \<Rightarrow> submitWindowState \<Rightarrow> submitLimiter \<times> unit res" where
  "chargeWindow peers key now txCount state =
     (let state = (if now - winStarted state \<ge> submitWindow then freshWindow now else state) in
      if winRequests state \<ge> maxSubmitReqsPerPeer \<or> winTxs state + txCount > maxSubmitTxPerPeer
      then (bput peers key state, Inl (GoError ''submission rate limit exceeded''))
      else (bput peers key (state\<lparr>winRequests := winRequests state + 1, winTxs := winTxs state + txCount\<rparr>), Inr ()))"

definition allow :: "submitLimiter \<Rightarrow> bytes \<Rightarrow> int \<Rightarrow> int \<Rightarrow> submitLimiter \<times> unit res" where
  "allow peers key now txCount =
     (if txCount < 1 \<or> txCount > maxSubmitTxPerPeer then (peers, Inl (GoError ''submission rate limit exceeded''))
      else (case bget peers key of
        Some state \<Rightarrow> chargeWindow peers key now txCount state
      | None \<Rightarrow>
         if length peers \<ge> maxTrackedSubmitPeers then
           (let peers = filter (\<lambda>(_, s). \<not> now - winStarted s \<ge> submitWindow) peers in
            if length peers \<ge> maxTrackedSubmitPeers then (peers, Inl (GoError ''too many submission clients''))
            else chargeWindow peers key now txCount (freshWindow now))
         else chargeWindow peers key now txCount (freshWindow now)))"


section \<open>Submission\<close>

text \<open>A caller: its credentials, the text of its address and the time of the call. A response is the flag \<^verbatim>\<open>Ok\<close>; the
  messages published on the way are the last component.\<close>

record caller =
  callAuth :: authInfo
  callAddr :: bytes
  callTime :: int

record nodeServer =
  srvChain :: bytes
  srvP2pChain :: bytes
  srvPublish :: "publisher option"
  srvAuthorizer :: "rpcAuthorizer option"

definition SubmitTx :: "crypto \<Rightarrow> nodeServer \<Rightarrow> submitLimiter \<Rightarrow> caller \<Rightarrow> bytes option \<Rightarrow> submitLimiter \<times> (bool \<times> bytes list) res" where
  "SubmitTx C srv lim ctx data =
     (case authorize C (srvAuthorizer srv) (callAuth ctx) roleSubmitter of Inl e \<Rightarrow> (lim, Inl e) | Inr _ \<Rightarrow>
      (case data of None \<Rightarrow> (lim, Inr (False, [])) | Some data \<Rightarrow>
       if length data > maxTxBytes then (lim, Inr (False, []))
       else (case allow lim (callAddr ctx) (callTime ctx) 1 of
         (lim, Inl e) \<Rightarrow> (lim, Inl e)
       | (lim, Inr _) \<Rightarrow> (lim,
           rbind (handled (Deserialize C data)) (\<lambda>t. case t of None \<Rightarrow> Inr (False, []) | Some t \<Rightarrow>
           rbind (handled (VerifySigsForChain C (srvChain srv) t)) (\<lambda>ok. if ok = None then Inr (False, []) else
           rbind (handled (BroadcastTx C (srvP2pChain srv) (srvPublish srv) t)) (\<lambda>out. case out of
             None \<Rightarrow> Inr (False, [])
           | Some out \<Rightarrow> Inr (True, out))))))))"

definition admitRaw :: "crypto \<Rightarrow> bytes \<Rightarrow> bytes \<Rightarrow> Tx res" where
  "admitRaw C chainID raw =
     rguard (length raw > maxTxBytes) (GoError ''transaction payload exceeds size limit'')
     (rbind (Deserialize C raw) (\<lambda>t. rbind (VerifySigsForChain C chainID t) (\<lambda>_. Inr t)))"

definition SubmitBatch :: "crypto \<Rightarrow> nodeServer \<Rightarrow> submitLimiter \<Rightarrow> caller \<Rightarrow> bytes list \<Rightarrow> submitLimiter \<times> (bool \<times> bytes list) res" where
  "SubmitBatch C srv lim ctx data =
     (case authorize C (srvAuthorizer srv) (callAuth ctx) roleSubmitter of Inl e \<Rightarrow> (lim, Inl e) | Inr _ \<Rightarrow>
      if length data = 0 \<or> length data > 1024 then (lim, Inr (False, []))
      else (case allow lim (callAddr ctx) (callTime ctx) (int (length data)) of
        (lim, Inl e) \<Rightarrow> (lim, Inl e)
      | (lim, Inr _) \<Rightarrow> (lim,
          rbind (handled (rmap (admitRaw C (srvChain srv)) data)) (\<lambda>batch. case batch of None \<Rightarrow> Inr (False, []) | Some batch \<Rightarrow>
          rbind (handled (BroadcastBatch C (srvP2pChain srv) (srvPublish srv) batch)) (\<lambda>out. case out of
            None \<Rightarrow> Inr (False, [])
          | Some out \<Rightarrow> Inr (True, out))))))"


section \<open>The rate limit\<close>

fun limiterRun :: "submitLimiter \<Rightarrow> (bytes \<times> int \<times> int) list \<Rightarrow> submitLimiter \<times> (bytes \<times> int \<times> int) list" where
  "limiterRun lim [] = (lim, [])"
| "limiterRun lim ((key, now, n) # calls) =
     (let (lim', r) = allow lim key now n; (lim'', admitted) = limiterRun lim' calls in
      (lim'', if r = Inr () then (key, now, n) # admitted else admitted))"

lemma bucket_ok_filter: "bucket_ok l \<Longrightarrow> bucket_ok (filter P l)"
  unfolding bucket_ok_def by (induction l) auto

lemma bget_filter:
  assumes "bucket_ok l"
  shows "bget (filter P l) k = (case bget l k of None \<Rightarrow> None | Some v \<Rightarrow> if P (k, v) then Some v else None)"
  using assms
proof (induction l)
  case (Cons x l)
  have ok: "bucket_ok l" and new: "\<forall>y\<in>set l. fst x < fst y" using Cons.prems by (auto simp: bucket_ok_def)
  have "bget l (fst x) = None" using new by (auto simp: bget_def map_of_eq_None_iff)
  then show ?case using Cons.IH[OF ok] by (cases x) (auto simp: bget_def split: option.splits)
qed simp

definition purge :: "int \<Rightarrow> submitLimiter \<Rightarrow> submitLimiter" where
  "purge now peers = filter (\<lambda>(_, s). \<not> now - winStarted s \<ge> submitWindow) peers"

definition current :: "int \<Rightarrow> submitWindowState \<Rightarrow> submitWindowState" where
  "current now s = (if now - winStarted s \<ge> submitWindow then freshWindow now else s)"

definition charged :: "int \<Rightarrow> submitWindowState \<Rightarrow> submitWindowState" where
  "charged n s = s\<lparr>winRequests := winRequests s + 1, winTxs := winTxs s + n\<rparr>"

lemma charge_cases:
  obtains "chargeWindow l key now n s = (bput l key (current now s), Inl (GoError ''submission rate limit exceeded''))"
  | "chargeWindow l key now n s = (bput l key (charged n (current now s)), Inr ())"
      "winRequests (current now s) < 128" "winTxs (current now s) + n \<le> 2048"
  by (cases "winRequests (current now s) \<ge> 128 \<or> winTxs (current now s) + n > 2048")
    (auto simp: chargeWindow_def current_def charged_def Let_def)

text \<open>What a call does to the table and, seen from one address, to its entry.\<close>

lemma allow_cases:
  obtains e where "allow l key now n = (l, Inl e)"
  | e where "allow l key now n = (purge now l, Inl e)" "bget l key = None"
  | s l0 where "allow l key now n = chargeWindow l0 key now n s" "1 \<le> n"
      "l0 = l \<or> l0 = purge now l \<and> bget l key = None" "s = (case bget l key of None \<Rightarrow> freshWindow now | Some s \<Rightarrow> s)"
      "bget l key = None \<longrightarrow> length l0 < 4096"
proof (cases "n < 1 \<or> n > 2048")
  case True
  then show thesis using that(1) by (simp add: allow_def)
next
  case False
  then have a: "allow l key now n = (case bget l key of Some state \<Rightarrow> chargeWindow l key now n state
    | None \<Rightarrow> if length l \<ge> 4096 then (if length (purge now l) \<ge> 4096 then (purge now l, Inl (GoError ''too many submission clients''))
        else chargeWindow (purge now l) key now n (freshWindow now)) else chargeWindow l key now n (freshWindow now))"
    by (simp only: allow_def purge_def Let_def if_False)
  show thesis
  proof (cases "bget l key")
    case None
    consider "length l < 4096" | "length l \<ge> 4096" "length (purge now l) \<ge> 4096" | "length l \<ge> 4096" "length (purge now l) < 4096"
      by linarith
    then show thesis
    proof cases
      case 1
      then show thesis using a None False by (intro that(3)[of l "freshWindow now"]) simp_all
    next
      case 2
      then show thesis using a None by (intro that(2)) simp_all
    next
      case 3
      then show thesis using a None False by (intro that(3)[of "purge now l" "freshWindow now"]) simp_all
    qed
  next
    case (Some s)
    then show thesis using a False by (intro that(3)[of l s]) simp_all
  qed
qed


lemma allow_bucket_ok:
  assumes "allow l key now n = (l', r)" "bucket_ok l"
  shows "bucket_ok l'"
proof (rule allow_cases[of l key now n])
  fix s l0 assume a: "allow l key now n = chargeWindow l0 key now n s" and l0: "l0 = l \<or> l0 = purge now l \<and> bget l key = None"
  then have "bucket_ok l0" using assms(2) by (auto simp: purge_def bucket_ok_filter)
  then show ?thesis by (rule_tac charge_cases[of l0 key now n s]) (use a assms(1) in \<open>auto simp: bucket_ok_bput\<close>)
qed (use assms in \<open>auto simp: purge_def bucket_ok_filter\<close>)

text \<open>What an address may still be admitted for in the second from \<open>t\<close> on, when the clock shows \<open>T\<close>.\<close>

definition budget :: "(submitWindowState \<Rightarrow> int) \<Rightarrow> int \<Rightarrow> int \<Rightarrow> int \<Rightarrow> submitWindowState option \<Rightarrow> int" where
  "budget cnt L t T entry = (if t + submitWindow \<le> T then 0 else case entry of
     None \<Rightarrow> if t < T then L else 2 * L
   | Some s \<Rightarrow> if winStarted s + submitWindow \<le> t then 2 * L else if winStarted s \<le> t then 2 * L - cnt s else L - cnt s)"

definition windowSum :: "(int \<Rightarrow> int) \<Rightarrow> bytes \<Rightarrow> int \<Rightarrow> (bytes \<times> int \<times> int) list \<Rightarrow> int" where
  "windowSum wt key t admitted =
     (\<Sum>(k, now, n)\<leftarrow>admitted. if k = key \<and> t \<le> now \<and> now < t + submitWindow then wt n else 0)"

locale window_counter =
  fixes cnt :: "submitWindowState \<Rightarrow> int" and wt :: "int \<Rightarrow> int" and L :: int
  assumes cnt_fresh: "cnt (freshWindow now) = 0"
    and cnt_charged: "winRequests s < 128 \<Longrightarrow> winTxs s + n \<le> 2048 \<Longrightarrow> cnt (charged n s) = cnt s + wt n \<and> cnt s + wt n \<le> L"
    and wt_pos: "1 \<le> n \<Longrightarrow> 0 \<le> wt n" and L_pos: "0 \<le> L"
begin

definition entry_ok :: "int \<Rightarrow> submitWindowState option \<Rightarrow> bool" where
  "entry_ok T e \<longleftrightarrow> (case e of None \<Rightarrow> True | Some s \<Rightarrow> 0 \<le> cnt s \<and> cnt s \<le> L \<and> winStarted s \<le> T)"

lemma budget_pos: "entry_ok T' e \<Longrightarrow> 0 \<le> budget cnt L t T e"
  using L_pos by (cases e) (auto simp: budget_def entry_ok_def)

lemma budget_later: "T \<le> now \<Longrightarrow> entry_ok T e \<Longrightarrow> budget cnt L t now e \<le> budget cnt L t T e"
  using L_pos by (cases e) (auto simp: budget_def entry_ok_def)

lemma budget_current:
  assumes "0 \<le> cnt s" "cnt s \<le> L"
  shows "budget cnt L t now (Some (current now s)) \<le> budget cnt L t now (Some s)"
  using assms L_pos cnt_fresh by (auto simp: budget_def current_def freshWindow_def)

lemma budget_charged:
  assumes "cnt (charged n s) = cnt s + wt n" "0 \<le> wt n" "winStarted s \<le> now" "now < winStarted s + submitWindow"
  shows "(if t \<le> now \<and> now < t + submitWindow then wt n else 0) + budget cnt L t now (Some (charged n s)) \<le> budget cnt L t now (Some s)"
  using assms by (auto simp: budget_def charged_def)

lemma budget_new: "cnt s = 0 \<Longrightarrow> winStarted s = now \<Longrightarrow> budget cnt L t now (Some s) \<le> budget cnt L t now None"
  using L_pos by (auto simp: budget_def)

lemma budget_purged:
  assumes "now - winStarted s \<ge> submitWindow" "0 \<le> cnt s" "cnt s \<le> L"
  shows "budget cnt L t now None \<le> budget cnt L t now (Some s)"
  using assms L_pos by (auto simp: budget_def)

text \<open>A call from another address only ever removes an entry whose window has passed.\<close>

lemma other_address:
  assumes "allow l k' now n = (l', r)" "k' \<noteq> k" "bucket_ok l" "entry_ok now (bget l k)"
  shows "entry_ok now (bget l' k) \<and> budget cnt L t now (bget l' k) \<le> budget cnt L t now (bget l k)"
proof -
  have purged: "entry_ok now (bget (purge now l) k) \<and> budget cnt L t now (bget (purge now l) k) \<le> budget cnt L t now (bget l k)"
    using assms(3,4) budget_purged[of now]
    by (auto simp: purge_def bget_filter entry_ok_def split: option.splits)
  have "bget l' k \<in> {bget l k, bget (purge now l) k}"
  proof (rule allow_cases[of l k' now n])
    fix s l0 assume a: "allow l k' now n = chargeWindow l0 k' now n s" and l0: "l0 = l \<or> l0 = purge now l \<and> bget l k' = None"
    show ?thesis by (rule charge_cases[of l0 k' now n s]) (use a l0 assms(1,2) in \<open>auto simp: bget_bput\<close>)
  qed (use assms(1) in auto)
  then show ?thesis using purged assms(4) by auto
qed

lemma same_address:
  assumes "allow l k now n = (l', r)" "bucket_ok l" "entry_ok now (bget l k)"
  shows "entry_ok now (bget l' k) \<and>
    (if r = Inr () \<and> t \<le> now \<and> now < t + submitWindow then wt n else 0) + budget cnt L t now (bget l' k) \<le> budget cnt L t now (bget l k)"
proof (rule allow_cases[of l k now n])
  fix e assume "allow l k now n = (purge now l, Inl e)" "bget l k = None"
  then show ?thesis using assms by (auto simp: purge_def bget_filter)
next
  fix s l0 assume a: "allow l k now n = chargeWindow l0 k now n s" "1 \<le> n" and s: "s = (case bget l k of None \<Rightarrow> freshWindow now | Some s \<Rightarrow> s)"
  let ?c = "current now s"
  have ok: "entry_ok now (Some ?c)" and win: "winStarted ?c \<le> now" "now < winStarted ?c + submitWindow"
    using assms(3) L_pos cnt_fresh by (auto simp: s entry_ok_def current_def freshWindow_def split: option.splits)
  have b: "budget cnt L t now (Some ?c) \<le> budget cnt L t now (bget l k)"
  proof (cases "bget l k")
    case None
    then show ?thesis using budget_new[of ?c now t] cnt_fresh by (simp add: s current_def) (simp add: freshWindow_def)
  next
    case (Some e)
    then show ?thesis using assms(3) by (simp add: s entry_ok_def budget_current)
  qed
  show ?thesis
  proof (rule charge_cases[of l0 k now n s])
    assume c: "chargeWindow l0 k now n s = (bput l0 k (charged n ?c), Inr ())" and lim: "winRequests ?c < 128" "winTxs ?c + n \<le> 2048"
    note cc = cnt_charged[OF lim]
    have "entry_ok now (Some (charged n ?c))" using ok cc wt_pos[OF a(2)] by (simp add: entry_ok_def) (simp add: charged_def)
    moreover have "bget l' k = Some (charged n ?c)" "r = Inr ()" using a(1) c assms(1) by (auto simp: bget_bput)
    ultimately show ?thesis using budget_charged[of n ?c now t] cc wt_pos[OF a(2)] win b by auto
  qed (use a(1) assms(1) ok b in \<open>auto simp: bget_bput\<close>)
qed (use assms in auto)

lemma run_within_budget:
  assumes "sorted (T # map (fst \<circ> snd) calls)" "bucket_ok l" "entry_ok T (bget l k)"
  shows "windowSum wt k t (snd (limiterRun l calls)) \<le> budget cnt L t T (bget l k)"
  using assms
proof (induction calls arbitrary: T l)
  case (Cons c calls)
  obtain k' now n where c: "c = (k', now, n)" by (cases c) auto
  obtain l' r where a: "allow l k' now n = (l', r)" by fastforce
  have T: "T \<le> now" using Cons.prems(1) c by simp
  have ok: "entry_ok now (bget l k)" using Cons.prems(3) T by (auto simp: entry_ok_def split: option.splits)
  have s: "entry_ok now (bget l' k) \<and> (if k' = k \<and> r = Inr () \<and> t \<le> now \<and> now < t + submitWindow then wt n else 0)
      + budget cnt L t now (bget l' k) \<le> budget cnt L t now (bget l k)"
    using other_address[OF a _ Cons.prems(2) ok] same_address[OF _ Cons.prems(2) ok] a by (cases "k' = k") auto
  have "windowSum wt k t (snd (limiterRun l' calls)) \<le> budget cnt L t now (bget l' k)"
    using Cons.prems(1) c s allow_bucket_ok[OF a Cons.prems(2)] by (intro Cons.IH) auto
  moreover have "windowSum wt k t (snd (limiterRun l (c # calls))) =
      (if k' = k \<and> r = Inr () \<and> t \<le> now \<and> now < t + submitWindow then wt n else 0) + windowSum wt k t (snd (limiterRun l' calls))"
    by (auto simp: c a windowSum_def split_beta)
  ultimately show ?case using s budget_later[OF T Cons.prems(3), of t] by linarith
qed (use budget_pos in \<open>simp add: windowSum_def\<close>)

end

interpretation txs: window_counter winTxs "\<lambda>n. n" 2048
  by unfold_locales (auto simp: freshWindow_def charged_def)

interpretation requests: window_counter winRequests "\<lambda>_. 1" 128
  by unfold_locales (auto simp: freshWindow_def charged_def)


lemma length_bput: "length (bput l k v) \<le> (if bget l k = None then Suc (length l) else length l)" if "bucket_ok l"
  using that
proof (induction l k v rule: bput.induct)
  case (2 k' v' b k v)
  have ok: "bucket_ok b" and new: "\<forall>y\<in>set b. k' < fst y" using "2.prems" by (auto simp: bucket_ok_def)
  have "bget b k = None" if "k < k'"
    using new that by (auto simp: bget_def map_of_eq_None_iff)
  then show ?case using 2(1) ok by (auto simp: bget_def split: if_splits)
qed simp

lemma allow_size:
  assumes "allow l key now n = (l', r)" "bucket_ok l" "length l \<le> 4096"
  shows "length l' \<le> 4096"
proof (rule allow_cases[of l key now n])
  fix s l0 assume a: "allow l key now n = chargeWindow l0 key now n s" and l0: "l0 = l \<or> l0 = purge now l \<and> bget l key = None"
    and room: "bget l key = None \<longrightarrow> length l0 < 4096"
  have ok: "bucket_ok l0" using l0 assms(2) by (auto simp: purge_def bucket_ok_filter)
  have "length (bput l0 key v) \<le> 4096" for v using length_bput[OF ok, of key v] l0 room assms(3) by (auto split: if_splits)
  then show ?thesis by (rule_tac charge_cases[of l0 key now n s]) (use a assms(1) in auto)
next
  fix e assume "allow l key now n = (purge now l, Inl e)"
  then show ?thesis using assms(1,3) by (auto simp: purge_def intro: le_trans[OF length_filter_le])
qed (use assms in auto)

lemma limiterRun_size: "bucket_ok l \<Longrightarrow> length l \<le> 4096 \<Longrightarrow> length (fst (limiterRun l calls)) \<le> 4096"
proof (induction calls arbitrary: l)
  case (Cons c calls)
  obtain k now n where c: "c = (k, now, n)" by (cases c) auto
  obtain l' r where a: "allow l k now n = (l', r)" by fastforce
  from Cons.IH[OF allow_bucket_ok[OF a Cons.prems(1)] allow_size[OF a Cons.prems]] show ?case by (simp add: c a split_beta)
qed simp

text \<open>C37. The rate limit of the submission interface: whatever calls arrive, in any interval of one second at most 4,096 transactions in
  at most 256 requests are admitted from one address (twice the configured figures, since the windows of an address are not aligned
  with the interval), and at most 4,096 addresses are tracked.\<close>

theorem rpc_rate_limited:
  assumes "sorted (map (fst \<circ> snd) calls)" "limiterRun [] calls = (lim, admitted)"
  shows "windowSum (\<lambda>n. n) addr t admitted \<le> 2 * maxSubmitTxPerPeer \<and> windowSum (\<lambda>_. 1) addr t admitted \<le> 2 * maxSubmitReqsPerPeer \<and>
    length lim \<le> maxTrackedSubmitPeers"
proof -
  define T where "T = (if calls = [] then 0 else fst (snd (hd calls)))"
  have s: "sorted (T # map (fst \<circ> snd) calls)" using assms(1) by (cases calls) (auto simp: T_def)
  have ok: "bucket_ok []" by (simp add: bucket_ok_def)
  have "windowSum (\<lambda>n. n) addr t admitted \<le> budget winTxs 2048 t T None"
    using txs.run_within_budget[OF s ok, of addr t] assms(2) by (simp add: txs.entry_ok_def)
  moreover have "windowSum (\<lambda>_. 1) addr t admitted \<le> budget winRequests 128 t T None"
    using requests.run_within_budget[OF s ok, of addr t] assms(2) by (simp add: requests.entry_ok_def)
  moreover have "length lim \<le> 4096" using limiterRun_size[OF ok, of calls] assms(2) by simp
  ultimately show ?thesis by (auto simp: budget_def split: if_splits)
qed

theorem rpc_rate_limited_witness:
  "let calls = [(str ''a'', 0, 2000), (str ''a'', 999999999, 48), (str ''a'', 999999999, 1), (str ''a'', 1000000000, 2048)] in
   limiterRun [] calls = ([(str ''a'', \<lparr>winStarted = 1000000000, winTxs = 2048, winRequests = 1\<rparr>)],
     [(str ''a'', 0, 2000), (str ''a'', 999999999, 48), (str ''a'', 1000000000, 2048)]) \<and>
   windowSum (\<lambda>n. n) (str ''a'') 1 (snd (limiterRun [] calls)) \<le> 4096"
proof -
  let ?calls = "[(str ''a'', 0, 2000), (str ''a'', 999999999, 48), (str ''a'', 999999999, 1), (str ''a'', 1000000000, 2048)] :: (bytes \<times> int \<times> int) list"
  have r: "limiterRun [] ?calls = ([(str ''a'', \<lparr>winStarted = 1000000000, winTxs = 2048, winRequests = 1\<rparr>)],
     [(str ''a'', 0, 2000), (str ''a'', 999999999, 48), (str ''a'', 1000000000, 2048)])" by code_simp
  from rpc_rate_limited[OF _ r, of "str ''a''" 1] show ?thesis by (simp only: Let_def r snd_conv) simp
qed


section \<open>Admission\<close>

definition offerAll :: "Tx list \<Rightarrow> Tx list \<Rightarrow> Tx list" where
  "offerAll txs txCh = foldl (\<lambda>ch t. offer 16384 t ch) txCh txs"

lemma offerSigned_all:
  assumes "\<forall>t\<in>set txs. VerifySigsForChain C chainID t = Inr ()"
  shows "rfold (offerSigned C chainID) txs txCh = Inr (offerAll txs txCh)"
  using assms by (induction txs arbitrary: txCh) (simp_all add: offerSigned_def offerAll_def)

lemma SubmitTx_Ok:
  assumes "SubmitTx C srv lim ctx (Some data) = (lim', Inr (True, out))"
  obtains t where "authorize C (srvAuthorizer srv) (callAuth ctx) roleSubmitter = Inr ()" "length data \<le> maxTxBytes"
    "Deserialize C data = Inr t" "VerifySigsForChain C (srvChain srv) t = Inr ()"
    "BroadcastTx C (srvP2pChain srv) (srvPublish srv) t = Inr out"
proof -
  obtain u where a: "authorize C (srvAuthorizer srv) (callAuth ctx) roleSubmitter = Inr u"
    using assms by (cases "authorize C (srvAuthorizer srv) (callAuth ctx) roleSubmitter") (auto simp: SubmitTx_def)
  have len: "length data \<le> maxTxBytes" using assms a by (simp add: SubmitTx_def split: if_split_asm)
  obtain l r where al: "allow lim (callAddr ctx) (callTime ctx) 1 = (l, r)" by fastforce
  with assms a len obtain t where "Deserialize C data = Inr t" "VerifySigsForChain C (srvChain srv) t = Inr ()"
    "BroadcastTx C (srvP2pChain srv) (srvPublish srv) t = Inr out"
    by (cases r) (auto simp: SubmitTx_def handled_bind split: if_split_asm)
  with a len that show thesis by simp
qed

lemma rmap_admitRaw:
  assumes "rmap (admitRaw C chainID) data = Inr txs"
  shows "rmap (Deserialize C) data = Inr txs \<and> (\<forall>t\<in>set txs. VerifySigsForChain C chainID t = Inr ())"
  using assms
proof (induction data arbitrary: txs)
  case (Cons d ds)
  from Cons.prems obtain t ts where t: "admitRaw C chainID d = Inr t" "rmap (admitRaw C chainID) ds = Inr ts" "txs = t # ts"
    by (auto simp: rbind_Inr_iff)
  from t(1) have "Deserialize C d = Inr t" "VerifySigsForChain C chainID t = Inr ()"
    by (auto simp: admitRaw_def rbind_Inr_iff rguard_Inr_iff)
  with Cons.IH[OF t(2)] t show ?case by simp
qed simp

lemma SubmitBatch_Ok:
  assumes "SubmitBatch C srv lim ctx data = (lim', Inr (True, out))"
  obtains txs where "authorize C (srvAuthorizer srv) (callAuth ctx) roleSubmitter = Inr ()" "length data \<le> 1024"
    "rmap (Deserialize C) data = Inr txs" "\<forall>t\<in>set txs. VerifySigsForChain C (srvChain srv) t = Inr ()"
    "BroadcastBatch C (srvP2pChain srv) (srvPublish srv) txs = Inr out"
proof -
  obtain u where a: "authorize C (srvAuthorizer srv) (callAuth ctx) roleSubmitter = Inr u"
    using assms by (cases "authorize C (srvAuthorizer srv) (callAuth ctx) roleSubmitter") (auto simp: SubmitBatch_def)
  have len: "length data \<le> 1024" using assms a by (simp add: SubmitBatch_def split: if_split_asm)
  obtain l r where al: "allow lim (callAddr ctx) (callTime ctx) (int (length data)) = (l, r)" by fastforce
  with assms a len obtain txs where "rmap (admitRaw C (srvChain srv)) data = Inr txs"
    "BroadcastBatch C (srvP2pChain srv) (srvPublish srv) txs = Inr out"
    by (cases r) (auto simp: SubmitBatch_def handled_bind split: if_split_asm)
  with a len that rmap_admitRaw show thesis by simp
qed

lemma rmap_canonical:
  assumes "nfc_documented C" "rmap (Deserialize C) data = Inr txs"
  shows "map (canonicalTx C) txs = txs"
  using assms(2) by (induction data arbitrary: txs) (auto simp: rbind_Inr_iff Deserialize_iff[OF assms(1)])

lemma SubmitTx_admits:
  assumes "SubmitTx C srv lim ctx (Some data) = (lim', Inr (True, out))"
  shows "authorize C (srvAuthorizer srv) (callAuth ctx) roleSubmitter = Inr () \<and> out = [data] \<and>
      (\<exists>t. Deserialize C data = Inr t \<and> VerifySigsForChain C (srvChain srv) t = Inr () \<and>
        (\<forall>txCh. readTxs C (srvChain srv) data txCh = Inr (offer 16384 t txCh)))"
proof -
  from assms obtain t where t: "authorize C (srvAuthorizer srv) (callAuth ctx) roleSubmitter = Inr ()" "length data \<le> maxTxBytes"
    "Deserialize C data = Inr t" "VerifySigsForChain C (srvChain srv) t = Inr ()" "BroadcastTx C (srvP2pChain srv) (srvPublish srv) t = Inr out"
    by (rule SubmitTx_Ok)
  have "out = [data]" using t(5) Deserialize_Inr_Serialize[OF t(3)] by (auto simp: BroadcastTx_def rbind_Inr_iff split: option.splits)
  moreover have "readTxs C (srvChain srv) data txCh = Inr (offer 16384 t txCh)" for txCh
    using t(2,3,4) by (simp add: readTxs_def parseTxForChain_def)
  ultimately show ?thesis using t by blast
qed

lemma SubmitBatch_admits:
  assumes "nfc_documented C" "SubmitBatch C srv lim ctx batch = (lim', Inr (True, out))"
  shows "authorize C (srvAuthorizer srv) (callAuth ctx) roleSubmitter = Inr () \<and>
      (\<exists>txs msg. rmap (Deserialize C) batch = Inr txs \<and> out = [msg] \<and> (\<forall>t\<in>set txs. VerifySigsForChain C (srvChain srv) t = Inr ()) \<and>
        (\<forall>txCh. readBatches C (srvChain srv) msg txCh = Inr (offerAll txs txCh)))"
proof -
  from assms(2) obtain txs where t: "authorize C (srvAuthorizer srv) (callAuth ctx) roleSubmitter = Inr ()" "length batch \<le> 1024"
    "rmap (Deserialize C) batch = Inr txs" "\<forall>t\<in>set txs. VerifySigsForChain C (srvChain srv) t = Inr ()"
    "BroadcastBatch C (srvP2pChain srv) (srvPublish srv) txs = Inr out" by (rule SubmitBatch_Ok)
  from t(5) obtain msg where msg: "SerializeBatch C txs = Inr msg" "out = [msg]"
    by (auto simp: BroadcastBatch_def rbind_Inr_iff split: option.splits)
  have "DeserializeBatch C msg = Inr txs"
    using batch_roundtrip_general[OF assms(1) msg(1)] rmap_length[OF t(3)] t(2) rmap_canonical[OF assms(1) t(3)] by simp
  moreover have "length msg \<le> maxBatchBytes" using SerializeBatch_Inr[OF msg(1)] by auto
  ultimately have "readBatches C (srvChain srv) msg txCh = Inr (offerAll txs txCh)" for txCh
    using offerSigned_all[OF t(4)] by (simp add: readBatches_def)
  then show ?thesis using t msg(2) by blast
qed


definition sampleServer :: nodeServer where
  "sampleServer = \<lparr>srvChain = DefaultChainID, srvP2pChain = [], srvPublish = Some (\<lambda>_ _. Inr ()),
     srvAuthorizer = (case serverAuthorizer True [] of Inr a \<Rightarrow> Some a | Inl _ \<Rightarrow> None)\<rparr>"

definition sampleCaller :: caller where
  "sampleCaller = \<lparr>callAuth = NoAuthInfo, callAddr = str ''127.0.0.1:4000'', callTime = 0\<rparr>"

definition sampleRaw :: bytes where
  "sampleRaw = (case Serialize sample_crypto sampleSigned of Inr d \<Rightarrow> d | Inl _ \<Rightarrow> [])"



section \<open>Queries\<close>

text \<open>The parts a node runs; a part that a mode of operation leaves out is \<^const>\<open>None\<close>.\<close>

record nodeRuntime =
  rtGrpcOnly :: bool
  rtPeers :: "nat option"
  rtMempool :: "mempool option"
  rtSM :: "StateDB option"
  rtStaking :: "StakeDB option"
  rtLedger :: LedgerDB
  rtEngine :: "EngineStatus option"

definition consensusPhaseName :: "u8 \<Rightarrow> bytes" where
  "consensusPhaseName p =
     (if p = 1 then str ''propose'' else if p = 2 then str ''prevote'' else if p = 3 then str ''precommit''
      else if p = 4 then str ''commit'' else str ''unknown'')"

record StatusResponse =
  respHeight :: u64
  respStateRoot :: bytes
  respPeerCount :: u64
  respMempoolLen :: u64
  respValidatorCount :: u64
  respRound :: u32
  respPhase :: bytes
  respGrpcOnly :: bool

definition Status :: "nodeRuntime \<Rightarrow> StatusResponse res" where
  "Status n =
     rbind (case rtSM n of None \<Rightarrow> Inr (0, 0) | Some db \<Rightarrow> rbind (CurrentHeight db) (\<lambda>h. Inr (h, CurrentStateRoot db))) (\<lambda>(height, stateRoot).
     rbind (case rtStaking n of None \<Rightarrow> Inr 0 | Some s \<Rightarrow> rbind (ValidatorSet s) (\<lambda>vs. Inr (of_nat (length vs)))) (\<lambda>validatorCount.
      let (height, round, phase) = (case rtEngine n of None \<Rightarrow> (height, 0, [])
            | Some st \<Rightarrow> (if height = 0 \<and> StHeight st > 0 then StHeight st - 1 else height, StRound st, consensusPhaseName (StPhase st))) in
      Inr \<lparr>respHeight = height, respStateRoot = arr32 stateRoot, respPeerCount = (case rtPeers n of None \<Rightarrow> 0 | Some k \<Rightarrow> of_nat k),
           respMempoolLen = (case rtMempool n of None \<Rightarrow> 0 | Some m \<Rightarrow> of_nat (MempoolLen m)),
           respValidatorCount = validatorCount, respRound = round, respPhase = phase, respGrpcOnly = rtGrpcOnly n\<rparr>))"

record AccountResponse =
  accPubkey :: bytes
  accBalance :: bytes
  accNonce :: u64

definition accountQuery :: "nodeRuntime \<Rightarrow> bytes32 \<Rightarrow> AccountResponse res" where
  "accountQuery n pubkey =
     (let bal = BalanceOf (rtLedger n) pubkey in
      rbind (NonceOf (rtLedger n) pubkey) (\<lambda>nonce.
       Inr \<lparr>accPubkey = arr32 pubkey, accBalance = bigString bal, accNonce = nonce\<rparr>))"

definition contractQuery :: "crypto \<Rightarrow> nodeRuntime \<Rightarrow> bytes32 \<Rightarrow> bytes \<Rightarrow> (bool \<times> bytes option \<times> bytes) res" where
  "contractQuery C n contractAddr key = (case rtSM n of None \<Rightarrow> Inl Panic
     | Some db \<Rightarrow> (let (exist, value, stateRoot) = ContractState C db contractAddr key in Inr (exist, value, arr32 stateRoot)))"

definition validatorsQuery :: "nodeRuntime \<Rightarrow> (bytes \<times> bytes) list res" where
  "validatorsQuery n = (case rtStaking n of None \<Rightarrow> Inl Panic
     | Some s \<Rightarrow> rbind (BondedAmounts s) (\<lambda>(pubkeys, bonds). Inr (map (\<lambda>(pk, bond). (arr32 pk, bigString bond)) (zip pubkeys bonds))))"

definition mempoolQuery :: "crypto \<Rightarrow> nodeRuntime \<Rightarrow> (bytes \<times> bytes \<times> u64) list" where
  "mempoolQuery C n = (case rtMempool n of None \<Rightarrow> []
     | Some m \<Rightarrow> List.map_filter (\<lambda>t. case ID C t of Inl _ \<Rightarrow> None | Inr txid \<Rightarrow> Some (arr32 txid, Sender t, Nonce t)) (Snapshot m))"

definition telemetryQuery :: "crypto \<Rightarrow> json \<Rightarrow> nodeRuntime \<Rightarrow> u64 \<Rightarrow> BlockTelemetry res" where
  "telemetryQuery C J n height = (case rtSM n of None \<Rightarrow> Inl (GoError ''state machine unavailable'') | Some db \<Rightarrow>
     rbind (if height = 0 then CurrentHeight db else Inr height) (\<lambda>height.
      rguard (height = 0) (GoError ''no committed block after genesis'')
      (rbind (BlockTelemetryAt J db height) (\<lambda>telemetry. case telemetry of
         Some t \<Rightarrow> Inr t
       | None \<Rightarrow> rbind (BlockAt C db height) (\<lambda>block. BuildBlockTelemetry C block [] False)))))"

text \<open>The handlers check the caller first, then the shape of the request.\<close>

definition observed :: "crypto \<Rightarrow> rpcAuthorizer option \<Rightarrow> authInfo \<Rightarrow> 'a res \<Rightarrow> 'a res" where
  "observed C a info r = rbind (authorize C a info roleObserver) (\<lambda>_. r)"

definition GetStatus :: "crypto \<Rightarrow> rpcAuthorizer option \<Rightarrow> authInfo \<Rightarrow> nodeRuntime \<Rightarrow> StatusResponse res" where
  "GetStatus C a info n = observed C a info (Status n)"

definition GetAccount :: "crypto \<Rightarrow> rpcAuthorizer option \<Rightarrow> authInfo \<Rightarrow> nodeRuntime \<Rightarrow> bytes \<Rightarrow> AccountResponse res" where
  "GetAccount C a info n pubkey =
     observed C a info (rguard (length pubkey \<noteq> 32) (GoError ''pubkey must be 32 bytes'') (accountQuery n (to32 pubkey)))"

definition GetContractState ::
  "crypto \<Rightarrow> rpcAuthorizer option \<Rightarrow> authInfo \<Rightarrow> nodeRuntime \<Rightarrow> bytes \<Rightarrow> bytes \<Rightarrow> (bool \<times> bytes option \<times> bytes) res" where
  "GetContractState C a info n contractAddress key =
     observed C a info (rguard (length contractAddress \<noteq> 32) (GoError ''contract_address must be 32 bytes'')
       (rguard (length key > 32) (GoError ''contract state key must be at most 32 bytes'')
         (contractQuery C n (to32 contractAddress) key)))"

definition ListValidators :: "crypto \<Rightarrow> rpcAuthorizer option \<Rightarrow> authInfo \<Rightarrow> nodeRuntime \<Rightarrow> (bytes \<times> bytes) list res" where
  "ListValidators C a info n = observed C a info (validatorsQuery n)"

definition ListMempool :: "crypto \<Rightarrow> rpcAuthorizer option \<Rightarrow> authInfo \<Rightarrow> nodeRuntime \<Rightarrow> (bytes \<times> bytes \<times> u64) list res" where
  "ListMempool C a info n = observed C a info (Inr (mempoolQuery C n))"

definition GetBlockTelemetry :: "crypto \<Rightarrow> json \<Rightarrow> rpcAuthorizer option \<Rightarrow> authInfo \<Rightarrow> nodeRuntime \<Rightarrow> u64 \<Rightarrow> BlockTelemetry res" where
  "GetBlockTelemetry C J a info n height = observed C a info (telemetryQuery C J n height)"

text \<open>The roles as the handlers use them: an administrator and a validator may submit and observe, a submitter may only submit and an
  observer only observe; nobody else gets past a server that requires an identity.\<close>

lemma authorize_required:
  assumes "requireIdentity a" "authorize C (Some a) info required = Inr ()"
  obtains cert certs role where "info = TLSInfo (cert # certs)" "bget (authRoles a) (EncodeToString (arr32 (sha256 C cert))) = Some role"
    "roleAllows role required"
  using assms by (auto simp: authorize_def rguard_Inr_iff split: authInfo.splits list.splits option.splits)

lemma roles_allow:
  "roleAllows role roleSubmitter \<longleftrightarrow> role \<in> {roleAdmin, roleValidator, roleSubmitter}"
  "roleAllows role roleObserver \<longleftrightarrow> role \<in> {roleAdmin, roleValidator, roleObserver}"
  by (auto simp: roleAllows_def roleAdmin_def roleObserver_def roleSubmitter_def roleValidator_def str_def)

end
