(* ===== verification/FRG_Client.thy ===== *)
theory FRG_Client
  imports FRG_Rpc
begin

text \<open>The other end of the interface: the wallet (\<^verbatim>\<open>wallet/wallet.go\<close>) that builds, signs and submits transactions, and the client
  (\<^verbatim>\<open>client/client.go\<close>, \<^verbatim>\<open>client/queue.go\<close>) that keeps what it cannot submit in an encrypted queue.\<close>


section \<open>The wallet\<close>

record Wallet =
  walKp :: Keypair
  walChain :: bytes

text \<open>A node as its client sees it: the account query and the submission, which may fail on the way.\<close>

record nodeClient =
  clAccount :: "bytes \<Rightarrow> AccountResponse res"
  clSubmit :: "bytes \<Rightarrow> bool res"

definition NewWallet :: "Keypair option \<Rightarrow> nodeClient option \<Rightarrow> bytes \<Rightarrow> Wallet res" where
  "NewWallet kp client chainID = (case kp of None \<Rightarrow> Inl (GoError ''keypair is nil'') | Some kp \<Rightarrow>
     rguard (client = None) (GoError ''client is nil'')
     (Inr \<lparr>walKp = kp, walChain = (if chainID = [] then DefaultChainID else chainID)\<rparr>))"

definition LoadKeypair :: "crypto \<Rightarrow> bytes \<Rightarrow> Keypair res" where
  "LoadKeypair C data =
     (if length data = 32 then Inr (NewKeypairFromSeed C (to32 data))
      else if length data = 64 then Inr (NewKeypairFromPrivateKey C (to64 data))
      else Inl (GoError ''invalid key length''))"

definition SaveSeed :: "Keypair option \<Rightarrow> bytes res" where
  "SaveSeed kp = (case kp of None \<Rightarrow> Inl (GoError ''keypair is nil'') | Some kp \<Rightarrow> Inr (take 32 (arr64 (PrivateKey kp))))"

definition DecodePubKey :: "bytes \<Rightarrow> bytes32 res" where
  "DecodePubKey pubkeyHex = (case DecodeString pubkeyHex of
     None \<Rightarrow> Inl (GoError ''pubkey must be 32-byte hex'')
   | Some raw \<Rightarrow> rguard (length raw \<noteq> 32) (GoError ''pubkey must be 32-byte hex'') (Inr (to32 raw)))"

definition PublicKeyHex :: "Wallet \<Rightarrow> bytes" where
  "PublicKeyHex w = EncodeToString (arr32 (PublicKey (walKp w)))"

definition OwnAccount :: "Wallet \<Rightarrow> nodeClient \<Rightarrow> AccountResponse res" where
  "OwnAccount w cl = clAccount cl (arr32 (PublicKey (walKp w)))"

text \<open>A transaction with the fields the wallet sets, the others zero.\<close>

definition walletTx :: "Wallet \<Rightarrow> u8 \<Rightarrow> string \<Rightarrow> string \<Rightarrow> int \<Rightarrow> u64 \<Rightarrow> bytes32 \<Rightarrow> Tx" where
  "walletTx w ty sender receiver v nonce to =
     \<lparr>Type = ty, Sender = str sender, Receiver = str receiver, Value = Some v, Nonce = nonce,
      SenderPubKey = PublicKey (walKp w), ReceiverPubKey = to, SenderSig = 0, ReceiverSig = 0, MissedHeight = 0, MissedProposer = 0,
      SkipIndex = 0, WasmBytes = [], InitArgs = [], CallData = [], EvidenceA = [], EvidenceB = []\<rparr>"

definition signAndSubmit :: "crypto \<Rightarrow> Wallet \<Rightarrow> nodeClient \<Rightarrow> Tx \<Rightarrow> bytes res" where
  "signAndSubmit C w cl t =
     rbind (SignSenderForChain C (walKp w) (walChain w) t) (\<lambda>sig.
      let t = t\<lparr>SenderSig := sig\<rparr> in
      rbind (Serialize C t) (\<lambda>raw.
      rbind (clSubmit cl raw) (\<lambda>ok.
       rguard (\<not> ok) (GoError ''node rejected transaction'')
       (rbind (ID C t) (\<lambda>txid. Inr (EncodeToString (arr32 txid)))))))"

definition Wallet_Transfer :: "crypto \<Rightarrow> Wallet \<Rightarrow> nodeClient \<Rightarrow> bytes32 \<Rightarrow> int option \<Rightarrow> bytes res" where
  "Wallet_Transfer C w cl to amount = (case amount of None \<Rightarrow> Inl (GoError ''amount must be positive'') | Some v \<Rightarrow>
     rguard (v \<le> 0) (GoError ''amount must be positive'')
     (rbind (OwnAccount w cl) (\<lambda>acct.
      signAndSubmit C w cl (walletTx w TxTypeTransfer ''wallet'' ''wallet'' v (accNonce acct + 1) to))))"

definition Wallet_Bond :: "crypto \<Rightarrow> Wallet \<Rightarrow> nodeClient \<Rightarrow> int option \<Rightarrow> bytes res" where
  "Wallet_Bond C w cl amount = (case amount of None \<Rightarrow> Inl (GoError ''amount must be positive'') | Some v \<Rightarrow>
     rguard (v \<le> 0) (GoError ''amount must be positive'')
     (rbind (OwnAccount w cl) (\<lambda>acct.
      signAndSubmit C w cl (walletTx w TxTypeBond ''validator'' ''staking'' v (accNonce acct + 1) (PublicKey (walKp w))))))"

definition Wallet_Unbond :: "crypto \<Rightarrow> Wallet \<Rightarrow> nodeClient \<Rightarrow> bytes res" where
  "Wallet_Unbond C w cl =
     rbind (OwnAccount w cl) (\<lambda>acct.
      signAndSubmit C w cl (walletTx w TxTypeUnbond ''validator'' ''staking'' 0 (accNonce acct + 1) (PublicKey (walKp w))))"

definition Wallet_FinalizeUnbond :: "crypto \<Rightarrow> Wallet \<Rightarrow> nodeClient \<Rightarrow> bytes res" where
  "Wallet_FinalizeUnbond C w cl =
     rbind (OwnAccount w cl) (\<lambda>acct.
      signAndSubmit C w cl (walletTx w TxTypeFinalizeUnbond ''validator'' ''staking'' 0 (accNonce acct + 1) (PublicKey (walKp w))))"

definition Wallet_ClaimRewards :: "crypto \<Rightarrow> Wallet \<Rightarrow> nodeClient \<Rightarrow> bytes res" where
  "Wallet_ClaimRewards C w cl =
     rbind (OwnAccount w cl) (\<lambda>acct.
      signAndSubmit C w cl (walletTx w TxTypeClaimRewards ''validator'' ''rewards'' 0 (accNonce acct + 1) (PublicKey (walKp w))))"

definition SubmitMissedDeadlineReport :: "crypto \<Rightarrow> Wallet \<Rightarrow> nodeClient \<Rightarrow> u64 \<Rightarrow> bytes32 \<Rightarrow> u32 \<Rightarrow> bytes res" where
  "SubmitMissedDeadlineReport C w cl missedHeight missedProposer skipIndex =
     rbind (OwnAccount w cl) (\<lambda>acct.
      signAndSubmit C w cl ((walletTx w TxTypeMissEvidence ''miss-evidence'' ''missed-proposer'' 0 (accNonce acct + 1) missedProposer)
        \<lparr>MissedHeight := missedHeight, MissedProposer := missedProposer, SkipIndex := skipIndex\<rparr>))"

definition DeployContract :: "crypto \<Rightarrow> Wallet \<Rightarrow> nodeClient \<Rightarrow> bytes \<Rightarrow> int option \<Rightarrow> (bytes \<times> bytes) res" where
  "DeployContract C w cl wasm value =
     rguard (wasm = []) (GoError ''wasm is required'')
     (rbind (OwnAccount w cl) (\<lambda>acct.
      let v = (case value of None \<Rightarrow> 0 | Some v \<Rightarrow> v); nonce = accNonce acct + 1 in
      rguard (v < 0) (GoError ''value must not be negative'')
      (rbind (signAndSubmit C w cl ((walletTx w TxTypeContractDeploy ''wallet'' ''contract'' v nonce 0)\<lparr>WasmBytes := wasm\<rparr>)) (\<lambda>txid.
       Inr (txid, EncodeToString (arr32 (ContractAddr C (PublicKey (walKp w)) nonce)))))))"

definition CallContract :: "crypto \<Rightarrow> Wallet \<Rightarrow> nodeClient \<Rightarrow> bytes32 \<Rightarrow> bytes \<Rightarrow> int option \<Rightarrow> bytes res" where
  "CallContract C w cl contractAddr callData value =
     rbind (OwnAccount w cl) (\<lambda>acct.
      let v = (case value of None \<Rightarrow> 0 | Some v \<Rightarrow> v) in
      rguard (v < 0) (GoError ''value must not be negative'')
      (signAndSubmit C w cl ((walletTx w TxTypeContractCall ''wallet'' ''contract'' v (accNonce acct + 1) contractAddr)\<lparr>CallData := callData\<rparr>)))"

definition Wallet_ContractAddress :: "crypto \<Rightarrow> Wallet \<Rightarrow> u64 \<Rightarrow> bytes32" where
  "Wallet_ContractAddress C w nonce = ContractAddr C (PublicKey (walKp w)) nonce"


section \<open>The offline queue\<close>

text \<open>The authenticated cipher and the key derivation are parameters; the nonce of an encryption is read from the system's random
  source and is an argument.\<close>

record aead =
  gcmSeal :: "bytes32 \<Rightarrow> bytes \<Rightarrow> bytes \<Rightarrow> bytes"
  gcmOpen :: "bytes32 \<Rightarrow> bytes \<Rightarrow> bytes \<Rightarrow> bytes option"
  hkdfKey :: "bytes64 \<Rightarrow> bytes \<Rightarrow> bytes32"

record queueDB =
  qPending :: "(bytes, bytes) bucket"
  qHashes :: "(bytes, bytes) bucket"
  qSequence :: u64
  qKey :: bytes32

definition deriveKey :: "aead \<Rightarrow> Keypair \<Rightarrow> bytes32" where
  "deriveKey A kp = hkdfKey A (PrivateKey kp) (str ''frg-queue-v1'')"

definition openQueue :: "aead \<Rightarrow> Keypair \<Rightarrow> queueDB" where
  "openQueue A kp = \<lparr>qPending = [], qHashes = [], qSequence = 0, qKey = deriveKey A kp\<rparr>"

definition encrypt :: "aead \<Rightarrow> queueDB \<Rightarrow> bytes \<Rightarrow> bytes \<Rightarrow> bytes" where
  "encrypt A q nonce plain = nonce @ gcmSeal A (qKey q) nonce plain"

definition decrypt :: "aead \<Rightarrow> queueDB \<Rightarrow> bytes \<Rightarrow> bytes res" where
  "decrypt A q data =
     rguard (length data < 12) (GoError ''ciphertext too short'')
     (case gcmOpen A (qKey q) (take 12 data) (drop 12 data) of
        None \<Rightarrow> Inl (GoError ''cipher: message authentication failed'')
      | Some plain \<Rightarrow> Inr plain)"

definition queueEnqueue :: "crypto \<Rightarrow> aead \<Rightarrow> queueDB \<Rightarrow> bytes \<Rightarrow> bytes \<Rightarrow> queueDB" where
  "queueEnqueue C A q nonce txBytes =
     (let h = arr32 (sha256 C txBytes); ciphertext = encrypt A q nonce txBytes in
      if bget (qHashes q) h \<noteq> None then q
      else let seq = qSequence q + 1; key = PutUint64 seq in
        q\<lparr>qSequence := seq, qPending := bput (qPending q) key (h @ ciphertext), qHashes := bput (qHashes q) h [1]\<rparr>)"

fun drainEntries :: "aead \<Rightarrow> queueDB \<Rightarrow> (bytes \<times> bytes) list \<Rightarrow> (bytes list \<times> bytes list) res" where
  "drainEntries A q [] = Inr ([], [])"
| "drainEntries A q ((k, v) # kvs) =
     (if length v < 32 then drainEntries A q kvs
      else rbind (decrypt A q (drop 32 v)) (\<lambda>plain.
        rbind (drainEntries A q kvs) (\<lambda>(ks, ps). Inr (k # ks, plain # ps))))"

definition Drain :: "aead \<Rightarrow> queueDB \<Rightarrow> (bytes list \<times> bytes list) res" where
  "Drain A q = drainEntries A q (qPending q)"

definition deleteKey :: "queueDB \<Rightarrow> bytes \<Rightarrow> queueDB" where
  "deleteKey q k =
     (let v = (case bget (qPending q) k of None \<Rightarrow> [] | Some v \<Rightarrow> v);
          hashes' = (if length v \<ge> 32 then bdel (qHashes q) (take 32 v) else qHashes q) in
      q\<lparr>qHashes := hashes', qPending := bdel (qPending q) k\<rparr>)"

definition DeleteKeys :: "queueDB \<Rightarrow> bytes list \<Rightarrow> queueDB" where
  "DeleteKeys q dbKeys = foldl deleteKey q dbKeys"

text \<open>\<^verbatim>\<open>SubmitTx\<close> of the client: \<open>ready\<close> is the state of the connection. The result is the queue and the error returned.\<close>

definition Client_SubmitTx ::
  "crypto \<Rightarrow> aead \<Rightarrow> Wallet \<Rightarrow> nodeClient \<Rightarrow> bool \<Rightarrow> bytes \<Rightarrow> queueDB \<Rightarrow> Tx \<Rightarrow> queueDB \<times> unit res" where
  "Client_SubmitTx C A w cl ready nonce q t =
     (let t = t\<lparr>SenderPubKey := PublicKey (walKp w)\<rparr> in
      case rbind (UnsignedHashForChain C (walChain w) t) (\<lambda>msg.
             Serialize C (t\<lparr>SenderSig := Sign C (walKp w) (arr32 msg)\<rparr>)) of
        Inl e \<Rightarrow> (q, Inl e)
      | Inr txBytes \<Rightarrow>
         if ready then
           (case clSubmit cl txBytes of
              Inr True \<Rightarrow> (q, Inr ())
            | Inr False \<Rightarrow> (q, Inl (GoError ''node rejected transaction''))
            | Inl _ \<Rightarrow> (queueEnqueue C A q nonce txBytes, Inr ()))
         else (queueEnqueue C A q nonce txBytes, Inr ()))"

definition flush :: "aead \<Rightarrow> (bytes list \<Rightarrow> bool res) \<Rightarrow> queueDB \<Rightarrow> queueDB" where
  "flush A submitBatch q = (case Drain A q of
     Inl _ \<Rightarrow> q
   | Inr (dbKeys, txBytesSlice) \<Rightarrow>
      if txBytesSlice = [] then q
      else (case submitBatch txBytesSlice of Inr True \<Rightarrow> DeleteKeys q dbKeys | _ \<Rightarrow> q))"


section \<open>A wallet and its node\<close>

definition serverClient :: "crypto \<Rightarrow> nodeServer \<Rightarrow> submitLimiter \<Rightarrow> caller \<Rightarrow> nodeRuntime \<Rightarrow> nodeClient" where
  "serverClient C srv lim ctx rt =
     \<lparr>clAccount = GetAccount C (srvAuthorizer srv) (callAuth ctx) rt,
      clSubmit = (\<lambda>raw. rbind (snd (SubmitTx C srv lim ctx (Some raw))) (\<lambda>(ok, _). Inr ok))\<rparr>"

text \<open>A node that lets a caller through and whose transport takes every message.\<close>

definition servesCaller :: "crypto \<Rightarrow> nodeServer \<Rightarrow> submitLimiter \<Rightarrow> caller \<Rightarrow> bool" where
  "servesCaller C srv lim ctx \<longleftrightarrow> authorize C (srvAuthorizer srv) (callAuth ctx) roleSubmitter = Inr () \<and>
     authorize C (srvAuthorizer srv) (callAuth ctx) roleObserver = Inr () \<and>
     snd (allow lim (callAddr ctx) (callTime ctx) 1) = Inr () \<and>
     (\<exists>publish. srvPublish srv = Some publish \<and> (\<forall>topic b. publish topic b = Inr ()))"

lemma NonceOf_nonceAt: "ledger_ok l \<Longrightarrow> NonceOf l a = Inr (nonceAt l a)"
  by (auto simp: NonceOf_def nonceAt_def ledger_ok_def bget_def rguard_Inr_iff split: option.splits dest!: map_of_SomeD)

lemma SubmitTx_accepts:
  assumes "servesCaller C srv lim ctx" "Deserialize C raw = Inr t" "length raw \<le> maxTxBytes" "VerifySigsForChain C (srvChain srv) t = Inr ()"
  shows "snd (SubmitTx C srv lim ctx (Some raw)) = Inr (True, [raw])"
proof -
  obtain l where l: "allow lim (callAddr ctx) (callTime ctx) 1 = (l, Inr ())"
    using assms(1) by (cases "allow lim (callAddr ctx) (callTime ctx) 1") (auto simp: servesCaller_def)
  have "BroadcastTx C (srvP2pChain srv) (srvPublish srv) t = Inr [raw]"
    using assms(1) Deserialize_Inr_Serialize[OF assms(2)] by (auto simp: BroadcastTx_def servesCaller_def)
  with assms l show ?thesis by (simp add: SubmitTx_def servesCaller_def)
qed

lemma signAndSubmit_accepted:
  assumes "ed25519_correct C" "nfc_documented C" "keypair_ok C (walKp w)" "SenderPubKey t = PublicKey (walKp w)" "knownTxType (Type t)"
    and "srvChain srv = walChain w" "servesCaller C srv lim ctx" "\<And>s. canonicalTx C (t\<lparr>SenderSig := s\<rparr>) = t\<lparr>SenderSig := s\<rparr>"
    and "serializeUnsigned C t = Inr u" "length u + 192 \<le> maxTxBytes"
  obtains s raw where "SignSenderForChain C (walKp w) (walChain w) t = Inr s" "Serialize C (t\<lparr>SenderSig := s\<rparr>) = Inr raw"
    "snd (SubmitTx C srv lim ctx (Some raw)) = Inr (True, [raw])"
    "signAndSubmit C w (serverClient C srv lim ctx rt) t = Inr (EncodeToString (arr32 (Hash C u)))"
proof -
  obtain s where s: "SignSenderForChain C (walKp w) (walChain w) t = Inr s"
    using assms(9) by (simp add: SignSenderForChain_def UnsignedHashForChain_def)
  have u: "serializeUnsigned C (t\<lparr>SenderSig := s\<rparr>) = Inr u" using assms(9) by simp
  then obtain raw where raw: "Serialize C (t\<lparr>SenderSig := s\<rparr>) = Inr raw" "length raw \<le> maxTxBytes"
    using assms(10) by (simp add: Serialize_def rguard_Inr_iff codec_simps)
  have "Deserialize C raw = Inr (t\<lparr>SenderSig := s\<rparr>)" using Deserialize_Serialize[OF assms(2) raw(1)] assms(8) by simp
  moreover have "VerifySigsForChain C (srvChain srv) (t\<lparr>SenderSig := s\<rparr>) = Inr ()"
    using sign_verify[OF assms(1,3,4,5) s] assms(6) by simp
  ultimately have sub: "snd (SubmitTx C srv lim ctx (Some raw)) = Inr (True, [raw])"
    by (intro SubmitTx_accepts[OF assms(7) _ raw(2)])
  have "signAndSubmit C w (serverClient C srv lim ctx rt) t = Inr (EncodeToString (arr32 (Hash C u)))"
    using s raw(1) sub u by (simp add: signAndSubmit_def serverClient_def ID_def)
  with s raw(1) sub that show thesis by blast
qed



definition sampleRuntime :: nodeRuntime where
  "sampleRuntime = \<lparr>rtGrpcOnly = False, rtPeers = Some 0, rtMempool = None, rtSM = None, rtStaking = None, rtLedger = sampleLedger, rtEngine = None\<rparr>"

definition sampleWallet :: Wallet where
  "sampleWallet = \<lparr>walKp = NewKeypairFromSeed sample_crypto 3, walChain = DefaultChainID\<rparr>"

lemma sampleServer_serves: "servesCaller sample_crypto sampleServer [] sampleCaller"
proof -
  have "authorize sample_crypto (srvAuthorizer sampleServer) (callAuth sampleCaller) roleSubmitter = Inr ()"
    "authorize sample_crypto (srvAuthorizer sampleServer) (callAuth sampleCaller) roleObserver = Inr ()"
    "snd (allow [] (callAddr sampleCaller) (callTime sampleCaller) 1) = Inr ()" by code_simp+
  then show ?thesis by (simp add: servesCaller_def) (simp add: sampleServer_def)
qed



section \<open>The queue keeps its order\<close>

lemma be_bytes_less: "0 \<le> a \<Longrightarrow> a < b \<Longrightarrow> b < 256 ^ k \<Longrightarrow> be_bytes k a < be_bytes k b"
proof (induction k arbitrary: a b)
  case (Suc k)
  have step: "be_bytes (Suc k) v = be_bytes k (v div 256) @ [word_of_int v]" for v by simp
  consider "a div 256 < b div 256" | "a div 256 = b div 256" "a mod 256 < b mod 256"
    using Suc.prems by (smt (verit) div_mult_mod_eq zdiv_mono1)
  then show ?case
  proof cases
    case 1
    have "be_bytes k (a div 256) < be_bytes k (b div 256)" using Suc.prems 1 by (intro Suc.IH) auto
    then show ?thesis unfolding step list_less_def by (rule lexord_sufI) simp
  next
    case 2
    have "(word_of_int a :: byte) < word_of_int b" using 2(2) by (simp add: word_less_def uint_word_of_int)
    then show ?thesis unfolding step list_less_def 2(1) by (intro lexord_append_leftI) simp
  qed
qed simp

lemma PutUint64_less: "a < b \<Longrightarrow> PutUint64 a < PutUint64 b"
  unfolding PutUint64_def using unsigned_less[of b, where 'a = int] by (intro be_bytes_less) (simp_all add: word_less_def)

lemma bput_last: "\<forall>p\<in>set b. fst p < k \<Longrightarrow> bput b k v = b @ [(k, v)]"
  by (induction b k v rule: bput.induct) auto

text \<open>The transactions a queue holds, oldest first, and what adding one does to them.\<close>

definition sealed :: "crypto \<Rightarrow> aead \<Rightarrow> queueDB \<Rightarrow> bytes \<times> bytes \<Rightarrow> bytes \<Rightarrow> bool" where
  "sealed C A q e x \<longleftrightarrow> (\<exists>n nonce. n \<le> qSequence q \<and> fst e = PutUint64 n \<and> length nonce = 12 \<and>
     snd e = arr32 (sha256 C x) @ nonce @ gcmSeal A (qKey q) nonce x)"

definition holds :: "crypto \<Rightarrow> aead \<Rightarrow> queueDB \<Rightarrow> bytes list \<Rightarrow> bool" where
  "holds C A q ts \<longleftrightarrow> list_all2 (sealed C A q) (qPending q) ts \<and> distinct (map fst (qPending q)) \<and> distinct (map (sha256 C) ts) \<and>
     (\<forall>h. bget (qHashes q) h \<noteq> None \<longleftrightarrow> h \<in> arr32 ` sha256 C ` set ts)"

definition queueAdd :: "crypto \<Rightarrow> bytes list \<Rightarrow> bytes \<Rightarrow> bytes list" where
  "queueAdd C ts x = (if sha256 C x \<in> sha256 C ` set ts then ts else ts @ [x])"

lemma arr32_image: "arr32 h \<in> arr32 ` S \<longleftrightarrow> h \<in> S"
  using A32.enc_inject by auto

lemma holds_enqueue:
  assumes "holds C A q ts" "length nonce = 12" "qSequence q \<noteq> -1"
  shows "holds C A (queueEnqueue C A q nonce x) (queueAdd C ts x)"
proof (cases "sha256 C x \<in> sha256 C ` set ts")
  case True
  then have "bget (qHashes q) (arr32 (sha256 C x)) \<noteq> None" using assms(1) by (simp add: holds_def)
  then show ?thesis using True assms(1) by (simp add: queueEnqueue_def queueAdd_def)
next
  case False
  then have "bget (qHashes q) (arr32 (sha256 C x)) = None" using assms(1) arr32_image[of "sha256 C x"] unfolding holds_def by blast
  then have q': "queueEnqueue C A q nonce x = q\<lparr>qSequence := qSequence q + 1,
      qPending := bput (qPending q) (PutUint64 (qSequence q + 1)) (arr32 (sha256 C x) @ encrypt A q nonce x),
      qHashes := bput (qHashes q) (arr32 (sha256 C x)) [1]\<rparr>" by (simp add: queueEnqueue_def Let_def)
  have lt: "n \<le> qSequence q \<Longrightarrow> n < qSequence q + 1" for n
    using unat_inc[OF assms(3)] by (simp add: word_less_nat_alt word_le_nat_alt)
  have "fst e < PutUint64 (qSequence q + 1)" if e: "e \<in> set (qPending q)" for e
  proof -
    have all: "list_all2 (sealed C A q) (qPending q) ts" using assms(1) by (simp add: holds_def)
    obtain i where "i < length (qPending q)" "qPending q ! i = e" using e by (auto simp: in_set_conv_nth)
    then obtain y where "sealed C A q e y" using list_all2_nthD[OF all] by blast
    then show ?thesis using lt PutUint64_less by (auto simp: sealed_def)
  qed
  then have below: "\<forall>e\<in>set (qPending q). fst e < PutUint64 (qSequence q + 1)" by blast
  have app: "bput (qPending q) (PutUint64 (qSequence q + 1)) v = qPending q @ [(PutUint64 (qSequence q + 1), v)]" for v
    by (rule bput_last[OF below])
  have new: "PutUint64 (qSequence q + 1) \<notin> fst ` set (qPending q)" using below by force
  have "list_all2 (sealed C A (queueEnqueue C A q nonce x)) (qPending q) ts"
    using assms(1) lt unfolding holds_def q' by (elim conjE list_all2_mono) (fastforce simp: sealed_def intro: less_imp_le)
  moreover have "sealed C A (queueEnqueue C A q nonce x) (PutUint64 (qSequence q + 1), arr32 (sha256 C x) @ encrypt A q nonce x) x"
    using assms(2) by (auto simp: sealed_def q' encrypt_def)
  ultimately show ?thesis using False assms(1) new
    by (auto simp: holds_def queueAdd_def q' app bget_bput list_all2_appendI)
qed


lemma sealed_entry:
  assumes "\<forall>key nonce p. length nonce = 12 \<longrightarrow> gcmOpen A key nonce (gcmSeal A key nonce p) = Some p" "sealed C A q (k, v) x"
  shows "\<not> length v < 32" "decrypt A q (drop 32 v) = Inr x" "take 32 v = arr32 (sha256 C x)"
  using assms by (auto simp: sealed_def decrypt_def codec_simps)

lemma drain_sealed:
  assumes "\<forall>key nonce p. length nonce = 12 \<longrightarrow> gcmOpen A key nonce (gcmSeal A key nonce p) = Some p" "list_all2 (sealed C A q) es ts"
  shows "drainEntries A q es = Inr (map fst es, ts)"
  using assms(2)
proof (induction es ts rule: list_all2_induct)
  case (Cons e es x ts)
  then show ?case using sealed_entry[OF assms(1), of C q "fst e" "snd e" x] by (cases e) simp
qed simp

lemma foldl_deleteKey:
  assumes "\<forall>key nonce p. length nonce = 12 \<longrightarrow> gcmOpen A key nonce (gcmSeal A key nonce p) = Some p"
    and "list_all2 (sealed C A q0) (qPending q) ts" "distinct (map fst (qPending q))"
  shows "foldl deleteKey q (map fst (qPending q)) =
    q\<lparr>qHashes := foldl bdel (qHashes q) (map (\<lambda>x. arr32 (sha256 C x)) ts), qPending := []\<rparr>"
  using assms(2,3)
proof (induction "qPending q" ts arbitrary: q rule: list_all2_induct)
  case Nil
  then show ?case by simp
next
  case (Cons e es x ts)
  obtain k v where e: "e = (k, v)" by fastforce
  have "bdel (qPending q) k = es"
    using Cons.prems Cons.hyps(4)[symmetric] by (auto simp: bdel_def e intro!: filter_True)
  then have "deleteKey q k = q\<lparr>qHashes := bdel (qHashes q) (arr32 (sha256 C x)), qPending := es\<rparr>"
    using sealed_entry[OF assms(1), of C q0 k v x] Cons.hyps(1) Cons.hyps(4)[symmetric] by (auto simp: deleteKey_def e bget_def)
  with Cons.hyps(3)[of "q\<lparr>qHashes := bdel (qHashes q) (arr32 (sha256 C x)), qPending := es\<rparr>"] Cons.prems Cons.hyps(4)[symmetric]
  show ?case by (simp add: e)
qed

lemma bget_foldl_bdel: "bget (foldl bdel b ks) h = (if h \<in> set ks then None else bget b h)"
  by (induction ks arbitrary: b) (auto simp: bget_bdel)

lemma bucket_empty: "\<forall>h. bget b h = None \<Longrightarrow> b = []"
  by (cases b) (auto simp: bget_def split: if_splits)

lemma holds_delete:
  assumes "\<forall>key nonce p. length nonce = 12 \<longrightarrow> gcmOpen A key nonce (gcmSeal A key nonce p) = Some p" "holds C A q ts"
  shows "DeleteKeys q (map fst (qPending q)) = q\<lparr>qPending := [], qHashes := []\<rparr>"
proof -
  have "bget (foldl bdel (qHashes q) (map (\<lambda>x. arr32 (sha256 C x)) ts)) h = None" for h
    using assms(2) by (auto simp: bget_foldl_bdel holds_def image_image)
  then have "foldl bdel (qHashes q) (map (\<lambda>x. arr32 (sha256 C x)) ts) = []" using bucket_empty by blast
  then show ?thesis using foldl_deleteKey[OF assms(1), of C q q ts] assms(2) by (simp add: DeleteKeys_def holds_def)
qed

lemma holds_run:
  assumes "\<forall>e\<in>set xs. length (fst e) = 12" "holds C A q ts" "unat (qSequence q) + length xs < 2 ^ 64"
  shows "holds C A (foldl (\<lambda>q (nonce, x). queueEnqueue C A q nonce x) q xs) (foldl (queueAdd C) ts (map snd xs))"
  using assms
proof (induction xs arbitrary: q ts)
  case (Cons e xs)
  obtain nonce x where e: "e = (nonce, x)" by fastforce
  have "qSequence q \<noteq> -1" using Cons.prems(3) by (auto simp: unsigned_minus_1_eq_mask mask_eq_exp_minus_1)
  moreover from unat_inc[OF this] have "unat (qSequence (queueEnqueue C A q nonce x)) \<le> Suc (unat (qSequence q))"
    by (simp add: queueEnqueue_def Let_def)
  ultimately show ?case using Cons.prems by (auto simp: e intro!: Cons.IH holds_enqueue)
qed simp

text \<open>C38. The offline queue of the client: what was added comes out in the order in which it was added, each transaction once, and decrypted
  correctly; an accepted batch empties the queue completely, and a refused or failed one leaves it as it was. (The cipher opens what
  it sealed.)\<close>

theorem client_queue_fifo:
  assumes "\<forall>key nonce p. length nonce = 12 \<longrightarrow> gcmOpen A key nonce (gcmSeal A key nonce p) = Some p"
    and "\<forall>e\<in>set xs. length (fst e) = 12" "length xs < 2 ^ 64"
    and "q = foldl (\<lambda>q (nonce, x). queueEnqueue C A q nonce x) (openQueue A kp) xs" "ts = foldl (queueAdd C) [] (map snd xs)"
  shows "Drain A q = Inr (map fst (qPending q), ts) \<and>
    flush A submitBatch q = (if ts \<noteq> [] \<and> submitBatch ts = Inr True then q\<lparr>qPending := [], qHashes := []\<rparr> else q)"
proof -
  have "holds C A (openQueue A kp) []" by (simp add: holds_def openQueue_def)
  from holds_run[OF assms(2) this] assms(3) have h: "holds C A q ts" by (simp add: openQueue_def assms(4,5))
  then have d: "Drain A q = Inr (map fst (qPending q), ts)" using drain_sealed[OF assms(1), of C q "qPending q" ts] by (simp add: Drain_def holds_def)
  with holds_delete[OF assms(1) h] show ?thesis by (auto simp: flush_def split: sum.splits bool.splits)
qed

definition sampleAead :: aead where
  "sampleAead = \<lparr>gcmSeal = (\<lambda>key nonce p. arr32 key @ nonce @ p), gcmOpen = (\<lambda>key nonce c. if take 44 c = arr32 key @ nonce then Some (drop 44 c) else None),
     hkdfKey = (\<lambda>k s. 7)\<rparr>"

theorem client_queue_fifo_witness:
  "let q = foldl (\<lambda>q (nonce, x). queueEnqueue sample_crypto sampleAead q nonce x) (openQueue sampleAead \<lparr>PublicKey = 3, PrivateKey = 3\<rparr>)
     [(replicate 12 1, [5]), (replicate 12 2, [6]), (replicate 12 3, [5])] in
   Drain sampleAead q = Inr ([PutUint64 1, PutUint64 2], [[5], [6]]) \<and> qPending (flush sampleAead (\<lambda>_. Inr True) q) = []"
proof -
  let ?xs = "[(replicate 12 1, [5]), (replicate 12 2, [6]), (replicate 12 3, [5])] :: (bytes \<times> bytes) list"
  have law: "\<forall>key nonce p. length nonce = 12 \<longrightarrow> gcmOpen sampleAead key nonce (gcmSeal sampleAead key nonce p) = Some p"
    by (simp add: sampleAead_def codec_simps)
  have ts: "foldl (queueAdd sample_crypto) [] (map snd ?xs) = [[5], [6]]" by code_simp
  have ks: "map fst (qPending (foldl (\<lambda>q (nonce, x). queueEnqueue sample_crypto sampleAead q nonce x) (openQueue sampleAead \<lparr>PublicKey = 3, PrivateKey = 3\<rparr>) ?xs))
    = [PutUint64 1, PutUint64 2]" by code_simp
  from client_queue_fifo[OF law _ _ refl refl, of ?xs sample_crypto "\<lparr>PublicKey = 3, PrivateKey = 3\<rparr>" "\<lambda>_. Inr True"]
  show ?thesis unfolding Let_def ts ks by simp
qed

end
