(* ===== verification/FRG_Faucet.thy ===== *)
theory FRG_Faucet
  imports FRG_Client
begin

text \<open>The faucet (\<^verbatim>\<open>cmd/frg-faucet/main.go\<close>): its cooldown per key, the transaction it sends, and its handlers as a step relation, since the
  cooldown is checked before the lock is taken.\<close>


unbundle bit_operations_syntax

section \<open>The faucet\<close>

abbreviation (input) defaultFaucetAmount :: int where "defaultFaucetAmount \<equiv> 100"

record faucet =
  faKp :: Keypair
  faChain :: bytes
  faRequests :: "(bytes, bytes) bucket"

definition int64ToBytes :: "64 word \<Rightarrow> bytes" where
  "int64ToBytes v = [ucast (drop_bit 56 v), ucast (drop_bit 48 v), ucast (drop_bit 40 v), ucast (drop_bit 32 v),
     ucast (drop_bit 24 v), ucast (drop_bit 16 v), ucast (drop_bit 8 v), ucast v]"

definition int64FromBytes :: "bytes \<Rightarrow> 64 word" where
  "int64FromBytes b = push_bit 56 (ucast (b ! 0)) OR push_bit 48 (ucast (b ! 1)) OR push_bit 40 (ucast (b ! 2)) OR push_bit 32 (ucast (b ! 3)) OR
     push_bit 24 (ucast (b ! 4)) OR push_bit 16 (ucast (b ! 5)) OR push_bit 8 (ucast (b ! 6)) OR ucast (b ! 7)"

lemma int64_roundtrip: "int64FromBytes (int64ToBytes v) = v"
proof (rule bit_word_eqI)
  fix n assume "n < LENGTH(64)"
  then consider "n < 8" | "8 \<le> n" "n < 16" | "16 \<le> n" "n < 24" | "24 \<le> n" "n < 32" | "32 \<le> n" "n < 40" | "40 \<le> n" "n < 48"
    | "48 \<le> n" "n < 56" | "56 \<le> n" "n < 64" by fastforce
  then show "bit (int64FromBytes (int64ToBytes v)) n \<longleftrightarrow> bit v n"
    by cases (simp_all add: int64FromBytes_def int64ToBytes_def bit_simps less_diff_conv2)
qed


text \<open>The two halves of \<^verbatim>\<open>handleFaucet\<close>: what it does before it takes the lock, and what it does while it holds it. The clock is read in
  both; \<open>parsed\<close> is the outcome of the method check and the JSON decoder.\<close>

definition isRateLimited :: "faucet \<Rightarrow> 64 word \<Rightarrow> bytes32 \<Rightarrow> bool" where
  "isRateLimited f now pubkey =
     (let last = (case bget (faRequests f) (arr32 pubkey) of None \<Rightarrow> 0 | Some v \<Rightarrow> int64FromBytes v) in sint (now - last) < 60)"

definition recordRequest :: "faucet \<Rightarrow> 64 word \<Rightarrow> bytes32 \<Rightarrow> faucet" where
  "recordRequest f now pubkey = f\<lparr>faRequests := bput (faRequests f) (arr32 pubkey) (int64ToBytes now)\<rparr>"

definition checkRequest :: "faucet \<Rightarrow> 64 word \<Rightarrow> bytes option \<Rightarrow> bytes32 res" where
  "checkRequest f now parsed = (case parsed of None \<Rightarrow> Inl (GoError ''invalid JSON'') | Some pubkeyHex \<Rightarrow>
     (case DecodeString pubkeyHex of None \<Rightarrow> Inl (GoError ''pubkey must be 32-byte hex'') | Some pubkeyBytes \<Rightarrow>
      rguard (length pubkeyBytes \<noteq> 32) (GoError ''pubkey must be 32-byte hex'')
      (rguard (isRateLimited f now (to32 pubkeyBytes)) (GoError ''rate limited'') (Inr (to32 pubkeyBytes)))))"

definition getNonce :: "faucet \<Rightarrow> nodeClient \<Rightarrow> u64 res" where
  "getNonce f cl = rbind (clAccount cl (arr32 (PublicKey (faKp f)))) (\<lambda>resp. Inr (accNonce resp + 1))"

definition faucetTx :: "faucet \<Rightarrow> u64 \<Rightarrow> bytes32 \<Rightarrow> Tx" where
  "faucetTx f nonce recipient =
     \<lparr>Type = TxTypeTransfer, Sender = str ''faucet'', Receiver = str ''user'', Value = Some defaultFaucetAmount, Nonce = nonce,
      SenderPubKey = PublicKey (faKp f), ReceiverPubKey = recipient, SenderSig = 0, ReceiverSig = 0, MissedHeight = 0, MissedProposer = 0,
      SkipIndex = 0, WasmBytes = [], InitArgs = [], CallData = [], EvidenceA = [], EvidenceB = []\<rparr>"

definition faucetSubmit :: "nodeClient \<Rightarrow> bytes \<Rightarrow> unit res" where
  "faucetSubmit cl txBytes = rbind (clSubmit cl txBytes) (\<lambda>ok. rguard (\<not> ok) (GoError ''node rejected'') (Inr ()))"

definition grant :: "crypto \<Rightarrow> nodeClient \<Rightarrow> faucet \<Rightarrow> 64 word \<Rightarrow> bytes32 \<Rightarrow> faucet \<times> bytes res" where
  "grant C cl f now recipient =
     (case rbind (getNonce f cl) (\<lambda>nonce.
        let t = faucetTx f nonce recipient in
        rbind (SignSenderForChain C (faKp f) (faChain f) t) (\<lambda>sig.
        let t = t\<lparr>SenderSig := sig\<rparr> in
        rbind (Serialize C t) (\<lambda>txBytes. rbind (faucetSubmit cl txBytes) (\<lambda>_. Inr t)))) of
        Inl e \<Rightarrow> (f, Inl e)
      | Inr t \<Rightarrow> (recordRequest f now recipient, Inr (EncodeToString (arr32 (case ID C t of Inr txid \<Rightarrow> txid | Inl _ \<Rightarrow> 0)))))"

definition handleFaucet :: "crypto \<Rightarrow> nodeClient \<Rightarrow> faucet \<Rightarrow> 64 word \<Rightarrow> bytes option \<Rightarrow> faucet \<times> bytes res" where
  "handleFaucet C cl f now parsed = (case checkRequest f now parsed of Inl e \<Rightarrow> (f, Inl e) | Inr recipient \<Rightarrow> grant C cl f now recipient)"

text \<open>Requests in flight: the server runs a handler per request, so a request may pass the check while others wait for the
  lock. A state is the faucet, the recipients that have passed the check, and the grants made, latest first.\<close>

inductive faucetStep :: "crypto \<Rightarrow> nodeClient \<Rightarrow> 64 word \<Rightarrow> faucet \<times> bytes32 list \<times> (bytes32 \<times> 64 word) list \<Rightarrow>
    faucet \<times> bytes32 list \<times> (bytes32 \<times> 64 word) list \<Rightarrow> bool" for C cl where
  refused: "checkRequest f now parsed = Inl e \<Longrightarrow> faucetStep C cl now (f, waiting, log) (f, waiting, log)"
| arrives: "checkRequest f now parsed = Inr pk \<Longrightarrow> faucetStep C cl now (f, waiting, log) (f, waiting @ [pk], log)"
| granted: "pk \<in> set waiting \<Longrightarrow> grant C cl f now pk = (f', Inr txid) \<Longrightarrow>
    faucetStep C cl now (f, waiting, log) (f', remove1 pk waiting, (pk, now) # log)"
| failed: "pk \<in> set waiting \<Longrightarrow> grant C cl f now pk = (f', Inl e) \<Longrightarrow>
    faucetStep C cl now (f, waiting, log) (f', remove1 pk waiting, log)"

fun faucetRun :: "crypto \<Rightarrow> nodeClient \<Rightarrow> faucet \<Rightarrow> (64 word \<times> bytes option) list \<Rightarrow> faucet \<times> (bytes32 \<times> 64 word) list" where
  "faucetRun C cl f [] = (f, [])"
| "faucetRun C cl f ((now, parsed) # reqs) =
     (case checkRequest f now parsed of
        Inl _ \<Rightarrow> faucetRun C cl f reqs
      | Inr pk \<Rightarrow> (case grant C cl f now pk of
          (f', Inl _) \<Rightarrow> faucetRun C cl f' reqs
        | (f', Inr _) \<Rightarrow> (let (f'', log) = faucetRun C cl f' reqs in (f'', (pk, now) # log))))"


section \<open>One grant a minute\<close>

lemma grant_Inr:
  assumes "grant C cl f now pk = (f', Inr txid)"
  shows "f' = recordRequest f now pk"
  using assms by (auto simp: grant_def split: sum.splits)

lemma grant_Inl:
  assumes "grant C cl f now pk = (f', Inl e)"
  shows "f' = f"
  using assms by (auto simp: grant_def split: sum.splits)

lemma checkRequest_Inr:
  assumes "checkRequest f now parsed = Inr pk"
  shows "\<not> isRateLimited f now pk"
  using assms by (auto simp: checkRequest_def rguard_Inr_iff split: option.splits)

lemma sint_diff:
  assumes "0 \<le> sint (a :: 64 word)" "0 \<le> sint b"
  shows "sint (a - b) = sint a - sint b"
proof -
  have "sint a < 2 ^ 63" "sint b < 2 ^ 63" using sint_lt[of a] sint_lt[of b] by simp_all
  with assms show ?thesis by (intro signed_take_bit_int_eq_self[THEN trans[OF sint_word_ariths(2)[of a b, simplified]]]) simp_all
qed

definition lastGrant :: "faucet \<Rightarrow> bytes32 \<Rightarrow> int" where
  "lastGrant f pk = (case bget (faRequests f) (arr32 pk) of None \<Rightarrow> 0 | Some v \<Rightarrow> sint (int64FromBytes v))"

lemma lastGrant_record: "lastGrant (recordRequest f now pk) pk' = (if pk' = pk then sint now else lastGrant f pk')"
  using A32.enc_inject by (auto simp: lastGrant_def recordRequest_def bget_bput int64_roundtrip)

lemma limited_iff:
  assumes "0 \<le> sint now" "0 \<le> lastGrant f pk"
  shows "isRateLimited f now pk \<longleftrightarrow> sint now < lastGrant f pk + 60"
  using assms by (auto simp: isRateLimited_def lastGrant_def sint_diff split: option.splits)

definition spaced :: "(bytes32 \<Rightarrow> int) \<Rightarrow> (bytes32 \<times> 64 word) list \<Rightarrow> bool" where
  "spaced prev log \<longleftrightarrow> (\<forall>i<length log. prev (fst (log ! i)) + 60 \<le> sint (snd (log ! i)) \<and>
     (\<forall>j<i. fst (log ! j) = fst (log ! i) \<longrightarrow> sint (snd (log ! j)) + 60 \<le> sint (snd (log ! i))))"

lemma spaced_Cons:
  assumes "prev pk + 60 \<le> sint now" "spaced (prev(pk := sint now)) log"
  shows "spaced prev ((pk, now) # log)"
  unfolding spaced_def
proof (intro allI impI)
  fix i assume i: "i < length ((pk, now) # log)"
  show "prev (fst (((pk, now) # log) ! i)) + 60 \<le> sint (snd (((pk, now) # log) ! i)) \<and>
     (\<forall>j<i. fst (((pk, now) # log) ! j) = fst (((pk, now) # log) ! i) \<longrightarrow> sint (snd (((pk, now) # log) ! j)) + 60 \<le> sint (snd (((pk, now) # log) ! i)))"
  proof (cases i)
    case (Suc k)
    then have k: "(prev(pk := sint now)) (fst (log ! k)) + 60 \<le> sint (snd (log ! k))"
      "\<forall>j<k. fst (log ! j) = fst (log ! k) \<longrightarrow> sint (snd (log ! j)) + 60 \<le> sint (snd (log ! k))"
      using assms(2) i by (auto simp: spaced_def)
    have "prev (fst (log ! k)) + 60 \<le> sint (snd (log ! k))" using k(1) assms(1) by (auto split: if_splits)
    moreover have "\<forall>j<Suc k. fst (((pk, now) # log) ! j) = fst (log ! k) \<longrightarrow> sint (snd (((pk, now) # log) ! j)) + 60 \<le> sint (snd (log ! k))"
      using k by (auto simp: less_Suc_eq_0_disj split: if_splits)
    ultimately show ?thesis by (simp add: Suc)
  qed (use assms(1) in simp)
qed

lemma faucetRun_spaced:
  assumes "\<forall>r\<in>set reqs. 0 \<le> sint (fst r)" "\<forall>pk. 0 \<le> lastGrant f pk"
  shows "spaced (lastGrant f) (snd (faucetRun C cl f reqs))"
  using assms
proof (induction reqs arbitrary: f)
  case (Cons r reqs)
  obtain now parsed where r: "r = (now, parsed)" by fastforce
  show ?case
  proof (cases "checkRequest f now parsed")
    case (Inr pk)
    obtain f' x where g: "grant C cl f now pk = (f', x)" by fastforce
    show ?thesis
    proof (cases x)
      case x: (Inl e)
      then have "f' = f" using grant_Inl g by blast
      then show ?thesis using Cons r Inr g x by simp
    next
      case x: (Inr txid)
      have f': "f' = recordRequest f now pk" using grant_Inr g x by blast
      have eq: "lastGrant f' = (lastGrant f)(pk := sint now)" by (rule ext) (simp add: f' lastGrant_record)
      have "spaced (lastGrant f') (snd (faucetRun C cl f' reqs))" using Cons.prems r by (intro Cons.IH) (auto simp: eq)
      moreover have "lastGrant f pk + 60 \<le> sint now"
        using checkRequest_Inr[OF Inr] limited_iff[of now f pk] Cons.prems r by simp
      ultimately show ?thesis using spaced_Cons[of "lastGrant f" pk now "snd (faucetRun C cl f' reqs)"] r Inr g x
        by (simp add: eq split_beta)
    qed
  qed (use Cons r in simp)
qed (simp add: spaced_def)



definition plainCrypto :: crypto where
  "plainCrypto = \<lparr>sha256 = (\<lambda>_. 0), ed_verify = (\<lambda>_ _ _. True), ed_sign = (\<lambda>_ _. 0), ed_public = (\<lambda>_. 0), ed_from_seed = (\<lambda>_. 0), nfc = id\<rparr>"

definition sampleFaucet :: faucet where
  "sampleFaucet = \<lparr>faKp = NewKeypairFromSeed plainCrypto 3, faChain = DefaultChainID, faRequests = []\<rparr>"

definition sampleNode :: nodeClient where
  "sampleNode = \<lparr>clAccount = (\<lambda>pk. Inr \<lparr>accPubkey = pk, accBalance = str ''100'', accNonce = 0\<rparr>), clSubmit = (\<lambda>_. Inr True)\<rparr>"

definition sampleRequests :: "(64 word \<times> bytes option) list" where
  "sampleRequests = map (\<lambda>now. (now, Some (EncodeToString (arr32 9)))) [1000, 1059, 1060]"


text \<open>Requests in flight at the same time are another matter. Whatever has been granted once can be granted again to a second request that
  passed the check before, at the same time; and as long as the node reports the same nonce, the transaction of every further grant,
  to whatever key, is stale once the first one has been applied, although the faucet has reported success and started the cooldown.\<close>

lemma grant_again:
  assumes "grant C cl f now pk = (f', Inr txid)"
  shows "grant C cl (recordRequest f now' pk') now pk = (recordRequest (recordRequest f now' pk') now pk, Inr txid)"
  using assms by (auto simp: grant_def getNonce_def faucetTx_def recordRequest_def split: sum.splits)

theorem faucet_overlap_grants_twice:
  assumes "checkRequest f now parsed = Inr pk" "grant C cl f now pk = (f', Inr txid)"
  shows "\<exists>f''. (faucetStep C cl now)\<^sup>*\<^sup>* (f, [], []) (f'', [], [(pk, now), (pk, now)])"
proof -
  let ?f1 = "recordRequest f now pk"
  have "faucetStep C cl now (f, [], []) (f, [pk], [])" using faucetStep.arrives[OF assms(1), of C cl "[]"] by simp
  moreover have "faucetStep C cl now (f, [pk], []) (f, [pk, pk], [])" using faucetStep.arrives[OF assms(1), of C cl "[pk]"] by simp
  moreover have "faucetStep C cl now (f, [pk, pk], []) (?f1, [pk], [(pk, now)])"
    using faucetStep.granted[of pk "[pk, pk]" C cl f now f' txid "[]"] assms(2) grant_Inr[OF assms(2)] by simp
  moreover have "faucetStep C cl now (?f1, [pk], [(pk, now)]) (recordRequest ?f1 now pk, [], [(pk, now), (pk, now)])"
    using faucetStep.granted[OF _ grant_again[OF assms(2), of now pk], of "[pk]" "[(pk, now)]"] by simp
  ultimately show ?thesis by (meson rtranclp.rtrancl_refl rtranclp.rtrancl_into_rtrancl)
qed

theorem faucet_second_grant_stale:
  assumes "TransferTx l (faucetTx f nonce pk) = Inr l'"
  shows "TransferTx l' (faucetTx f nonce pk') = Inl (RGError ErrSequenceFault)"
proof -
  let ?a = "PublicKey (faKp f)"
  from assms have n: "nonces l' = bput (nonces l) ?a (PutUint64 nonce)"
    by (auto simp: TransferTx_def AdvanceNonceTx_def faucetTx_def setBalances_def rbind_Inr_iff rguard_Inr_iff Let_def)
  have "AdvanceNonceTx l' ?a nonce = Inl (RGError ErrSequenceFault)"
    using U64.dec_enc_exact[of nonce] by (simp add: AdvanceNonceTx_def n bget_bput codec_simps)
  then show ?thesis by (simp add: TransferTx_def faucetTx_def)
qed

end
