(* ===== verification/FRG_Bench.thy ===== *)
theory FRG_Bench
  imports FRG_Base
begin

text \<open>The two trees the protocol's coarse-graining tree is compared with: a binary Merkle tree (\<^verbatim>\<open>benchmarks/merkle/merkle.go\<close>) and a
  sparse Merkle tree (\<^verbatim>\<open>benchmarks/smt/smt.go\<close>).\<close>


section \<open>The reference Merkle tree\<close>

definition leafHash :: "crypto \<Rightarrow> u64 \<Rightarrow> bytes32" where
  "leafHash C v = Hash C (PutUint64 v)"

definition parentHash :: "crypto \<Rightarrow> bytes32 \<Rightarrow> bytes32 \<Rightarrow> bytes32" where
  "parentHash C left right = Hash C (arr32 left @ arr32 right)"

definition pairHash :: "crypto \<Rightarrow> bytes32 list \<Rightarrow> nat \<Rightarrow> bytes32" where
  "pairHash C layer i =
     (let left = layer ! (i * 2); right = (if i * 2 + 1 < length layer then layer ! (i * 2 + 1) else left) in parentHash C left right)"

definition nextLayer :: "crypto \<Rightarrow> bytes32 list \<Rightarrow> bytes32 list" where
  "nextLayer C layer = map (pairHash C layer) [0..<(length layer + 1) div 2]"

lemma length_nextLayer [simp]: "length (nextLayer C layer) = (length layer + 1) div 2"
  by (simp add: nextLayer_def)

function reduceLayers :: "crypto \<Rightarrow> bytes32 list \<Rightarrow> bytes32 list" where
  "reduceLayers C layer = (if length layer > 1 then reduceLayers C (nextLayer C layer) else layer)"
  by pat_completeness auto
termination by (relation "measure (\<lambda>(_, layer). length layer)") auto

definition Merkle_Build :: "crypto \<Rightarrow> u64 list \<Rightarrow> bytes32" where
  "Merkle_Build C vals = (if vals = [] then 0 else reduceLayers C (map (leafHash C) vals) ! 0)"

text \<open>\<^verbatim>\<open>idx ^ 1\<close> on a non-negative index.\<close>

definition sibling :: "nat \<Rightarrow> nat" where
  "sibling i = (if even i then i + 1 else i - 1)"

function proofLoop :: "crypto \<Rightarrow> bytes32 list \<Rightarrow> nat \<Rightarrow> bytes32 list" where
  "proofLoop C layer idx =
     (if length layer > 1
      then (if sibling idx < length layer then layer ! sibling idx else layer ! idx) # proofLoop C (nextLayer C layer) (idx div 2)
      else [])"
  by pat_completeness auto
termination by (relation "measure (\<lambda>(_, layer, _). length layer)") auto

definition Merkle_GenerateProof :: "crypto \<Rightarrow> u64 list \<Rightarrow> int \<Rightarrow> bytes32 list" where
  "Merkle_GenerateProof C vals idx =
     (if idx < 0 \<or> idx \<ge> int (length vals) then [] else proofLoop C (map (leafHash C) vals) (nat idx))"

fun climb :: "crypto \<Rightarrow> bytes32 \<Rightarrow> nat \<Rightarrow> bytes32 list \<Rightarrow> bytes32" where
  "climb C current idx [] = current"
| "climb C current idx (s # proof) =
     climb C (if idx mod 2 = 0 then parentHash C current s else parentHash C s current) (idx div 2) proof"

definition Merkle_VerifyProof :: "crypto \<Rightarrow> bytes32 \<Rightarrow> nat \<Rightarrow> u64 \<Rightarrow> bytes32 list \<Rightarrow> bool" where
  "Merkle_VerifyProof C rootHash idx value proof \<longleftrightarrow> climb C (leafHash C value) idx proof = rootHash"

record MerkleTree =
  mtLayers :: "bytes32 list list"
  mtRoot :: bytes32

function allLayers :: "crypto \<Rightarrow> bytes32 list \<Rightarrow> bytes32 list list" where
  "allLayers C layer = layer # (if length layer > 1 then allLayers C (nextLayer C layer) else [])"
  by pat_completeness auto
termination by (relation "measure (\<lambda>(_, layer). length layer)") auto

definition NewMerkleTree :: "crypto \<Rightarrow> u64 list \<Rightarrow> MerkleTree" where
  "NewMerkleTree C vals =
     (if vals = [] then \<lparr>mtLayers = [], mtRoot = 0\<rparr>
      else let layers = allLayers C (map (leafHash C) vals) in \<lparr>mtLayers = layers, mtRoot = last layers ! 0\<rparr>)"

text \<open>The walk of \<^verbatim>\<open>UpdateLeaf\<close> up the layers: the first layer already holds the new value at \<open>pos\<close>.\<close>

fun updatePath :: "crypto \<Rightarrow> bytes32 list list \<Rightarrow> nat \<Rightarrow> bytes32 list list" where
  "updatePath C [] pos = []"
| "updatePath C [layer] pos = [layer]"
| "updatePath C (layer # upper # layers) pos =
     (let left = layer ! pos; right = (if sibling pos < length layer then layer ! sibling pos else left);
          parent = (if pos mod 2 = 0 then parentHash C left right else parentHash C right left) in
      layer # updatePath C (upper[pos div 2 := parent] # layers) (pos div 2))"

definition UpdateMerkleLeaf :: "crypto \<Rightarrow> MerkleTree \<Rightarrow> nat \<Rightarrow> u64 \<Rightarrow> MerkleTree option" where
  "UpdateMerkleLeaf C mt idx newValue = (case mtLayers mt of
     [] \<Rightarrow> None
   | layer # layers \<Rightarrow>
      if idx \<ge> length layer then None
      else let layers = updatePath C (layer[idx := leafHash C newValue] # layers) idx in
        Some \<lparr>mtLayers = layers, mtRoot = last layers ! 0\<rparr>)"

text \<open>\<^verbatim>\<open>UpdateLeaves\<close>: \<open>sortSlice\<close> is \<^verbatim>\<open>sort.Slice\<close>, which may order entries of one index in any way; of these the last one counts. The
  parents to recompute are a map in the code, visited in some order; each is written once.\<close>

type_synonym MerkleLeafUpdate = "nat \<times> u64"

definition dedupUpdates :: "(MerkleLeafUpdate list \<Rightarrow> MerkleLeafUpdate list) \<Rightarrow> MerkleLeafUpdate list \<Rightarrow> MerkleLeafUpdate list" where
  "dedupUpdates sortSlice updates = foldl (\<lambda>m (idx, v). bput m idx v) [] (sortSlice updates)"

fun updateDirty :: "crypto \<Rightarrow> bytes32 list list \<Rightarrow> nat list \<Rightarrow> bytes32 list list" where
  "updateDirty C [] dirty = []"
| "updateDirty C [layer] dirty = [layer]"
| "updateDirty C (layer # upper # layers) dirty =
     (let parents = remdups (map (\<lambda>pos. pos div 2) dirty) in
      layer # updateDirty C (foldl (\<lambda>u parent. u[parent := pairHash C layer parent]) upper parents # layers) parents)"

definition UpdateMerkleLeaves ::
  "crypto \<Rightarrow> (MerkleLeafUpdate list \<Rightarrow> MerkleLeafUpdate list) \<Rightarrow> MerkleTree \<Rightarrow> MerkleLeafUpdate list \<Rightarrow> MerkleTree option" where
  "UpdateMerkleLeaves C sortSlice mt updates =
     (if updates = [] then Some mt
      else let deduped = dedupUpdates sortSlice updates in
        case mtLayers mt of
          [] \<Rightarrow> None
        | layer # layers \<Rightarrow>
           if list_ex (\<lambda>(idx, _). idx \<ge> length layer) deduped then None
           else let layers = updateDirty C (foldl (\<lambda>l (idx, v). l[idx := leafHash C v]) layer deduped # layers) (map fst deduped) in
             Some \<lparr>mtLayers = layers, mtRoot = last layers ! 0\<rparr>)"


section \<open>Proofs and updates\<close>

declare reduceLayers.simps [simp del] proofLoop.simps [simp del] allLayers.simps [simp del]

lemma nextLayer_nth:
  assumes "pos < length layer"
  shows "nextLayer C layer ! (pos div 2) = (let s = (if sibling pos < length layer then layer ! sibling pos else layer ! pos) in
    if pos mod 2 = 0 then parentHash C (layer ! pos) s else parentHash C s (layer ! pos))"
proof -
  have "pos div 2 < (length layer + 1) div 2" using assms by linarith
  then have n: "nextLayer C layer ! (pos div 2) = pairHash C layer (pos div 2)" by (simp add: nextLayer_def)
  show ?thesis
  proof (cases "even pos")
    case True
    then show ?thesis by (auto simp: n pairHash_def Let_def sibling_def)
  next
    case False
    then have "pos div 2 * 2 = pos - 1" "pos div 2 * 2 + 1 = pos" "0 < pos" "pos - 1 < length layer" using assms by (auto elim: oddE)
    then show ?thesis using False assms by (simp add: n pairHash_def Let_def sibling_def mod2_eq_if)
  qed
qed

lemma climb_proof:
  assumes "idx < length layer"
  shows "climb C (layer ! idx) idx (proofLoop C layer idx) = reduceLayers C layer ! 0"
  using assms
proof (induction C layer idx rule: proofLoop.induct)
  case (1 C layer idx)
  show ?case
  proof (cases "length layer > 1")
    case True
    have "idx div 2 < length (nextLayer C layer)" using "1.prems" by auto
    then have "climb C (nextLayer C layer ! (idx div 2)) (idx div 2) (proofLoop C (nextLayer C layer) (idx div 2)) = reduceLayers C (nextLayer C layer) ! 0"
      using "1.IH" True by simp
    then show ?thesis using True nextLayer_nth[OF "1.prems", of C]
      by (simp add: proofLoop.simps[of C layer] reduceLayers.simps[of C layer] Let_def split: if_splits)
  next
    case False
    then have "idx = 0" using "1.prems" by linarith
    then show ?thesis using False by (simp add: proofLoop.simps[of C layer] reduceLayers.simps[of C layer])
  qed
qed

lemma nextLayer_update:
  assumes "pos < length layer"
  shows "nextLayer C (layer[pos := h]) = (nextLayer C layer)[pos div 2 := nextLayer C (layer[pos := h]) ! (pos div 2)]"
proof (rule nth_equalityI)
  fix i assume i: "i < length (nextLayer C (layer[pos := h]))"
  show "nextLayer C (layer[pos := h]) ! i = (nextLayer C layer)[pos div 2 := nextLayer C (layer[pos := h]) ! (pos div 2)] ! i"
  proof (cases "i = pos div 2")
    case False
    then have "i * 2 \<noteq> pos" "i * 2 + 1 \<noteq> pos" by auto
    then show ?thesis using i False by (simp add: nextLayer_def pairHash_def Let_def)
  qed (use i in simp)
qed simp

lemma updatePath_rebuilds:
  assumes "pos < length layer"
  shows "updatePath C (layer[pos := h] # (if length layer > 1 then allLayers C (nextLayer C layer) else [])) pos = allLayers C (layer[pos := h])"
  using assms
proof (induction C layer arbitrary: pos h rule: allLayers.induct)
  case (1 C layer)
  show ?case
  proof (cases "length layer > 1")
    case True
    let ?n = "nextLayer C layer" and ?l = "layer[pos := h]"
    have pos: "pos div 2 < length ?n" using "1.prems" by auto
    have up: "?n[pos div 2 := nextLayer C ?l ! (pos div 2)] = nextLayer C ?l" using nextLayer_update[OF "1.prems"] by simp
    have parent: "(let left = ?l ! pos; right = (if sibling pos < length ?l then ?l ! sibling pos else left) in
        if pos mod 2 = 0 then parentHash C left right else parentHash C right left) = nextLayer C ?l ! (pos div 2)"
      using nextLayer_nth[of pos ?l C] "1.prems" by (simp add: Let_def)
    have "updatePath C (?n[pos div 2 := nextLayer C ?l ! (pos div 2)] # (if length ?n > 1 then allLayers C (nextLayer C ?n) else [])) (pos div 2)
      = allLayers C (nextLayer C ?l)" using "1.IH"[OF True pos, of "nextLayer C ?l ! (pos div 2)"] up by simp
    then show ?thesis using True parent
      by (simp add: allLayers.simps[of C ?n] allLayers.simps[of C ?l] Let_def del: nth_list_update_eq)
  next
    case False
    then show ?thesis by (simp add: allLayers.simps[of C "layer[pos := h]"])
  qed
qed

lemma last_allLayers: "last (allLayers C layer) = reduceLayers C layer"
  by (induction C layer rule: allLayers.induct) (subst allLayers.simps, subst reduceLayers.simps, auto simp: allLayers.simps)


lemma foldl_update:
  "foldl (\<lambda>u p. u[p := f p]) xs ps ! i = (if i \<in> set ps then f i else xs ! i)" if "i < length xs"
  using that by (induction ps arbitrary: xs) (auto simp: nth_list_update)

lemma length_foldl_update: "length (foldl (\<lambda>u p. u[p := f p]) xs ps) = length xs"
  by (induction ps arbitrary: xs) auto

lemma nextLayer_dirty:
  assumes "length layer' = length layer" "\<forall>i<length layer. i \<notin> set dirty \<longrightarrow> layer' ! i = layer ! i"
  shows "foldl (\<lambda>u p. u[p := pairHash C layer' p]) (nextLayer C layer) (remdups (map (\<lambda>pos. pos div 2) dirty)) = nextLayer C layer'"
proof (rule nth_equalityI)
  fix i assume "i < length (foldl (\<lambda>u p. u[p := pairHash C layer' p]) (nextLayer C layer) (remdups (map (\<lambda>pos. pos div 2) dirty)))"
  then have i: "i < length (nextLayer C layer)" by (simp add: length_foldl_update)
  show "foldl (\<lambda>u p. u[p := pairHash C layer' p]) (nextLayer C layer) (remdups (map (\<lambda>pos. pos div 2) dirty)) ! i = nextLayer C layer' ! i"
  proof (cases "i \<in> (\<lambda>pos. pos div 2) ` set dirty")
    case True
    then show ?thesis using i assms(1) by (simp add: foldl_update[OF i]) (simp add: nextLayer_def)
  next
    case False
    have "i * 2 \<notin> set dirty" "i * 2 + 1 \<notin> set dirty" using False by (force simp: image_iff)+
    moreover have "i * 2 < length layer" using i by simp
    ultimately have "pairHash C layer' i = pairHash C layer i" using assms by (simp add: pairHash_def Let_def)
    then show ?thesis using i False assms(1) by (simp add: foldl_update[OF i]) (simp add: nextLayer_def)
  qed
qed (simp add: length_foldl_update assms(1))

lemma updateDirty_rebuilds:
  assumes "length layer' = length layer" "\<forall>i<length layer. i \<notin> set dirty \<longrightarrow> layer' ! i = layer ! i"
  shows "updateDirty C (layer' # (if length layer > 1 then allLayers C (nextLayer C layer) else [])) dirty = allLayers C layer'"
  using assms
proof (induction C layer arbitrary: layer' dirty rule: allLayers.induct)
  case (1 C layer)
  show ?case
  proof (cases "length layer > 1")
    case True
    let ?n = "nextLayer C layer" and ?p = "remdups (map (\<lambda>pos. pos div 2) dirty)"
    note step = nextLayer_dirty[OF "1.prems", of C]
    have keep: "\<forall>i<length ?n. i \<notin> set ?p \<longrightarrow> nextLayer C layer' ! i = ?n ! i"
      using foldl_update[of _ ?n "pairHash C layer'" ?p] step by simp
    have "updateDirty C (nextLayer C layer' # (if length ?n > 1 then allLayers C (nextLayer C ?n) else [])) ?p = allLayers C (nextLayer C layer')"
      using "1.prems"(1) keep by (intro "1.IH"[OF True]) simp_all
    then show ?thesis using True "1.prems"(1) step by (simp add: allLayers.simps[of C ?n] allLayers.simps[of C layer'] Let_def)
  next
    case False
    then show ?thesis using "1.prems"(1) by (simp add: allLayers.simps[of C layer'])
  qed
qed

lemma foldl_leaves:
  "foldl (\<lambda>l (idx, v). l[idx := leafHash C v]) (map (leafHash C) vals) us = map (leafHash C) (foldl (\<lambda>l (idx, v). l[idx := v]) vals us)"
  by (induction us arbitrary: vals) (auto simp flip: map_update)

lemma foldl_values:
  "length (foldl (\<lambda>l (idx, v). l[idx := v]) vals us) = length vals"
  "i < length vals \<Longrightarrow> i \<notin> fst ` set us \<Longrightarrow> foldl (\<lambda>l (idx, v). l[idx := v]) vals us ! i = vals ! i"
  by (induction us arbitrary: vals) (auto simp: nth_list_update)





section \<open>The sparse Merkle tree\<close>

fun defaultNodes :: "crypto \<Rightarrow> nat \<Rightarrow> bytes32" where
  "defaultNodes C 0 = 0"
| "defaultNodes C (Suc i) = Hash C (arr32 (defaultNodes C i) @ arr32 (defaultNodes C i))"

datatype smtNode = SmtNode (nodeHashOf: bytes32) (nodeDepth: nat) (leftOf: "smtNode option") (rightOf: "smtNode option")

definition valueHash :: "crypto \<Rightarrow> u64 \<Rightarrow> bytes32" where
  "valueHash C v = Hash C (PutUint64 v)"

definition nodeHash :: "crypto \<Rightarrow> bytes32 \<Rightarrow> bytes32 \<Rightarrow> bytes32" where
  "nodeHash C left right = Hash C (arr32 left @ arr32 right)"

definition isBitSet :: "bytes32 \<Rightarrow> nat \<Rightarrow> bool" where
  "isBitSet key b = bit (arr32 key ! (b div 8)) (7 - b mod 8)"

record SmtTree =
  smtLeaves :: "(bytes32, u64) bucket"
  smtRoot :: bytes32
  smtDirty :: bool

definition NewSmt :: SmtTree where
  "NewSmt = \<lparr>smtLeaves = [], smtRoot = 0, smtDirty = False\<rparr>"

definition smtInsertKey :: "SmtTree \<Rightarrow> bytes32 \<Rightarrow> u64 \<Rightarrow> SmtTree" where
  "smtInsertKey t key v = t\<lparr>smtLeaves := bput (smtLeaves t) key v, smtDirty := True\<rparr>"

text \<open>The walk that places a leaf; \<open>n\<close> bits of the key are left, and the node at hand has depth \<open>n\<close>.\<close>

fun placeLeaf :: "crypto \<Rightarrow> bytes32 \<Rightarrow> bytes32 \<Rightarrow> nat \<Rightarrow> smtNode \<Rightarrow> smtNode" where
  "placeLeaf C key leaf 0 (SmtNode h d l r) = SmtNode leaf d None None"
| "placeLeaf C key leaf (Suc n) (SmtNode h d l r) =
     (let fresh = SmtNode (defaultNodes C n) n None None in
      if isBitSet key (255 - n)
      then SmtNode h d l (Some (placeLeaf C key leaf n (case r of None \<Rightarrow> fresh | Some x \<Rightarrow> x)))
      else SmtNode h d (Some (placeLeaf C key leaf n (case l of None \<Rightarrow> fresh | Some x \<Rightarrow> x))) r)"

fun computeHashes :: "crypto \<Rightarrow> smtNode \<Rightarrow> smtNode" where
  "computeHashes C (SmtNode h d None None) = SmtNode h d None None"
| "computeHashes C (SmtNode h d (Some l) None) =
     (let l = computeHashes C l in SmtNode (nodeHash C (nodeHashOf l) (defaultNodes C (d - 1))) d (Some l) None)"
| "computeHashes C (SmtNode h d None (Some r)) =
     (let r = computeHashes C r in SmtNode (nodeHash C (defaultNodes C (d - 1)) (nodeHashOf r)) d None (Some r))"
| "computeHashes C (SmtNode h d (Some l) (Some r)) =
     (let l = computeHashes C l; r = computeHashes C r in SmtNode (nodeHash C (nodeHashOf l) (nodeHashOf r)) d (Some l) (Some r))"

text \<open>The leaves are visited in the order of a map.\<close>

definition smtNodes :: "crypto \<Rightarrow> (bytes32 \<times> u64) list \<Rightarrow> smtNode" where
  "smtNodes C leaves =
     computeHashes C (foldl (\<lambda>node (key, v). placeLeaf C key (valueHash C v) 256 node) (SmtNode (defaultNodes C 256) 256 None None) leaves)"

definition smtBuild :: "crypto \<Rightarrow> (bytes32 \<times> u64) list \<Rightarrow> bytes32" where
  "smtBuild C leaves = (if leaves = [] then defaultNodes C 256 else nodeHashOf (smtNodes C leaves))"

definition smtRootOf :: "crypto \<Rightarrow> SmtTree \<Rightarrow> SmtTree" where
  "smtRootOf C t = (if smtDirty t then t\<lparr>smtRoot := smtBuild C (smtLeaves t), smtDirty := False\<rparr> else t)"

text \<open>The walk that collects the siblings; stepping below a missing node is a nil dereference (\<^const>\<open>None\<close>).\<close>

fun smtSiblings :: "crypto \<Rightarrow> bytes32 \<Rightarrow> nat \<Rightarrow> smtNode option \<Rightarrow> bytes32 list option" where
  "smtSiblings C key 0 node = Some []"
| "smtSiblings C key (Suc n) None = None"
| "smtSiblings C key (Suc n) (Some (SmtNode h d l r)) =
     (let (other, following) = (if isBitSet key (255 - n) then (l, r) else (r, l)) in
      map_option ((#) (case other of None \<Rightarrow> defaultNodes C n | Some x \<Rightarrow> nodeHashOf x)) (smtSiblings C key n following))"

definition smtGenerateProof :: "crypto \<Rightarrow> SmtTree \<Rightarrow> bytes32 \<Rightarrow> SmtTree \<times> bytes32 list option" where
  "smtGenerateProof C t key = (smtRootOf C t, smtSiblings C key 256 (Some (smtNodes C (smtLeaves t))))"

definition smtVerifyProof :: "crypto \<Rightarrow> bytes32 \<Rightarrow> bytes32 \<Rightarrow> u64 \<Rightarrow> bytes32 list \<Rightarrow> bool" where
  "smtVerifyProof C rootHash key v proof \<longleftrightarrow> length proof = 256 \<and>
     foldl (\<lambda>current b. if isBitSet key b then nodeHash C (proof ! b) current else nodeHash C current (proof ! b)) (valueHash C v) [0..<256] = rootHash"

text \<open>In a tree of one leaf every sibling is a default node.\<close>

lemma single_siblings:
  "smtSiblings C key n (Some (computeHashes C (placeLeaf C key leaf n (SmtNode h d None None)))) = Some (rev (map (defaultNodes C) [0..<n]))"
  by (induction n arbitrary: h d) (simp_all add: Let_def)

lemma single_hash: "\<exists>a. nodeHashOf (computeHashes C (placeLeaf C key leaf (Suc n) (SmtNode h d None None))) = Hash C a"
  by (auto simp: Let_def nodeHash_def)

text \<open>A generated proof lists the siblings from the root down, and the verifier combines them in this order from the leaf up. So even in a
  tree of a single leaf the proof of that leaf is rejected, unless the hash function collides or has the all-zero value.\<close>

theorem smt_proof_rejected:
  assumes "smtGenerateProof C (smtInsertKey NewSmt 1 v) 1 = (t, Some proof)" "smtVerifyProof C (smtRoot t) 1 v proof"
  shows "(\<exists>a b. a \<noteq> b \<and> Hash C a = Hash C b) \<or> (\<exists>a. Hash C a = 0)"
proof -
  have bits: "\<not> isBitSet 1 0" "isBitSet 1 255" by code_simp+
  define leaf where "leaf = valueHash C v"
  let ?l = "computeHashes C (placeLeaf C 1 leaf (Suc 254) (SmtNode (defaultNodes C 255) 255 None None))"
  have nodes: "smtNodes C [(1, v)] = SmtNode (nodeHash C (nodeHashOf ?l) (defaultNodes C 255)) 256 (Some ?l) None"
    unfolding smtNodes_def leaf_def[symmetric] using placeLeaf.simps(2)[of C 1 leaf 255 "defaultNodes C 256" 256 None None] bits(1)
    by (simp add: leaf_def Let_def del: placeLeaf.simps defaultNodes.simps)
  have "proof = rev (map (defaultNodes C) [0..<256])"
    using assms(1) single_siblings[of C 1 256 leaf "defaultNodes C 256" 256]
    by (simp add: smtGenerateProof_def smtInsertKey_def NewSmt_def smtNodes_def leaf_def del: placeLeaf.simps defaultNodes.simps upt_rec_numeral)
  then have last: "proof ! 255 = 0" by (simp add: rev_nth del: upt_rec_numeral)
  have t: "t = smtRootOf C (smtInsertKey NewSmt 1 v)" using assms(1) by (simp add: smtGenerateProof_def)
  obtain cur where "nodeHash C 0 cur = smtRoot (smtRootOf C (smtInsertKey NewSmt 1 v))"
    using assms(2)[unfolded t] last bits(2) upt_Suc_append[of 0 255] by (auto simp: smtVerifyProof_def simp del: upt_rec_numeral)
  then have "Hash C (arr32 0 @ arr32 cur) = Hash C (arr32 (nodeHashOf ?l) @ arr32 (defaultNodes C 255))"
    using nodes by (simp add: smtRootOf_def smtInsertKey_def NewSmt_def smtBuild_def nodeHash_def del: placeLeaf.simps defaultNodes.simps)
  moreover have "nodeHashOf ?l = 0" if "arr32 0 @ arr32 cur = arr32 (nodeHashOf ?l) @ arr32 (defaultNodes C 255)"
    using that A32.enc_inject by (metis append_eq_append_conv A32.enc_length)
  moreover obtain a where "nodeHashOf ?l = Hash C a" using single_hash[of C 1 leaf 254] by blast
  ultimately show ?thesis by metis
qed

end
