(* ===== verification/Spec2Isabelle.thy ===== *)
theory Spec2Isabelle
  imports FRG_Proof FRG_EngineLaws FRG_Faucet FRG_Bench
begin

text \<open>
  A verification of FRG, a proof-of-stake ledger in Go (module \<^verbatim>\<open>github.com/imattau/frg\<close>). File names below are relative to
  \<^verbatim>\<open>src/\<close>.

  \<^bold>\<open>The program.\<close> A node keeps a ledger of balances and nonces, a register of bonded validators, the state of WebAssembly
  contracts, and the committed blocks, all in one bbolt database. Transactions arrive over gossip or gRPC, wait in the mempool of the block
  loop, and are proposed by an elected validator. The consensus engine exchanges prevotes and precommits and hands a block with a
  quorum to the state machine, which applies it in one database transaction: it verifies signatures, runs each transaction on
  ledger, staking and contracts, builds the coarse-graining tree whose root is the state root, burns fees, slashes, mints rewards, and
  stores block and metadata. Inclusion proofs are paths of that tree. A node that was offline fetches blocks from its peers. Wallet,
  client and faucet sit on the other side of the gRPC interface.

  \<^bold>\<open>Conventions of the model.\<close> Bytes are \<^verbatim>\<open>8 word\<close>, byte arrays of fixed size are words of that width, \<^verbatim>\<open>uint64\<close> and
  the like are words and wrap, \<^verbatim>\<open>big.Int\<close> is an integer. A bucket of the database is an association list sorted by key. A fallible
  function returns a sum whose left side is an error code, another error, or \<open>Panic\<close> for a run-time panic of Go. Every definition is
  executable. Code outside the repository is a parameter: SHA-256, Ed25519 and Unicode normalisation (record \<open>crypto\<close>), the
  WebAssembly engine (\<open>wasmtime\<close>), the pairing library (\<open>bn254\<close>), JSON (\<open>json\<close>), the authenticated cipher (\<open>aead\<close>), the
  answers of peers (\<open>SyncNet\<close>), and the order in which a Go map is visited. What is relied on is a named hypothesis of the theorem
  that needs it, and the witness of that theorem instantiates it.

  \<^bold>\<open>Theories, in the order of imports.\<close>

  \<^item> \<open>FRG_Prelude\<close>: results and their combinators, big-endian numbers and the prefix codecs (locale \<open>prefix_codec\<close>), buckets
    (locale \<open>kv_bucket\<close>).
  \<^item> \<open>FRG_Base\<close>: \<^verbatim>\<open>core/errors\<close>, \<^verbatim>\<open>core/hash\<close>, \<^verbatim>\<open>core/keys\<close>.
  \<^item> \<open>FRG_Tx\<close>: \<^verbatim>\<open>core/tx\<close>. The parser accepts exactly what the serializer emits, and the inputs on which it panics are
    characterised; what a signature binds, and what it does not.
  \<^item> \<open>FRG_Ledger\<close>: \<^verbatim>\<open>core/ledger\<close> on stored bytes, refined to a specification on balances and nonces; conservation and replay
    protection. The locale \<open>token_ledger\<close> is what staking, fees and rewards rely on.
  \<^item> \<open>FRG_Denom\<close>, \<open>FRG_Staking\<close>, \<open>FRG_Economics\<close>: \<^verbatim>\<open>core/denom\<close>, \<^verbatim>\<open>core/staking\<close>, and
    \<^verbatim>\<open>core/gas\<close>, \<^verbatim>\<open>core/mint\<close>, \<^verbatim>\<open>core/leader\<close>: escrowed bonds stay recoverable along every run of staking operations; base fee,
    reward split and rotation.
  \<^item> \<open>FRG_Node\<close>, \<open>FRG_Tree\<close>, \<open>FRG_Proof\<close>: \<^verbatim>\<open>core/node\<close>, \<^verbatim>\<open>core/tree\<close>, \<^verbatim>\<open>validator\<close>: incremental updates equal
    rebuilding, proofs are complete, and sound up to a hash collision.
  \<^item> \<open>FRG_Contract\<close>: \<^verbatim>\<open>core/contract\<close>: host functions, fuel, deployment and calls over the WebAssembly engine; a contract
    debits only its caller and itself (locale \<open>host_invariant\<close>).
  \<^item> \<open>FRG_BlockStore\<close>, \<open>FRG_StateMachine\<close>, \<open>FRG_BlockLaws\<close>: \<^verbatim>\<open>core/statemachine\<close>: the stored forms, \<open>ApplyBlockForChain\<close> in
    its stages, and what a block does to height, root, supply and balances.
  \<^item> \<open>FRG_Vote\<close>, \<open>FRG_BlockLoop\<close>, \<open>FRG_Consensus\<close>: \<^verbatim>\<open>core/consensus/vote.go\<close> (locale \<open>stake_quorums\<close>),
    \<^verbatim>\<open>core/blockloop\<close> (the mempool refines a bounded queue), and \<^verbatim>\<open>core/consensus\<close>: every handler of the engine, its start and its
    event loop as the step function \<open>engineStep\<close>.
  \<^item> \<open>FRG_EngineRuns\<close>, \<open>FRG_EngineStore\<close>, \<open>FRG_EngineLaws\<close>: the lifetime of a validator as a relation over boots, events,
    crashes and restarts (\<open>nodeRun\<close>): the handlers terminate, a validator never equivocates, every applied block is certified, a fork
    convicts more than a third of the stake.
  \<^item> \<open>FRG_Genesis\<close>: \<^verbatim>\<open>core/genesis\<close> and the default genesis of \<^verbatim>\<open>cmd/frg-node\<close>.
  \<^item> \<open>FRG_Sync\<close>: \<^verbatim>\<open>core/p2p/blocksync.go\<close> and the catch-up loop of \<^verbatim>\<open>cmd/frg-node/main.go\<close> against arbitrary peers.
  \<^item> \<open>FRG_Rpc\<close>: the gossip readers of \<^verbatim>\<open>core/p2p/p2p.go\<close>, roles, rate limit (locale \<open>window_counter\<close>), submission and queries of
    \<^verbatim>\<open>cmd/frg-node\<close>.
  \<^item> \<open>FRG_Client\<close>, \<open>FRG_Faucet\<close>: \<^verbatim>\<open>wallet\<close>, \<^verbatim>\<open>client\<close> and \<^verbatim>\<open>cmd/frg-faucet\<close>: a transfer from the wallet is accepted by the
    modelled server and applies on the modelled ledger; the offline queue; the cooldown and its race.
  \<^item> \<open>FRG_Bench\<close>: the two reference trees of \<^verbatim>\<open>benchmarks\<close>.

  \<^bold>\<open>Loops and fuel.\<close> Loops are structural or come with a termination proof. The handlers of the engine call each other in a cycle
  (a vote may start a round, which casts votes), so \<open>handleVote\<close> has fuel; every cycle uses up a slot of the vote log, and more fuel than
  there are free slots (at most $2^{104}$ slots: height, round and vote type) is enough, which is what the termination property
  states. The catch-up loop is a partial function; it returns once its context ends.

  \<^bold>\<open>Known weaknesses that the theorems make visible.\<close> The statements are exact where the code has an edge: the batch of
  65,536 transactions, the self-transfer that creates value, the receiver key outside the signature, the stale transaction that is still
  charged, the lock that is dropped, the timer that is not armed, the empty block that cannot be synchronised.

  \<^bold>\<open>Not modelled.\<close> Input and output around these parts: flags, configuration and key files, listeners, metrics, backups of
  database files, the libp2p host and its discovery; the generated protocol buffer code; the command-line tools, the web and MCP front
  ends, which only forward to the interface; the tools that start processes or generate load; and the Python agents, which drive a
  language model. Durations are not modelled: a timer is armed or not, and the clock of the rate limit and the faucet is an argument.
  Goroutines appear where their interleaving matters (events of the engine, requests in flight at the faucet); the unsynchronised global
  buffer of the fast proof verifier does not.
\<close>

end
